(* ===== verification/Prelude.thy ===== *)
theory Prelude
  imports
    Main
    "HOL-Library.Multiset"
    "HOL-Library.Char_ord"
    "HOL-Library.List_Lexorder"
    "HOL-Library.AList"
begin

text \<open>
  Shared vocabulary of the development: the collections of rules the component theories extend,
  and the generic facts about lists, sorting and association lists they share.

  \<^item> \<open>tx_wp\<close> collects the weakest-precondition rules of the database calls;
  \<^item> \<open>sql_defs\<close> collects the definitions of the single SQL statements;
  \<^item> \<open>ok_defs\<close> collects the parts of the integrity invariant of the database.
\<close>

named_theorems tx_wp \<open>weakest-precondition rules for database calls\<close>
named_theorems sql_defs \<open>definitions of SQL statements\<close>
named_theorems ok_defs \<open>parts of the integrity invariant\<close>

section \<open>Lists as tables\<close>

lemma distinct_map_filterI: "distinct (map f xs) \<Longrightarrow> distinct (map f (filter P xs))"
  by (induction xs) auto

lemma map_key_update [simp]:
  "(\<And>x. P x \<Longrightarrow> k (g x) = k x) \<Longrightarrow> map (k \<circ> (\<lambda>x. if P x then g x else x)) xs = map k xs"
  by (induction xs) auto

lemma image_key_update:
  assumes "\<And>x. P x \<Longrightarrow> k (g x) = k x"
  shows "k ` set (map (\<lambda>x. if P x then g x else x) xs) = k ` set xs"
proof -
  have "set (map (k \<circ> (\<lambda>x. if P x then g x else x)) xs) = set (map k xs)"
    using assms by (subst map_key_update) simp_all
  then show ?thesis by (simp only: set_map image_comp)
qed

lemma filter_key_fresh: "k \<notin> f ` set xs \<Longrightarrow> filter (\<lambda>x. f x = k) xs = []"
  by (induction xs) auto

lemma length_filter_key_le_1:
  "distinct (map f xs) \<Longrightarrow> length (filter (\<lambda>x. f x = k) xs) \<le> 1"
proof (induction xs)
  case (Cons x xs)
  then show ?case by (cases "f x = k") (simp_all add: filter_key_fresh)
qed simp

lemma length_filter_key:
  assumes "distinct (map f xs)"
  shows "length (filter (\<lambda>x. f x = k) xs) = (if k \<in> f ` set xs then 1 else 0)"
proof (cases "k \<in> f ` set xs")
  case True
  then have "filter (\<lambda>x. f x = k) xs \<noteq> []" by (auto simp: filter_empty_conv)
  then have "0 < length (filter (\<lambda>x. f x = k) xs)" by simp
  with length_filter_key_le_1 [OF assms, of k] have "length (filter (\<lambda>x. f x = k) xs) = 1"
    by linarith
  with True show ?thesis by simp
next
  case False
  then show ?thesis by (simp add: filter_key_fresh)
qed

lemma filter_key_find:
  assumes "distinct (map f xs)"
  shows "filter (\<lambda>x. f x = k) xs = (case find (\<lambda>x. f x = k) xs of None \<Rightarrow> [] | Some x \<Rightarrow> [x])"
  using assms
proof (induction xs)
  case (Cons x xs)
  show ?case
  proof (cases "f x = k")
    case True
    with Cons.prems have "filter (\<lambda>y. f y = k) xs = []"
      by (intro filter_key_fresh) simp
    with True show ?thesis by simp
  next
    case False
    with Cons show ?thesis by simp
  qed
qed simp

lemma find_key_Some:
  "find (\<lambda>x. f x = k) xs = Some x \<Longrightarrow> x \<in> set xs \<and> f x = k"
  by (induction xs) (auto split: if_splits)

lemma find_key_eq_Some:
  assumes "distinct (map f xs)" and "x \<in> set xs"
  shows "find (\<lambda>y. f y = f x) xs = Some x"
  using assms
proof (induction xs)
  case (Cons y ys)
  then show ?case by (cases "x = y") (auto simp: image_iff)
qed simp

lemma find_key_None: "find (\<lambda>x. f x = k) xs = None \<longleftrightarrow> k \<notin> f ` set xs"
  by (auto simp: find_None_iff)

lemma distinct_map_snoc:
  "distinct (map f (xs @ [x])) \<longleftrightarrow> distinct (map f xs) \<and> f x \<notin> f ` set xs"
  by auto

section \<open>Sorting\<close>

text \<open>The rows a SQL \<open>order by\<close> returns: a permutation of the rows, ascending in the key.\<close>

lemma sorted_map_sort_key: "sorted (map f (sort_key f xs))"
  by (rule sorted_sort_key)

section \<open>Aggregates\<close>

text \<open>\<open>ifnull(max(column), 0)\<close>\<close>

definition sql_max :: "int list \<Rightarrow> int" where
  "sql_max xs = (if xs = [] then 0 else Max (set xs))"

lemma sql_max_ge: "x \<in> set xs \<Longrightarrow> x \<le> sql_max xs"
  by (auto simp: sql_max_def)

lemma sql_max_fresh: "sql_max xs + 1 \<notin> set xs"
  using sql_max_ge [of "sql_max xs + 1" xs] by auto

lemma sql_max_nonneg: "\<forall>x \<in> set xs. 1 \<le> x \<Longrightarrow> 0 \<le> sql_max xs"
proof (cases xs)
  case Nil
  then show ?thesis by (simp add: sql_max_def)
next
  case (Cons x ys)
  assume "\<forall>x \<in> set xs. 1 \<le> x"
  with Cons sql_max_ge [of x xs] show ?thesis by force
qed

section \<open>Association lists\<close>

lemma sum_list_update_aux:
  fixes al :: "('k \<times> int) list"
  assumes "distinct (map fst al)"
  shows "sum_list (map snd (AList.update k v al))
    = sum_list (map snd al) + v - (case map_of al k of None \<Rightarrow> 0 | Some u \<Rightarrow> u)"
  using assms by (induction al) (auto split: option.splits simp: map_of_eq_None_iff)

end
