(* ===== verification/Go_Text.thy ===== *)
theory Go_Text
  imports Prelude
begin

text \<open>
  What the program uses of Go's strings. A Go string is a sequence of bytes, modelled as the
  Isabelle type \<^typ>\<open>string\<close>, whose characters are the 256 bytes; \<open>len\<close> is \<^const>\<open>length\<close>.
  A \<open>range\<close> loop over a string decodes UTF-8 and yields runes, with the replacement rune
  U+FFFD and width one for a byte that starts no valid encoding; \<open>runes\<close> is that loop.
  On top of it stand the text checks of \<^verbatim>\<open>event/errors.go\<close>: \<open>AllWhitespace\<close> and
  \<open>IsEmailAddress\<close>.
\<close>

section \<open>Decoding UTF-8\<close>

definition RuneError :: nat where
  "RuneError = 65533"

definition is_cont :: "nat \<Rightarrow> bool" where
  "is_cont b \<longleftrightarrow> 128 \<le> b \<and> b \<le> 191"

text \<open>The first continuation byte is restricted further for the lead bytes E0, ED, F0 and F4.\<close>

definition accept_lo :: "nat \<Rightarrow> nat" where
  "accept_lo b0 = (if b0 = 224 then 160 else if b0 = 240 then 144 else 128)"

definition accept_hi :: "nat \<Rightarrow> nat" where
  "accept_hi b0 = (if b0 = 237 then 159 else if b0 = 244 then 143 else 191)"

definition decode_rune :: "nat \<Rightarrow> nat list \<Rightarrow> nat \<times> nat" where
  "decode_rune b0 bs =
    (if b0 < 128 then (b0, 1)
     else if b0 < 194 \<or> 244 < b0 then (RuneError, 1)
     else if b0 < 224 then
       (case bs of
          b1 # _ \<Rightarrow> if is_cont b1 then ((b0 - 192) * 64 + (b1 - 128), 2) else (RuneError, 1)
        | [] \<Rightarrow> (RuneError, 1))
     else if b0 < 240 then
       (case bs of
          b1 # b2 # _ \<Rightarrow>
            if accept_lo b0 \<le> b1 \<and> b1 \<le> accept_hi b0 \<and> is_cont b2
            then ((b0 - 224) * 4096 + (b1 - 128) * 64 + (b2 - 128), 3) else (RuneError, 1)
        | _ \<Rightarrow> (RuneError, 1))
     else
       (case bs of
          b1 # b2 # b3 # _ \<Rightarrow>
            if accept_lo b0 \<le> b1 \<and> b1 \<le> accept_hi b0 \<and> is_cont b2 \<and> is_cont b3
            then ((b0 - 240) * 262144 + (b1 - 128) * 4096 + (b2 - 128) * 64 + (b3 - 128), 4)
            else (RuneError, 1)
        | _ \<Rightarrow> (RuneError, 1)))"

lemma decode_rune_width: "0 < snd (decode_rune b0 bs)"
  by (auto simp: decode_rune_def split: list.splits)

function rune_list :: "nat list \<Rightarrow> nat list" where
  "rune_list [] = []"
| "rune_list (b # bs) = (case decode_rune b bs of (r, n) \<Rightarrow> r # rune_list (drop (n - 1) bs))"
  by pat_completeness auto
termination
  by (relation "measure length") auto

definition runes :: "string \<Rightarrow> nat list" where
  "runes s = rune_list (map of_char s)"

section \<open>White space\<close>

text \<open>\<open>unicode.IsSpace\<close>: the Latin-1 cases, then the \<open>White_Space\<close> property beyond them.\<close>

definition IsSpace :: "nat \<Rightarrow> bool" where
  "IsSpace r \<longleftrightarrow>
     r \<in> set [9, 10, 11, 12, 13, 32, 133, 160, 5760, 8232, 8233, 8239, 8287, 12288]
     \<or> (8192 \<le> r \<and> r \<le> 8202)"

fun all_space :: "nat list \<Rightarrow> bool" where
  "all_space [] = True"
| "all_space (ch # rs) = (if \<not> IsSpace ch then False else all_space rs)"

definition AllWhitespace :: "string \<Rightarrow> bool" where
  "AllWhitespace s = all_space (runes s)"

section \<open>Email addresses\<close>

text \<open>
  The expression is \<^verbatim>\<open>^[a-zA-Z0-9_.+-]+@[a-zA-Z0-9-]+\.[a-zA-Z0-9-.]+$\<close>. None of the three
  classes holds \<open>@\<close> and the second does not hold the dot, so a left-to-right scan that takes the
  longest run of each class is a matcher for it.
\<close>

definition alnum :: "char \<Rightarrow> bool" where
  "alnum c \<longleftrightarrow> (CHR ''a'' \<le> c \<and> c \<le> CHR ''z'') \<or> (CHR ''A'' \<le> c \<and> c \<le> CHR ''Z'')
      \<or> (CHR ''0'' \<le> c \<and> c \<le> CHR ''9'')"

definition local_class :: "char \<Rightarrow> bool" where
  "local_class c \<longleftrightarrow> alnum c \<or> c \<in> set ''_.+-''"

definition host_class :: "char \<Rightarrow> bool" where
  "host_class c \<longleftrightarrow> alnum c \<or> c = CHR ''-''"

definition tail_class :: "char \<Rightarrow> bool" where
  "tail_class c \<longleftrightarrow> alnum c \<or> c \<in> set ''-.''"

definition IsEmailAddress :: "string \<Rightarrow> bool" where
  "IsEmailAddress s =
    (case dropWhile local_class s of
       [] \<Rightarrow> False
     | c # r \<Rightarrow> takeWhile local_class s \<noteq> [] \<and> c = CHR ''@'' \<and>
         (case dropWhile host_class r of
            [] \<Rightarrow> False
          | c' # t \<Rightarrow> takeWhile host_class r \<noteq> [] \<and> c' = CHR ''.'' \<and> t \<noteq> [] \<and> list_all tail_class t))"

text \<open>The language of the expression, as the regular-expression syntax defines it.\<close>

definition email_language :: "string \<Rightarrow> bool" where
  "email_language s \<longleftrightarrow>
    (\<exists>l h t. s = l @ ''@'' @ h @ ''.'' @ t \<and> l \<noteq> [] \<and> h \<noteq> [] \<and> t \<noteq> []
       \<and> list_all local_class l \<and> list_all host_class h \<and> list_all tail_class t)"

section \<open>Facts\<close>

lemma all_space_iff: "all_space rs \<longleftrightarrow> list_all IsSpace rs"
  by (induction rs) auto

lemma AllWhitespace_iff: "AllWhitespace s \<longleftrightarrow> (\<forall>r \<in> set (runes s). IsSpace r)"
  by (simp add: AllWhitespace_def all_space_iff list_all_iff)

lemma AllWhitespace_Nil [simp]: "AllWhitespace []"
  by (simp add: AllWhitespace_def runes_def)

lemma rune_list_ascii: "list_all (\<lambda>b. b < 128) bs \<Longrightarrow> rune_list bs = bs"
  by (induction bs) (auto simp: decode_rune_def)

lemma runes_ascii: "list_all (\<lambda>c. of_char c < (128 :: nat)) s \<Longrightarrow> runes s = map of_char s"
  by (simp add: runes_def rune_list_ascii list_all_iff)

lemma takeWhile_run:
  assumes "list_all P xs" and "\<not> P y"
  shows "takeWhile P (xs @ y # ys) = xs" and "dropWhile P (xs @ y # ys) = y # ys"
  using assms by (induction xs) auto

lemma not_classes [simp]:
  "\<not> local_class (CHR ''@'')" "\<not> host_class (CHR ''.'')"
  by (simp_all add: local_class_def host_class_def alnum_def less_eq_char_def)

lemma list_all_takeWhile: "list_all P (takeWhile P xs)"
  by (induction xs) auto

lemma IsEmailAddress_sound: "IsEmailAddress s \<Longrightarrow> email_language s"
proof -
  assume s: "IsEmailAddress s"
  then obtain r t where r: "dropWhile local_class s = CHR ''@'' # r"
    and t: "dropWhile host_class r = CHR ''.'' # t"
    and ne: "takeWhile local_class s \<noteq> []" "takeWhile host_class r \<noteq> []" "t \<noteq> []"
    and tail: "list_all tail_class t"
    by (auto simp: IsEmailAddress_def split: list.splits)
  have "s = takeWhile local_class s @ ''@'' @ takeWhile host_class r @ ''.'' @ t"
    using takeWhile_dropWhile_id [of local_class s] takeWhile_dropWhile_id [of host_class r] r t
    by simp
  with ne tail list_all_takeWhile show ?thesis
    unfolding email_language_def by blast
qed

lemma IsEmailAddress_complete: "email_language s \<Longrightarrow> IsEmailAddress s"
proof -
  assume "email_language s"
  then obtain l h t where s: "s = l @ CHR ''@'' # h @ CHR ''.'' # t"
    and ne: "l \<noteq> []" "h \<noteq> []" "t \<noteq> []"
    and cl: "list_all local_class l" "list_all host_class h" "list_all tail_class t"
    by (auto simp: email_language_def)
  show ?thesis
    using ne cl by (simp add: IsEmailAddress_def s takeWhile_run)
qed

lemma not_AllWhitespace_Cons:
  assumes "of_char c < (128 :: nat)" and "\<not> IsSpace (of_char c)"
  shows "\<not> AllWhitespace (c # s)"
  using assms by (simp add: AllWhitespace_def runes_def decode_rune_def)

lemma IsEmailAddress_no_at:
  assumes "CHR ''@'' \<notin> set s"
  shows "\<not> IsEmailAddress s"
proof
  assume "IsEmailAddress s"
  then have "email_language s" by (rule IsEmailAddress_sound)
  with assms show False by (auto simp: email_language_def)
qed

section \<open>Decimal numbers\<close>

text \<open>\<open>strconv.Atoi\<close> for a 64-bit \<open>int\<close>; \<open>None\<close> is a syntax or range error.\<close>

definition is_digit :: "char \<Rightarrow> bool" where
  "is_digit c \<longleftrightarrow> 48 \<le> (of_char c :: nat) \<and> (of_char c :: nat) \<le> 57"

definition digits_value :: "string \<Rightarrow> nat" where
  "digits_value ds = fold (\<lambda>c n. n * 10 + (of_char c - 48)) ds 0"

definition strip_sign :: "string \<Rightarrow> bool \<times> string" where
  "strip_sign s =
    (case s of
       [] \<Rightarrow> (False, [])
     | c # cs \<Rightarrow> if c = CHR ''-'' then (True, cs) else if c = CHR ''+'' then (False, cs) else (False, s))"

definition Atoi :: "string \<Rightarrow> int option" where
  "Atoi s =
    (case strip_sign s of (neg, ds) \<Rightarrow>
     if ds = [] \<or> \<not> list_all is_digit ds then None
     else let v = (if neg then - int (digits_value ds) else int (digits_value ds))
          in if - (2 ^ 63) \<le> v \<and> v < 2 ^ 63 then Some v else None)"

lemma Atoi_range: "Atoi s = Some v \<Longrightarrow> - (2 ^ 63) \<le> v \<and> v < 2 ^ 63"
  by (auto simp: Atoi_def Let_def split: prod.splits if_splits)

lemma Atoi_empty [simp]: "Atoi '''' = None"
  by (simp add: Atoi_def strip_sign_def)

end
