(* ===== verification/Event_Errors.thy ===== *)
theory Event_Errors
  imports Go_Text
begin

text \<open>
  The errors the program passes around: the sentinel values of \<^verbatim>\<open>event/errors.go\<close>, the errors of
  the SQLite driver with their two result codes, and the errors built by \<open>fmt.Errorf\<close>. The
  classification functions of \<^verbatim>\<open>event/eventdb.go\<close> that decide which errors make a transaction
  start over are modelled here too.
\<close>

section \<open>Errors as values\<close>

text \<open>
  \<open>BcryptError\<close> is an error of the password-hashing library; \<open>Errorf\<close> and \<open>ErrorfAt\<close> are the
  messages built by \<open>fmt.Errorf\<close>, the second around another error. \<open>Panic\<close> is a run-time panic that
  unwinds the call. \<open>NotReturned\<close> is no error of
  the program: it marks a retry loop of the model that ran out of fuel, and it is shown never to
  come out of \<open>txLoop\<close>.
\<close>

text \<open>\<open>sqlite3.Error\<close> of the driver, reduced to the two codes the program looks at.\<close>

datatype sqlite_error = SqliteError (Code: nat) (ExtendedCode: nat)

datatype error =
    ErrInternal
  | errNoUsername
  | errUsernameIsEmail
  | errNoEmail
  | errNoPassword
  | errPasswordTooShort
  | errPasswordIncorrect
  | errUsernameExists
  | errEmailExists
  | ErrCredentialsIncorrect
  | errNoTitle
  | errTitleExists
  | errNoDesc
  | errInvalidInterest
  | errTooManyDiscussions
  | errAllSlotsLocked
  | errInProgress
  | errModeratedDiscussions
  | ErrUserNotFound
  | ErrDiscussionNotFound
  | ErrLocationNotFound
  | ErrDayNotFound
  | ErrUserOrDiscussionNotFound
  | errLocationNoName
  | errLocationInvalidCapacity
  | errDayNoName
  | ErrNoRows
  | Sqlite sqlite_error
  | BcryptError string
  | Errorf string
  | ErrorfAt string error
  | Panic string
  | NotReturned

text \<open>
  The sentinels declared with a conversion to \<open>ValidationError\<close>. They are the errors the source
  means by a validation error.
\<close>

definition declared_validation :: "error set" where
  "declared_validation =
    {ErrInternal, errNoUsername, errUsernameIsEmail, errNoEmail, errNoPassword,
     errPasswordTooShort, errPasswordIncorrect, errUsernameExists, errEmailExists,
     ErrCredentialsIncorrect, errNoTitle, errTitleExists, errNoDesc, errInvalidInterest,
     errTooManyDiscussions, errAllSlotsLocked, errInProgress, errModeratedDiscussions,
     errLocationNoName, errLocationInvalidCapacity, errDayNoName}"

text \<open>
  \<open>ValidationError\<close> is declared as \<open>type ValidationError error\<close>, an interface type with the method
  set of \<open>error\<close>. The type assertion \<open>err.(ValidationError)\<close> therefore succeeds for every non-nil
  error, whatever its dynamic type; \<open>None\<close> is the nil error.
\<close>

definition IsValidationError :: "error option \<Rightarrow> bool" where
  "IsValidationError err = (case err of None \<Rightarrow> False | Some _ \<Rightarrow> True)"

section \<open>SQLite result codes\<close>

text \<open>A query of \<open>isSqliteErrorCode\<close>: a primary code, an extended code, or another error type.\<close>

datatype code_query = ErrNo nat | ErrNoExtended nat | OtherQuery

definition code_Busy :: nat where "code_Busy = 5"
definition code_Locked :: nat where "code_Locked = 6"
definition code_Constraint :: nat where "code_Constraint = 19"
definition code_ForeignKey :: nat where "code_ForeignKey = 787"
definition code_PrimaryKey :: nat where "code_PrimaryKey = 1555"
definition code_Unique :: nat where "code_Unique = 2067"

fun code_matches :: "sqlite_error \<Rightarrow> code_query \<Rightarrow> bool" where
  "code_matches e (ErrNo c) = (Code e = c)"
| "code_matches e (ErrNoExtended c) = (ExtendedCode e = c)"
| "code_matches e OtherQuery = False"

fun any_code_matches :: "sqlite_error \<Rightarrow> code_query list \<Rightarrow> bool" where
  "any_code_matches e [] = False"
| "any_code_matches e (q # qs) = (if code_matches e q then True else any_code_matches e qs)"

definition isSqliteErrorCode :: "error option \<Rightarrow> code_query list \<Rightarrow> bool" where
  "isSqliteErrorCode err queries =
    (case err of
       None \<Rightarrow> False
     | Some (Sqlite e) \<Rightarrow> any_code_matches e queries
     | Some _ \<Rightarrow> False)"

definition shouldRetry :: "error \<Rightarrow> bool" where
  "shouldRetry err = isSqliteErrorCode (Some err) [ErrNo code_Busy, ErrNo code_Locked]"

definition isErrorConstraintUnique :: "error \<Rightarrow> bool" where
  "isErrorConstraintUnique err = isSqliteErrorCode (Some err) [ErrNoExtended code_Unique]"

definition isErrorForeignKey :: "error \<Rightarrow> bool" where
  "isErrorForeignKey err = isSqliteErrorCode (Some err) [ErrNoExtended code_ForeignKey]"

text \<open>A retryable error passes unchanged; any other is flattened into a message.\<close>

definition errOrRetry :: "string \<Rightarrow> error \<Rightarrow> error" where
  "errOrRetry comment err = (if shouldRetry err then err else ErrorfAt comment err)"

section \<open>Facts\<close>

lemma shouldRetry_Sqlite:
  "shouldRetry (Sqlite e) \<longleftrightarrow> Code e = code_Busy \<or> Code e = code_Locked"
  by (simp add: shouldRetry_def isSqliteErrorCode_def)

lemma shouldRetry_only_Sqlite: "shouldRetry err \<Longrightarrow> \<exists>e. err = Sqlite e"
  by (cases err) (simp_all add: shouldRetry_def isSqliteErrorCode_def)

lemma not_shouldRetry [simp]:
  "\<not> shouldRetry ErrInternal" "\<not> shouldRetry errNoUsername" "\<not> shouldRetry errNoTitle"
  "\<not> shouldRetry errNoDesc" "\<not> shouldRetry errTooManyDiscussions"
  "\<not> shouldRetry ErrUserNotFound" "\<not> shouldRetry ErrDiscussionNotFound"
  "\<not> shouldRetry ErrLocationNotFound" "\<not> shouldRetry ErrDayNotFound"
  "\<not> shouldRetry ErrNoRows" "\<not> shouldRetry (Errorf s)" "\<not> shouldRetry (ErrorfAt s err)"
  "\<not> shouldRetry (Panic s)" "\<not> shouldRetry errDayNoName" "\<not> shouldRetry (BcryptError s)" "\<not> shouldRetry NotReturned"
  by (simp_all add: shouldRetry_def isSqliteErrorCode_def)

lemma shouldRetry_errOrRetry [simp]: "shouldRetry (errOrRetry c e) = shouldRetry e"
  by (simp add: errOrRetry_def)

text \<open>
  Wrapping hides the code: after \<open>errOrRetry\<close> no caller can tell a uniqueness violation or a
  foreign-key violation from any other failure.
\<close>

lemma errOrRetry_hides_constraint:
  "Code e = code_Constraint \<Longrightarrow>
     \<not> isErrorConstraintUnique (errOrRetry c (Sqlite e)) \<and> \<not> isErrorForeignKey (errOrRetry c (Sqlite e))"
  by (simp add: errOrRetry_def shouldRetry_Sqlite code_Constraint_def code_Busy_def code_Locked_def
      isErrorConstraintUnique_def isErrorForeignKey_def isSqliteErrorCode_def)

end
