(* ===== verification/Random_Id.thy ===== *)
theory Random_Id
  imports Prelude "HOL-Library.Word"
begin

text \<open>
  Random identifiers, \<^verbatim>\<open>id/id.go\<close>. The bytes \<open>rand.Read\<close> delivers are an argument; each is
  reduced to an index of the 62-character source string with the byte-wide remainder of the code.
\<close>

definition idSource :: string where
  "idSource = ''0123456789ABCDEFGHIJKLMNOPQRSTUVWXYZabcdefghijklmnopqrstuvwxyz''"

definition idSourceLen :: "8 word" where
  "idSourceLen = of_nat (length idSource)"

definition id_char :: "8 word \<Rightarrow> char" where
  "id_char b = idSource ! unat (b mod idSourceLen)"

definition GenerateRawID :: "8 word list \<Rightarrow> string" where
  "GenerateRawID bytes = map id_char bytes"

definition GenerateID :: "string \<Rightarrow> 8 word list \<Rightarrow> string" where
  "GenerateID prefix bytes = prefix @ ''_'' @ GenerateRawID bytes"

section \<open>Facts\<close>

lemma length_idSource [simp]: "length idSource = 62"
  by (simp add: idSource_def)

lemma idSourceLen_eq: "idSourceLen = 62"
  by (simp add: idSourceLen_def)

lemma id_index_bound: "unat (b mod idSourceLen) < length idSource"
  by (simp add: idSourceLen_eq unat_mod)

lemma id_char_in_source: "id_char b \<in> set idSource"
  unfolding id_char_def by (rule nth_mem [OF id_index_bound])

lemma underscore_not_in_source: "CHR ''_'' \<notin> set idSource"
  by (simp add: idSource_def)

lemma length_GenerateRawID [simp]: "length (GenerateRawID bytes) = length bytes"
  by (simp add: GenerateRawID_def)

lemma GenerateRawID_no_underscore: "CHR ''_'' \<notin> set (GenerateRawID bytes)"
  using id_char_in_source underscore_not_in_source by (auto simp: GenerateRawID_def)

lemma GenerateID_split:
  assumes "CHR ''_'' \<notin> set p"
  shows "takeWhile (\<lambda>c. c \<noteq> CHR ''_'') (GenerateID p bytes) = p"
    and "dropWhile (\<lambda>c. c \<noteq> CHR ''_'') (GenerateID p bytes) = CHR ''_'' # GenerateRawID bytes"
  using assms by (induction p) (auto simp: GenerateID_def)

text \<open>Identifiers of different kinds never coincide: the prefix can be read back.\<close>

lemma GenerateID_inj:
  assumes "CHR ''_'' \<notin> set p" and "CHR ''_'' \<notin> set q"
    and "GenerateID p bs = GenerateID q cs"
  shows "p = q \<and> GenerateRawID bs = GenerateRawID cs"
  using assms GenerateID_split by (metis list.inject)

text \<open>
  How often each index comes up over the 256 bytes: the first eight characters of the source are
  slightly more likely, since 256 is not a multiple of 62.
\<close>

definition id_preimages :: "nat \<Rightarrow> nat list" where
  "id_preimages i = filter (\<lambda>b. unat ((of_nat b :: 8 word) mod idSourceLen) = i) [0..<256]"

lemma id_index_of_nat:
  assumes "b < 256"
  shows "unat ((of_nat b :: 8 word) mod idSourceLen) = b mod 62"
  using assms by (simp add: idSourceLen_eq unat_mod unat_of_nat)

lemma id_preimages_eq: "id_preimages i = filter (\<lambda>b. b mod 62 = i) [0..<256]"
  unfolding id_preimages_def by (rule filter_cong) (auto simp: id_index_of_nat)

lemma residues_image:
  assumes "i < 62"
  shows "{b. b < 256 \<and> b mod 62 = i} = (\<lambda>q. 62 * q + i) ` {..<(if i < 8 then 5 else (4::nat))}"
proof (intro equalityI subsetI)
  fix b assume b: "b \<in> {b. b < 256 \<and> b mod 62 = i}"
  then have eq: "b = 62 * (b div 62) + i" and lt: "b < 256"
    by (auto simp: mult_div_mod_eq)
  have "b div 62 < (if i < 8 then 5 else 4)"
  proof (cases "i < 8")
    case True
    with eq lt have "62 * (b div 62) < 256" by linarith
    then show ?thesis using True by simp
  next
    case False
    with eq lt have "62 * (b div 62) < 248" by linarith
    then show ?thesis using False by simp
  qed
  with eq show "b \<in> (\<lambda>q. 62 * q + i) ` {..<(if i < 8 then 5 else 4)}" by blast
next
  fix b assume "b \<in> (\<lambda>q. 62 * q + i) ` {..<(if i < 8 then 5 else (4::nat))}"
  with assms show "b \<in> {b. b < 256 \<and> b mod 62 = i}" by (auto split: if_splits)
qed

lemma id_preimages_count:
  assumes "i < 62"
  shows "length (id_preimages i) = (if i < 8 then 5 else 4)"
proof -
  have "length (id_preimages i) = card (set (id_preimages i))"
    unfolding id_preimages_eq by (rule distinct_card [symmetric]) simp
  also have "set (id_preimages i) = {b. b < 256 \<and> b mod 62 = i}"
    by (auto simp: id_preimages_eq)
  also have "card \<dots> = (if i < 8 then 5 else 4)"
    unfolding residues_image [OF assms]
    by (subst card_image) (auto simp: inj_on_def)
  finally show ?thesis .
qed

end
