(* ===== verification/Event_Store.thy ===== *)
theory Event_Store
  imports Event_Errors Random_Id
begin

text \<open>
  The event database of \<^verbatim>\<open>event/eventdb.go\<close>: the eight tables of its schema, the engine that
  runs statements against them, and \<open>txLoop\<close>, the transaction loop every operation that needs
  more than one statement goes through.

  A table is the list of its rows in insertion order; a row is the record of its columns, which are
  also the fields of the Go struct it is scanned into. A SQL statement is a function of the
  database that returns its result and the new database, or the constraint it violates; the
  statements themselves are modelled in the theories of the operations that issue them.

  What the engine does beyond the statement's meaning is an input of the model: \<open>faults\<close> is the list
  of its answers to the following calls, \<open>Some e\<close> for a call that fails with the SQLite error \<open>e\<close>
  (busy, locked, an I/O error) and has no effect, \<open>None\<close> for one that runs; a call beyond the end of
  the list runs. Clock readings and random bytes are inputs too.
\<close>

section \<open>The schema\<close>

text \<open>An instant and the offset of the zone it is displayed in: seconds since 1970 and seconds east.\<close>

type_synonym gotime = "int \<times> int"

record User =
  UserID :: string
  HashedPassword :: string
  Username :: string
  IsAdmin :: bool
  IsVerified :: bool
  RealName :: string
  Email :: string
  Company :: string
  UserDescription :: string
  UserLocation :: string

record Discussion =
  DiscussionID :: string
  Owner :: string
  Title :: string
  Description :: string
  ApprovedTitle :: string
  ApprovedDescription :: string
  IsPublic :: bool

record Interest =
  InterestUser :: string
  InterestDiscussion :: string
  InterestValue :: int

record Location =
  LocationID :: int
  LocationName :: string
  LocationURL :: string
  IsPlace :: bool
  Capacity :: int

record Day =
  DayID :: int
  DayName :: string

record Slot =
  SlotID :: string
  SlotIDX :: int
  SlotDay :: int
  SlotTime :: gotime
  IsBreak :: bool
  IsLocked :: bool

record PossibleSlot =
  PossibleDiscussion :: string
  PossibleSlotID :: string

record Scheduled =
  ScheduledDiscussion :: string
  ScheduledSlot :: string
  ScheduledLocation :: int

record database =
  event_users :: "User list"
  event_discussions :: "Discussion list"
  event_interest :: "Interest list"
  event_locations :: "Location list"
  event_days :: "Day list"
  event_slots :: "Slot list"
  event_discussions_possible_slots :: "PossibleSlot list"
  event_schedule :: "Scheduled list"

definition initDb :: database where
  "initDb = \<lparr>event_users = [], event_discussions = [], event_interest = [], event_locations = [],
     event_days = [], event_slots = [], event_discussions_possible_slots = [], event_schedule = []\<rparr>"

text \<open>The compound unique keys, and the keys other tables refer to.\<close>

definition interest_key :: "Interest \<Rightarrow> string \<times> string" where
  "interest_key r = (InterestUser r, InterestDiscussion r)"

definition slot_key :: "Slot \<Rightarrow> int \<times> int" where
  "slot_key s = (SlotDay s, SlotIDX s)"

definition possible_key :: "PossibleSlot \<Rightarrow> string \<times> string" where
  "possible_key r = (PossibleDiscussion r, PossibleSlotID r)"

definition schedule_key :: "Scheduled \<Rightarrow> string \<times> int" where
  "schedule_key r = (ScheduledSlot r, ScheduledLocation r)"

definition user_ids :: "database \<Rightarrow> string set" where
  "user_ids d = UserID ` set (event_users d)"

definition discussion_ids :: "database \<Rightarrow> string set" where
  "discussion_ids d = DiscussionID ` set (event_discussions d)"

definition location_ids :: "database \<Rightarrow> int set" where
  "location_ids d = LocationID ` set (event_locations d)"

definition day_ids :: "database \<Rightarrow> int set" where
  "day_ids d = DayID ` set (event_days d)"

definition slot_ids :: "database \<Rightarrow> string set" where
  "slot_ids d = SlotID ` set (event_slots d)"

text \<open>The integrity constraints the schema declares, one predicate per table.\<close>

definition users_ok :: "database \<Rightarrow> bool" where
  "users_ok d \<longleftrightarrow> distinct (map UserID (event_users d)) \<and> distinct (map Username (event_users d))"

definition discussions_ok :: "database \<Rightarrow> bool" where
  "discussions_ok d \<longleftrightarrow>
     distinct (map DiscussionID (event_discussions d)) \<and> distinct (map Title (event_discussions d))
     \<and> (\<forall>x \<in> set (event_discussions d). Owner x \<in> user_ids d)"

definition interest_ok :: "database \<Rightarrow> bool" where
  "interest_ok d \<longleftrightarrow>
     distinct (map interest_key (event_interest d))
     \<and> (\<forall>r \<in> set (event_interest d). InterestUser r \<in> user_ids d)
     \<and> (\<forall>r \<in> set (event_interest d). InterestDiscussion r \<in> discussion_ids d)"

definition locations_ok :: "database \<Rightarrow> bool" where
  "locations_ok d \<longleftrightarrow> distinct (map LocationID (event_locations d))"

definition days_ok :: "database \<Rightarrow> bool" where
  "days_ok d \<longleftrightarrow> distinct (map DayID (event_days d))"

definition slots_ok :: "database \<Rightarrow> bool" where
  "slots_ok d \<longleftrightarrow>
     distinct (map SlotID (event_slots d))
     \<and> distinct (map slot_key (event_slots d))
     \<and> (\<forall>s \<in> set (event_slots d). SlotDay s \<in> day_ids d)"

definition possible_ok :: "database \<Rightarrow> bool" where
  "possible_ok d \<longleftrightarrow>
     distinct (map possible_key (event_discussions_possible_slots d))
     \<and> (\<forall>r \<in> set (event_discussions_possible_slots d). PossibleDiscussion r \<in> discussion_ids d)
     \<and> (\<forall>r \<in> set (event_discussions_possible_slots d). PossibleSlotID r \<in> slot_ids d)"

definition schedule_ok :: "database \<Rightarrow> bool" where
  "schedule_ok d \<longleftrightarrow>
     distinct (map schedule_key (event_schedule d))
     \<and> (\<forall>r \<in> set (event_schedule d). ScheduledDiscussion r \<in> discussion_ids d)
     \<and> (\<forall>r \<in> set (event_schedule d). ScheduledSlot r \<in> slot_ids d)
     \<and> (\<forall>r \<in> set (event_schedule d). ScheduledLocation r \<in> location_ids d)"

definition db_ok :: "database \<Rightarrow> bool" where
  "db_ok d \<longleftrightarrow> users_ok d \<and> discussions_ok d \<and> interest_ok d \<and> locations_ok d \<and> days_ok d
     \<and> slots_ok d \<and> possible_ok d \<and> schedule_ok d"

lemmas ids_defs = user_ids_def discussion_ids_def location_ids_def day_ids_def slot_ids_def

declare users_ok_def [ok_defs] discussions_ok_def [ok_defs] interest_ok_def [ok_defs]
  locations_ok_def [ok_defs] days_ok_def [ok_defs] slots_ok_def [ok_defs] possible_ok_def [ok_defs]
  schedule_ok_def [ok_defs]

text \<open>
  What the operations keep true of the contents beyond the schema, one predicate per table: the
  checks made when a row is created hold of every row ever after, and a discussion that is public
  shows an approved text.
\<close>

definition users_content :: "database \<Rightarrow> bool" where
  "users_content d \<longleftrightarrow>
     (\<forall>u \<in> set (event_users d). \<not> AllWhitespace (Username u) \<and> \<not> IsEmailAddress (Username u))"

definition discussions_content :: "database \<Rightarrow> bool" where
  "discussions_content d \<longleftrightarrow>
     (\<forall>x \<in> set (event_discussions d). \<not> AllWhitespace (Title x) \<and> \<not> AllWhitespace (Description x)
        \<and> (IsPublic x \<longrightarrow> ApprovedTitle x = Title x \<and> ApprovedDescription x = Description x))"

definition interest_content :: "database \<Rightarrow> bool" where
  "interest_content d \<longleftrightarrow> (\<forall>r \<in> set (event_interest d). 1 \<le> InterestValue r \<and> InterestValue r \<le> 100)"

definition locations_content :: "database \<Rightarrow> bool" where
  "locations_content d \<longleftrightarrow>
     (\<forall>l \<in> set (event_locations d). LocationName l \<noteq> [] \<and> 1 \<le> Capacity l \<and> 1 \<le> LocationID l)"

definition days_content :: "database \<Rightarrow> bool" where
  "days_content d \<longleftrightarrow> (\<forall>y \<in> set (event_days d). DayName y \<noteq> [] \<and> 1 \<le> DayID y)"

definition event_inv :: "database \<Rightarrow> bool" where
  "event_inv d \<longleftrightarrow> db_ok d \<and> users_content d \<and> discussions_content d \<and> interest_content d
     \<and> locations_content d \<and> days_content d"

declare users_content_def [ok_defs] discussions_content_def [ok_defs] interest_content_def [ok_defs]
  locations_content_def [ok_defs] days_content_def [ok_defs]

text \<open>
  Frame rules: a predicate does not see an update of a table it does not mention. They leave the
  invariant proofs with the tables a statement changes.
\<close>

lemma frame_event_users [simp]:
  "discussion_ids (d\<lparr>event_users := x\<rparr>) = discussion_ids d"
  "location_ids (d\<lparr>event_users := x\<rparr>) = location_ids d"
  "day_ids (d\<lparr>event_users := x\<rparr>) = day_ids d"
  "slot_ids (d\<lparr>event_users := x\<rparr>) = slot_ids d"
  "locations_ok (d\<lparr>event_users := x\<rparr>) = locations_ok d"
  "days_ok (d\<lparr>event_users := x\<rparr>) = days_ok d"
  "slots_ok (d\<lparr>event_users := x\<rparr>) = slots_ok d"
  "possible_ok (d\<lparr>event_users := x\<rparr>) = possible_ok d"
  "schedule_ok (d\<lparr>event_users := x\<rparr>) = schedule_ok d"
  "discussions_content (d\<lparr>event_users := x\<rparr>) = discussions_content d"
  "interest_content (d\<lparr>event_users := x\<rparr>) = interest_content d"
  "locations_content (d\<lparr>event_users := x\<rparr>) = locations_content d"
  "days_content (d\<lparr>event_users := x\<rparr>) = days_content d"
  by (simp_all add: ok_defs ids_defs)

lemma frame_event_discussions [simp]:
  "user_ids (d\<lparr>event_discussions := x\<rparr>) = user_ids d"
  "location_ids (d\<lparr>event_discussions := x\<rparr>) = location_ids d"
  "day_ids (d\<lparr>event_discussions := x\<rparr>) = day_ids d"
  "slot_ids (d\<lparr>event_discussions := x\<rparr>) = slot_ids d"
  "users_ok (d\<lparr>event_discussions := x\<rparr>) = users_ok d"
  "locations_ok (d\<lparr>event_discussions := x\<rparr>) = locations_ok d"
  "days_ok (d\<lparr>event_discussions := x\<rparr>) = days_ok d"
  "slots_ok (d\<lparr>event_discussions := x\<rparr>) = slots_ok d"
  "users_content (d\<lparr>event_discussions := x\<rparr>) = users_content d"
  "interest_content (d\<lparr>event_discussions := x\<rparr>) = interest_content d"
  "locations_content (d\<lparr>event_discussions := x\<rparr>) = locations_content d"
  "days_content (d\<lparr>event_discussions := x\<rparr>) = days_content d"
  by (simp_all add: ok_defs ids_defs)

lemma frame_event_interest [simp]:
  "user_ids (d\<lparr>event_interest := x\<rparr>) = user_ids d"
  "discussion_ids (d\<lparr>event_interest := x\<rparr>) = discussion_ids d"
  "location_ids (d\<lparr>event_interest := x\<rparr>) = location_ids d"
  "day_ids (d\<lparr>event_interest := x\<rparr>) = day_ids d"
  "slot_ids (d\<lparr>event_interest := x\<rparr>) = slot_ids d"
  "users_ok (d\<lparr>event_interest := x\<rparr>) = users_ok d"
  "discussions_ok (d\<lparr>event_interest := x\<rparr>) = discussions_ok d"
  "locations_ok (d\<lparr>event_interest := x\<rparr>) = locations_ok d"
  "days_ok (d\<lparr>event_interest := x\<rparr>) = days_ok d"
  "slots_ok (d\<lparr>event_interest := x\<rparr>) = slots_ok d"
  "possible_ok (d\<lparr>event_interest := x\<rparr>) = possible_ok d"
  "schedule_ok (d\<lparr>event_interest := x\<rparr>) = schedule_ok d"
  "users_content (d\<lparr>event_interest := x\<rparr>) = users_content d"
  "discussions_content (d\<lparr>event_interest := x\<rparr>) = discussions_content d"
  "locations_content (d\<lparr>event_interest := x\<rparr>) = locations_content d"
  "days_content (d\<lparr>event_interest := x\<rparr>) = days_content d"
  by (simp_all add: ok_defs ids_defs)

lemma frame_event_locations [simp]:
  "user_ids (d\<lparr>event_locations := x\<rparr>) = user_ids d"
  "discussion_ids (d\<lparr>event_locations := x\<rparr>) = discussion_ids d"
  "day_ids (d\<lparr>event_locations := x\<rparr>) = day_ids d"
  "slot_ids (d\<lparr>event_locations := x\<rparr>) = slot_ids d"
  "users_ok (d\<lparr>event_locations := x\<rparr>) = users_ok d"
  "discussions_ok (d\<lparr>event_locations := x\<rparr>) = discussions_ok d"
  "interest_ok (d\<lparr>event_locations := x\<rparr>) = interest_ok d"
  "days_ok (d\<lparr>event_locations := x\<rparr>) = days_ok d"
  "slots_ok (d\<lparr>event_locations := x\<rparr>) = slots_ok d"
  "possible_ok (d\<lparr>event_locations := x\<rparr>) = possible_ok d"
  "users_content (d\<lparr>event_locations := x\<rparr>) = users_content d"
  "discussions_content (d\<lparr>event_locations := x\<rparr>) = discussions_content d"
  "interest_content (d\<lparr>event_locations := x\<rparr>) = interest_content d"
  "days_content (d\<lparr>event_locations := x\<rparr>) = days_content d"
  by (simp_all add: ok_defs ids_defs)

lemma frame_event_days [simp]:
  "user_ids (d\<lparr>event_days := x\<rparr>) = user_ids d"
  "discussion_ids (d\<lparr>event_days := x\<rparr>) = discussion_ids d"
  "location_ids (d\<lparr>event_days := x\<rparr>) = location_ids d"
  "slot_ids (d\<lparr>event_days := x\<rparr>) = slot_ids d"
  "users_ok (d\<lparr>event_days := x\<rparr>) = users_ok d"
  "discussions_ok (d\<lparr>event_days := x\<rparr>) = discussions_ok d"
  "interest_ok (d\<lparr>event_days := x\<rparr>) = interest_ok d"
  "locations_ok (d\<lparr>event_days := x\<rparr>) = locations_ok d"
  "possible_ok (d\<lparr>event_days := x\<rparr>) = possible_ok d"
  "schedule_ok (d\<lparr>event_days := x\<rparr>) = schedule_ok d"
  "users_content (d\<lparr>event_days := x\<rparr>) = users_content d"
  "discussions_content (d\<lparr>event_days := x\<rparr>) = discussions_content d"
  "interest_content (d\<lparr>event_days := x\<rparr>) = interest_content d"
  "locations_content (d\<lparr>event_days := x\<rparr>) = locations_content d"
  by (simp_all add: ok_defs ids_defs)

lemma frame_event_slots [simp]:
  "user_ids (d\<lparr>event_slots := x\<rparr>) = user_ids d"
  "discussion_ids (d\<lparr>event_slots := x\<rparr>) = discussion_ids d"
  "location_ids (d\<lparr>event_slots := x\<rparr>) = location_ids d"
  "day_ids (d\<lparr>event_slots := x\<rparr>) = day_ids d"
  "users_ok (d\<lparr>event_slots := x\<rparr>) = users_ok d"
  "discussions_ok (d\<lparr>event_slots := x\<rparr>) = discussions_ok d"
  "interest_ok (d\<lparr>event_slots := x\<rparr>) = interest_ok d"
  "locations_ok (d\<lparr>event_slots := x\<rparr>) = locations_ok d"
  "days_ok (d\<lparr>event_slots := x\<rparr>) = days_ok d"
  "users_content (d\<lparr>event_slots := x\<rparr>) = users_content d"
  "discussions_content (d\<lparr>event_slots := x\<rparr>) = discussions_content d"
  "interest_content (d\<lparr>event_slots := x\<rparr>) = interest_content d"
  "locations_content (d\<lparr>event_slots := x\<rparr>) = locations_content d"
  "days_content (d\<lparr>event_slots := x\<rparr>) = days_content d"
  by (simp_all add: ok_defs ids_defs)

lemma frame_event_discussions_possible_slots [simp]:
  "user_ids (d\<lparr>event_discussions_possible_slots := x\<rparr>) = user_ids d"
  "discussion_ids (d\<lparr>event_discussions_possible_slots := x\<rparr>) = discussion_ids d"
  "location_ids (d\<lparr>event_discussions_possible_slots := x\<rparr>) = location_ids d"
  "day_ids (d\<lparr>event_discussions_possible_slots := x\<rparr>) = day_ids d"
  "slot_ids (d\<lparr>event_discussions_possible_slots := x\<rparr>) = slot_ids d"
  "users_ok (d\<lparr>event_discussions_possible_slots := x\<rparr>) = users_ok d"
  "discussions_ok (d\<lparr>event_discussions_possible_slots := x\<rparr>) = discussions_ok d"
  "interest_ok (d\<lparr>event_discussions_possible_slots := x\<rparr>) = interest_ok d"
  "locations_ok (d\<lparr>event_discussions_possible_slots := x\<rparr>) = locations_ok d"
  "days_ok (d\<lparr>event_discussions_possible_slots := x\<rparr>) = days_ok d"
  "slots_ok (d\<lparr>event_discussions_possible_slots := x\<rparr>) = slots_ok d"
  "schedule_ok (d\<lparr>event_discussions_possible_slots := x\<rparr>) = schedule_ok d"
  "users_content (d\<lparr>event_discussions_possible_slots := x\<rparr>) = users_content d"
  "discussions_content (d\<lparr>event_discussions_possible_slots := x\<rparr>) = discussions_content d"
  "interest_content (d\<lparr>event_discussions_possible_slots := x\<rparr>) = interest_content d"
  "locations_content (d\<lparr>event_discussions_possible_slots := x\<rparr>) = locations_content d"
  "days_content (d\<lparr>event_discussions_possible_slots := x\<rparr>) = days_content d"
  by (simp_all add: ok_defs ids_defs)

lemma frame_event_schedule [simp]:
  "user_ids (d\<lparr>event_schedule := x\<rparr>) = user_ids d"
  "discussion_ids (d\<lparr>event_schedule := x\<rparr>) = discussion_ids d"
  "location_ids (d\<lparr>event_schedule := x\<rparr>) = location_ids d"
  "day_ids (d\<lparr>event_schedule := x\<rparr>) = day_ids d"
  "slot_ids (d\<lparr>event_schedule := x\<rparr>) = slot_ids d"
  "users_ok (d\<lparr>event_schedule := x\<rparr>) = users_ok d"
  "discussions_ok (d\<lparr>event_schedule := x\<rparr>) = discussions_ok d"
  "interest_ok (d\<lparr>event_schedule := x\<rparr>) = interest_ok d"
  "locations_ok (d\<lparr>event_schedule := x\<rparr>) = locations_ok d"
  "days_ok (d\<lparr>event_schedule := x\<rparr>) = days_ok d"
  "slots_ok (d\<lparr>event_schedule := x\<rparr>) = slots_ok d"
  "possible_ok (d\<lparr>event_schedule := x\<rparr>) = possible_ok d"
  "users_content (d\<lparr>event_schedule := x\<rparr>) = users_content d"
  "discussions_content (d\<lparr>event_schedule := x\<rparr>) = discussions_content d"
  "interest_content (d\<lparr>event_schedule := x\<rparr>) = interest_content d"
  "locations_content (d\<lparr>event_schedule := x\<rparr>) = locations_content d"
  "days_content (d\<lparr>event_schedule := x\<rparr>) = days_content d"
  by (simp_all add: ok_defs ids_defs)

lemmas inv_defs = event_inv_def db_ok_def ok_defs ids_defs
lemmas inv_split = event_inv_def db_ok_def

lemma event_inv_initDb: "event_inv initDb"
  by (simp add: inv_defs initDb_def)

lemma event_inv_db_ok: "event_inv d \<Longrightarrow> db_ok d"
  by (simp add: event_inv_def)

section \<open>Statements and the engine\<close>

text \<open>
  Why a statement that ran did not succeed: a constraint violation with its extended code, no row
  for a query that needs one, or a value the driver could not convert.
\<close>

datatype stmt_error = Constraint nat | NoRows | DriverError string

type_synonym 'a stmt = "database \<Rightarrow> stmt_error + 'a \<times> database"

fun of_stmt_error :: "stmt_error \<Rightarrow> error" where
  "of_stmt_error (Constraint x) = Sqlite (SqliteError code_Constraint x)"
| "of_stmt_error NoRows = ErrNoRows"
| "of_stmt_error (DriverError s) = Errorf s"

text \<open>\<open>sqlx.Select\<close> reads every row, \<open>sqlx.Get\<close> the first.\<close>

definition sql_select :: "(database \<Rightarrow> 'a) \<Rightarrow> 'a stmt" where
  "sql_select q d = Inr (q d, d)"

definition sql_get :: "(database \<Rightarrow> 'a list) \<Rightarrow> 'a stmt" where
  "sql_get q d = (case q d of [] \<Rightarrow> Inl NoRows | x # _ \<Rightarrow> Inr (x, d))"

text \<open>\<open>sqlx.Get\<close> where the caller treats \<open>sql.ErrNoRows\<close> as an absent value.\<close>

definition sql_opt :: "'a stmt \<Rightarrow> 'a option stmt" where
  "sql_opt s d =
    (case s d of Inl NoRows \<Rightarrow> Inr (None, d) | Inl x \<Rightarrow> Inl x | Inr (v, d') \<Rightarrow> Inr (Some v, d'))"

text \<open>A statement that writes: an \<open>update\<close> without constraints to check, or a delete after its checks.\<close>

definition sql_write :: "(database \<Rightarrow> database) \<Rightarrow> unit stmt" where
  "sql_write f d = Inr ((), f d)"

lemma sql_opt_get: "sql_opt (sql_get q) d = Inr (case q d of [] \<Rightarrow> None | x # _ \<Rightarrow> Some x, d)"
  by (cases "q d") (simp_all add: sql_opt_def sql_get_def)

declare sql_select_def [sql_defs] sql_get_def [sql_defs] sql_opt_def [sql_defs] sql_write_def [sql_defs]

text \<open>
  The world a program runs in: the committed database, the snapshot of the open transaction if it
  has read or written anything yet (transactions are deferred), and the inputs.
\<close>

record world =
  committed :: database
  working :: "database option"
  faults :: "sqlite_error option list"
  clock :: "nat \<Rightarrow> int"
  ticks :: nat
  entropy :: "nat \<Rightarrow> 8 word"
  drawn :: nat

type_synonym 'a result = "error + 'a"
type_synonym 'a tx = "world \<Rightarrow> 'a result \<times> world"

definition db_view :: "world \<Rightarrow> database" where
  "db_view w = (case working w of None \<Rightarrow> committed w | Some d \<Rightarrow> d)"

definition next_fault :: "world \<Rightarrow> sqlite_error option \<times> world" where
  "next_fault w = (case faults w of [] \<Rightarrow> (None, w) | f # fs \<Rightarrow> (f, w\<lparr>faults := fs\<rparr>))"

definition pending :: "world \<Rightarrow> nat" where
  "pending w = length (filter (\<lambda>f. f \<noteq> None) (faults w))"

text \<open>A statement on the open transaction (\<open>eq.Exec\<close>, \<open>sqlx.Get(eq, ...)\<close>, \<open>sqlx.Select(eq, ...)\<close>).\<close>

definition eq_exec :: "'a stmt \<Rightarrow> 'a tx" where
  "eq_exec s w =
    (case next_fault w of
       (Some e, w1) \<Rightarrow> (Inl (Sqlite e), w1)
     | (None, w1) \<Rightarrow>
         (case s (db_view w1) of
            Inl x \<Rightarrow> (Inl (of_stmt_error x), w1)
          | Inr (v, d) \<Rightarrow> (Inr v, w1\<lparr>working := Some d\<rparr>)))"

text \<open>A statement on the database handle (\<open>event.Exec\<close>, \<open>event.Get\<close>): its own transaction.\<close>

definition db_exec :: "'a stmt \<Rightarrow> 'a tx" where
  "db_exec s w =
    (case next_fault w of
       (Some e, w1) \<Rightarrow> (Inl (Sqlite e), w1)
     | (None, w1) \<Rightarrow>
         (case s (committed w1) of
            Inl x \<Rightarrow> (Inl (of_stmt_error x), w1)
          | Inr (v, d) \<Rightarrow> (Inr v, w1\<lparr>committed := d\<rparr>)))"

definition tx_return :: "'a \<Rightarrow> 'a tx" where
  "tx_return v w = (Inr v, w)"

definition tx_fail :: "error \<Rightarrow> 'a tx" where
  "tx_fail e w = (Inl e, w)"

text \<open>Sequencing: \<open>if err != nil { return err }\<close> after every call.\<close>

definition tx_bind :: "'a tx \<Rightarrow> ('a \<Rightarrow> 'b tx) \<Rightarrow> 'b tx" where
  "tx_bind m f w = (case m w of (Inl e, w') \<Rightarrow> (Inl e, w') | (Inr v, w') \<Rightarrow> f v w')"

text \<open>The same with \<open>return errOrRetry(comment, err)\<close>.\<close>

definition tx_at :: "string \<Rightarrow> 'a tx \<Rightarrow> 'a tx" where
  "tx_at comment m w =
    (case m w of (Inl e, w') \<Rightarrow> (Inl (errOrRetry comment e), w') | (Inr v, w') \<Rightarrow> (Inr v, w'))"

text \<open>A \<open>for range\<close> loop that stops at the first error.\<close>

fun tx_each :: "('a \<Rightarrow> unit tx) \<Rightarrow> 'a list \<Rightarrow> unit tx" where
  "tx_each f [] = tx_return ()"
| "tx_each f (x # xs) = tx_bind (f x) (\<lambda>_. tx_each f xs)"

fun tx_map :: "('a \<Rightarrow> 'b tx) \<Rightarrow> 'a list \<Rightarrow> 'b list tx" where
  "tx_map f [] = tx_return []"
| "tx_map f (x # xs) = tx_bind (f x) (\<lambda>y. tx_bind (tx_map f xs) (\<lambda>ys. tx_return (y # ys)))"

definition tx_generate :: "string \<Rightarrow> nat \<Rightarrow> string tx" where
  "tx_generate prefix n w =
    (Inr (GenerateID prefix (map (\<lambda>i. entropy w (drawn w + i)) [0..<n])),
     w\<lparr>drawn := drawn w + n\<rparr>)"

definition time_Now :: "world \<Rightarrow> int \<times> world" where
  "time_Now w = (clock w (ticks w), w\<lparr>ticks := Suc (ticks w)\<rparr>)"

section \<open>Transactions\<close>

definition tx_Beginx :: "unit tx" where
  "tx_Beginx w =
    (case next_fault w of
       (Some e, w1) \<Rightarrow> (Inl (Sqlite e), w1)
     | (None, w1) \<Rightarrow> (Inr (), w1\<lparr>working := None\<rparr>))"

definition tx_Rollback :: "world \<Rightarrow> world" where
  "tx_Rollback w = w\<lparr>working := None\<rparr>"

definition tx_Commit :: "unit tx" where
  "tx_Commit w =
    (case next_fault w of
       (Some e, w1) \<Rightarrow> (Inl (Sqlite e), w1)
     | (None, w1) \<Rightarrow> (Inr (), w1\<lparr>committed := db_view w1, working := None\<rparr>))"

definition minTxRetries :: nat where
  "minTxRetries = 5"

definition maxTxTime :: int where
  "maxTxTime = 1000000000"

text \<open>
  The test at the top of the loop: after the first rounds, has the transaction taken too long? The
  clock is only read when the first operand of the conjunction holds.
\<close>

definition slow_start :: "int \<Rightarrow> nat \<Rightarrow> world \<Rightarrow> bool \<times> world" where
  "slow_start start cnt1 w =
    (if cnt1 > minTxRetries then (let (t, w') = time_Now w in (t - start > maxTxTime, w'))
     else (False, w))"

text \<open>
  The loop of \<open>txLoop\<close>, from the top of its body with \<open>cnt\<close> rounds behind it. The fuel bounds the
  number of rounds.
\<close>

fun txRounds :: "nat \<Rightarrow> int \<Rightarrow> nat \<Rightarrow> 'a tx \<Rightarrow> 'a tx" where
  "txRounds 0 start cnt txFunc w = (Inl NotReturned, w)"
| "txRounds (Suc fuel) start cnt txFunc w =
    (let cnt1 = cnt + 1;
         (slow, w1) = slow_start start cnt1 w
     in if slow
        then (let (t, w2) = time_Now w1 in (Inl (Errorf ''Internal error: Transaction taking too long''), w2))
        else
          (case tx_Beginx w1 of
             (Inl err, w2) \<Rightarrow>
               if shouldRetry err then txRounds fuel start cnt1 txFunc w2
               else (Inl (ErrorfAt ''Starting transaction'' err), w2)
           | (Inr _, w2) \<Rightarrow>
               (case txFunc w2 of
                  (Inl err, w3) \<Rightarrow>
                    if shouldRetry err then txRounds fuel start cnt1 txFunc (tx_Rollback w3)
                    else (Inl err, tx_Rollback w3)
                | (Inr v, w3) \<Rightarrow>
                    (case tx_Commit w3 of
                       (Inl err, w4) \<Rightarrow>
                         if shouldRetry err then txRounds fuel start cnt1 txFunc (tx_Rollback w4)
                         else (Inl (ErrorfAt ''Commiting transaction'' err), tx_Rollback w4)
                     | (Inr _, w4) \<Rightarrow> (Inr v, w4)))))"

text \<open>
  \<open>txLoop\<close>. An outer transaction, if there is one, is on another connection and keeps its snapshot.
  Every round that is repeated has consumed a pending fault, so one more round than there are
  pending faults is enough fuel (\<open>txLoop_returns\<close> below).
\<close>

definition txLoop :: "'a tx \<Rightarrow> 'a tx" where
  "txLoop txFunc w =
    (let (start, w1) = time_Now w;
         (r, w2) = txRounds (Suc (pending w)) start 0 txFunc (w1\<lparr>working := None\<rparr>)
     in (r, w2\<lparr>working := working w\<rparr>))"

section \<open>Statements outside a transaction\<close>

lemma of_stmt_error_no_retry [simp]: "\<not> shouldRetry (of_stmt_error x)"
  by (cases x) (simp_all add: shouldRetry_Sqlite code_Constraint_def code_Busy_def code_Locked_def)

lemma of_stmt_error_returned [simp]: "of_stmt_error x \<noteq> NotReturned"
  by (cases x) simp_all

lemma next_fault_Some_pending: "next_fault w = (Some e, w') \<Longrightarrow> pending w' < pending w"
  by (auto simp: next_fault_def pending_def split: list.splits)

lemma next_fault_None_pending: "next_fault w = (None, w') \<Longrightarrow> pending w' = pending w"
  by (auto simp: next_fault_def pending_def split: list.splits)

lemma db_view_update [simp]:
  "db_view (w\<lparr>faults := x\<rparr>) = db_view w" "db_view (w\<lparr>ticks := n\<rparr>) = db_view w"
  "db_view (w\<lparr>drawn := n\<rparr>) = db_view w" "db_view (w\<lparr>working := None\<rparr>) = committed w"
  "db_view (w\<lparr>working := Some d\<rparr>) = d"
  by (simp_all add: db_view_def split: option.split)

lemma next_fault_frame:
  assumes "next_fault w = (f, w')"
  shows "committed w' = committed w" and "working w' = working w" and "clock w' = clock w"
    and "entropy w' = entropy w" and "db_view w' = db_view w" and "drawn w' = drawn w"
    and "ticks w' = ticks w"
  using assms by (auto simp: next_fault_def split: list.splits)

lemma pending_update [simp]:
  "pending (w\<lparr>working := x\<rparr>) = pending w" "pending (w\<lparr>committed := d\<rparr>) = pending w"
  "pending (w\<lparr>ticks := n\<rparr>) = pending w" "pending (w\<lparr>drawn := n\<rparr>) = pending w"
  by (simp_all add: pending_def)

lemma db_exec_retry_pending:
  "db_exec s w = (Inl e, w') \<Longrightarrow> shouldRetry e \<Longrightarrow> pending w' < pending w"
  by (auto simp: db_exec_def dest: next_fault_Some_pending split: prod.splits option.splits sum.splits)

text \<open>
  The loop \<open>for { _, err := event.Exec(...); switch { case shouldRetry(err): continue; ... } }\<close>
  that the operations with a single statement use.
\<close>

function db_loop :: "'a stmt \<Rightarrow> 'a tx" where
  "db_loop s w =
    (case db_exec s w of
       (Inl err, w') \<Rightarrow> if shouldRetry err then db_loop s w' else (Inl err, w')
     | (Inr v, w') \<Rightarrow> (Inr v, w'))"
  by pat_completeness auto
termination
  by (relation "measure (\<lambda>(s, w). pending w)") (auto dest: db_exec_retry_pending [OF sym])

declare db_loop.simps [simp del]

section \<open>Weakest preconditions\<close>

text \<open>
  What a call on the open transaction leaves alone: the committed database and the inputs. The
  engine's pending faults can only get fewer.
\<close>

definition tx_frame :: "world \<Rightarrow> world \<Rightarrow> bool" where
  "tx_frame w w' \<longleftrightarrow> committed w' = committed w \<and> clock w' = clock w \<and> entropy w' = entropy w
     \<and> pending w' \<le> pending w"

text \<open>
  \<open>wp m Q E d\<close>: run on a world whose transaction sees \<open>d\<close>, the call \<open>m\<close> keeps the frame, and
  either succeeds in a state that satisfies \<open>Q\<close>, or fails with an error that satisfies \<open>E\<close>, or fails
  because the engine did, which costs a pending fault; only then can its error be retryable. It
  returns in every case.
\<close>

definition wp :: "'a tx \<Rightarrow> ('a \<Rightarrow> database \<Rightarrow> bool) \<Rightarrow> (error \<Rightarrow> bool) \<Rightarrow> database \<Rightarrow> bool" where
  "wp m Q E d \<longleftrightarrow>
    (\<forall>w r w'. db_view w = d \<longrightarrow> m w = (r, w') \<longrightarrow> tx_frame w w' \<and>
      (case r of
         Inr v \<Rightarrow> Q v (db_view w')
       | Inl e \<Rightarrow> e \<noteq> NotReturned \<and> (pending w' < pending w \<or> (E e \<and> \<not> shouldRetry e))))"

lemma wpI:
  assumes "\<And>w r w'. db_view w = d \<Longrightarrow> m w = (r, w') \<Longrightarrow> tx_frame w w'"
    and "\<And>w v w'. db_view w = d \<Longrightarrow> m w = (Inr v, w') \<Longrightarrow> Q v (db_view w')"
    and "\<And>w e w'. db_view w = d \<Longrightarrow> m w = (Inl e, w') \<Longrightarrow>
          e \<noteq> NotReturned \<and> (pending w' < pending w \<or> (E e \<and> \<not> shouldRetry e))"
  shows "wp m Q E d"
  using assms unfolding wp_def by (auto split: sum.splits)

lemma wpD:
  assumes "wp m Q E d" and "db_view w = d"
  shows "m w = (r, w') \<Longrightarrow> tx_frame w w'"
    and "m w = (Inr v, w') \<Longrightarrow> Q v (db_view w')"
    and "m w = (Inl e, w') \<Longrightarrow> e \<noteq> NotReturned \<and> (pending w' < pending w \<or> (E e \<and> \<not> shouldRetry e))"
  using assms unfolding wp_def by fastforce+

lemma tx_frame_refl [simp]: "tx_frame w w"
  by (simp add: tx_frame_def)

lemma tx_frame_trans: "tx_frame w w1 \<Longrightarrow> tx_frame w1 w2 \<Longrightarrow> tx_frame w w2"
  by (auto simp: tx_frame_def)

lemma wp_return [tx_wp]: "Q v d \<Longrightarrow> wp (tx_return v) Q E d"
  by (auto simp: wp_def tx_return_def)

lemma wp_fail [tx_wp]:
  "E e \<Longrightarrow> \<not> shouldRetry e \<Longrightarrow> e \<noteq> NotReturned \<Longrightarrow> wp (tx_fail e) Q E d"
  by (auto simp: wp_def tx_fail_def)

lemma wp_bind [tx_wp]:
  assumes m: "wp m (\<lambda>v. wp (f v) Q E) E d"
  shows "wp (tx_bind m f) Q E d"
  unfolding wp_def
proof (intro allI impI)
  fix w r w'
  assume d: "db_view w = d" and run: "tx_bind m f w = (r, w')"
  obtain r1 w1 where mw: "m w = (r1, w1)" by fastforce
  have f1: "tx_frame w w1" using wpD(1) [OF m d mw] .
  show "tx_frame w w' \<and> (case r of Inr v \<Rightarrow> Q v (db_view w')
      | Inl e \<Rightarrow> e \<noteq> NotReturned \<and> (pending w' < pending w \<or> (E e \<and> \<not> shouldRetry e)))"
  proof (cases r1)
    case (Inl e)
    with mw run have "r = Inl e" "w' = w1" by (auto simp: tx_bind_def)
    with f1 wpD(3) [OF m d] mw Inl show ?thesis by simp
  next
    case (Inr v)
    with mw run have fv: "f v w1 = (r, w')" by (simp add: tx_bind_def)
    have k: "wp (f v) Q E (db_view w1)" using wpD(2) [OF m d] mw Inr by simp
    have f2: "tx_frame w1 w'" using wpD(1) [OF k refl fv] .
    show ?thesis
      using tx_frame_trans [OF f1 f2] wpD(2) [OF k refl] wpD(3) [OF k refl] fv f1 f2
      by (cases r) (fastforce simp: tx_frame_def)+
  qed
qed

lemma wp_exec [tx_wp]:
  assumes "case s d of Inl x \<Rightarrow> E (of_stmt_error x) | Inr (v, d') \<Rightarrow> Q v d'"
  shows "wp (eq_exec s) Q E d"
proof (rule wpI)
  fix w r w' assume "db_view w = d" "eq_exec s w = (r, w')"
  then show "tx_frame w w'"
    by (auto simp: eq_exec_def tx_frame_def next_fault_frame
        dest: next_fault_None_pending next_fault_Some_pending
        split: prod.splits option.splits sum.splits)
next
  fix w v w' assume "db_view w = d" "eq_exec s w = (Inr v, w')"
  then show "Q v (db_view w')"
    using assms
    by (auto simp: eq_exec_def next_fault_frame
        split: prod.splits option.splits sum.splits)
next
  fix w e w' assume "db_view w = d" "eq_exec s w = (Inl e, w')"
  then show "e \<noteq> NotReturned \<and> (pending w' < pending w \<or> (E e \<and> \<not> shouldRetry e))"
    using assms
    by (auto simp: eq_exec_def next_fault_frame dest: next_fault_Some_pending
        split: prod.splits option.splits sum.splits)
qed

lemma wp_at [tx_wp]:
  assumes "wp m Q (\<lambda>e. E (ErrorfAt c e)) d"
  shows "wp (tx_at c m) Q E d"
proof (rule wpI)
  fix w r w' assume "db_view w = d" "tx_at c m w = (r, w')"
  then show "tx_frame w w'"
    using wpD(1) [OF assms] by (auto simp: tx_at_def split: prod.splits sum.splits)
next
  fix w v w' assume "db_view w = d" "tx_at c m w = (Inr v, w')"
  then show "Q v (db_view w')"
    using wpD(2) [OF assms] by (auto simp: tx_at_def split: prod.splits sum.splits)
next
  fix w e w' assume "db_view w = d" "tx_at c m w = (Inl e, w')"
  then show "e \<noteq> NotReturned \<and> (pending w' < pending w \<or> (E e \<and> \<not> shouldRetry e))"
    using wpD(3) [OF assms] by (fastforce simp: tx_at_def errOrRetry_def split: prod.splits sum.splits if_splits)
qed

lemma wp_generate [tx_wp]:
  assumes "\<And>bytes. length bytes = n \<Longrightarrow> Q (GenerateID p bytes) d"
  shows "wp (tx_generate p n) Q E d"
  using assms by (auto simp: wp_def tx_generate_def tx_frame_def)

lemma wp_if [tx_wp]:
  "(b \<Longrightarrow> wp m Q E d) \<Longrightarrow> (\<not> b \<Longrightarrow> wp m' Q E d) \<Longrightarrow> wp (if b then m else m') Q E d"
  by simp

lemma wp_case_option [tx_wp]:
  "(x = None \<Longrightarrow> wp m Q E d) \<Longrightarrow> (\<And>y. x = Some y \<Longrightarrow> wp (f y) Q E d) \<Longrightarrow>
     wp (case x of None \<Rightarrow> m | Some y \<Rightarrow> f y) Q E d"
  by (cases x) auto

lemma wp_mono:
  assumes "wp m Q E d" and "\<And>v d'. Q v d' \<Longrightarrow> Q' v d'" and "\<And>e. E e \<Longrightarrow> E' e"
  shows "wp m Q' E' d"
  using assms unfolding wp_def by (fastforce split: sum.splits)

lemma wp_conj:
  assumes "wp m Q E d" and "wp m Q' E d"
  shows "wp m (\<lambda>v d'. Q v d' \<and> Q' v d') E d"
  using assms unfolding wp_def by (fastforce split: sum.splits)

text \<open>A loop over a list: an invariant indexed by what is left to do.\<close>

lemma wp_each:
  assumes "I xs d"
    and "\<And>x ys d. I (x # ys) d \<Longrightarrow> wp (f x) (\<lambda>_ d'. I ys d') E d"
  shows "wp (tx_each f xs) (\<lambda>_ d'. I [] d') E d"
  using assms(1)
proof (induction xs arbitrary: d)
  case Nil
  then show ?case by (simp add: wp_return)
next
  case (Cons x xs)
  show ?case
    by (simp, rule wp_bind, rule wp_mono [OF assms(2) [OF Cons.prems]])
      (auto intro: Cons.IH)
qed

text \<open>A loop that only reads and collects what it reads.\<close>

lemma wp_tx_map:
  assumes "\<And>x. x \<in> set xs \<Longrightarrow> wp (f x) (\<lambda>v d'. d' = d \<and> R x v) E d"
  shows "wp (tx_map f xs) (\<lambda>vs d'. d' = d \<and> list_all2 R xs vs) E d"
  using assms
proof (induction xs)
  case Nil
  then show ?case by (auto intro!: tx_wp)
next
  case (Cons x xs)
  have x: "wp (f x) (\<lambda>v d'. d' = d \<and> R x v) E d" and ih: "wp (tx_map f xs) (\<lambda>vs d'. d' = d \<and> list_all2 R xs vs) E d"
    using Cons by simp_all
  show ?case
    unfolding tx_map.simps
    by (rule wp_bind, rule wp_mono [OF x])
      (auto intro!: wp_bind wp_mono [OF ih] intro: wp_return)
qed

lemma wp_tx_map_pure:
  assumes "\<And>x. x \<in> set xs \<Longrightarrow> wp (f x) (\<lambda>v d'. d' = d \<and> v = g x) E d"
  shows "wp (tx_map f xs) (\<lambda>vs d'. d' = d \<and> vs = map g xs) E d"
proof -
  have "vs = map g xs" if "list_all2 (\<lambda>x v. v = g x) xs vs" for vs
    using that by (induction rule: list_all2_induct) simp_all
  then show ?thesis by (intro wp_mono [OF wp_tx_map [where R = "\<lambda>x v. v = g x", OF assms]]) auto
qed

section \<open>What the loops guarantee\<close>

lemma tx_Beginx_cases:
  assumes "tx_Beginx w = (r, w')"
  obtains e where "r = Inl (Sqlite e)" "committed w' = committed w" "clock w' = clock w"
      "entropy w' = entropy w" "pending w' < pending w"
  | "r = Inr ()" "committed w' = committed w" "clock w' = clock w" "entropy w' = entropy w"
      "pending w' = pending w" "db_view w' = committed w"
  using assms
  by (fastforce simp: tx_Beginx_def next_fault_frame
      dest: next_fault_Some_pending next_fault_None_pending split: prod.splits option.splits)

lemma tx_Commit_cases:
  assumes "tx_Commit w = (r, w')"
  obtains e where "r = Inl (Sqlite e)" "committed w' = committed w" "clock w' = clock w"
      "entropy w' = entropy w" "pending w' < pending w"
  | "r = Inr ()" "committed w' = db_view w" "clock w' = clock w" "entropy w' = entropy w"
      "pending w' = pending w"
  using assms
  by (fastforce simp: tx_Commit_def next_fault_frame
      dest: next_fault_Some_pending next_fault_None_pending split: prod.splits option.splits)

text \<open>
  The outcome of a transaction: it committed a state that satisfies \<open>Q\<close>, or it failed and the
  committed database is untouched, with an error of \<open>E\<close> unless the engine had a fault.
\<close>

definition tx_outcome ::
  "('a \<Rightarrow> database \<Rightarrow> bool) \<Rightarrow> (error \<Rightarrow> bool) \<Rightarrow> world \<Rightarrow> 'a result \<Rightarrow> world \<Rightarrow> bool" where
  "tx_outcome Q E w r w' \<longleftrightarrow>
     clock w' = clock w \<and> entropy w' = entropy w \<and> pending w' \<le> pending w \<and>
     (case r of
        Inr v \<Rightarrow> Q v (committed w')
      | Inl e \<Rightarrow> committed w' = committed w \<and> e \<noteq> NotReturned
          \<and> (pending w' < pending w \<or> (E e \<and> \<not> shouldRetry e)))"

lemma tx_outcome_later:
  assumes "tx_outcome Q E w1 r w'" and "committed w1 = committed w" and "clock w1 = clock w"
    and "entropy w1 = entropy w" and "pending w1 \<le> pending w"
  shows "tx_outcome Q E w r w'"
  using assms by (auto simp: tx_outcome_def split: sum.splits)

lemma tx_outcome_retried:
  assumes "committed w1 = committed w" and "clock w1 = clock w" and "entropy w1 = entropy w"
    and "pending w1 < pending w"
    and "clock w' = clock w1 \<and> entropy w' = entropy w1 \<and> pending w' \<le> pending w1 \<and>
     (case r of
        Inr v \<Rightarrow> Q v (committed w')
      | Inl e \<Rightarrow> committed w' = committed w1 \<and> e \<noteq> NotReturned)"
  shows "tx_outcome Q E w r w'"
  using assms by (auto simp: tx_outcome_def split: sum.splits)

lemma slow_start_frame:
  assumes "slow_start start cnt1 w = (b, w')"
  shows "committed w' = committed w" "clock w' = clock w" "entropy w' = entropy w"
    "pending w' = pending w" "b \<Longrightarrow> cnt1 > minTxRetries"
  using assms by (auto simp: slow_start_def time_Now_def Let_def split: if_splits)

lemma tx_Rollback_simps [simp]:
  "committed (tx_Rollback w) = committed w" "clock (tx_Rollback w) = clock w"
  "entropy (tx_Rollback w) = entropy w" "pending (tx_Rollback w) = pending w"
  by (simp_all add: tx_Rollback_def)

lemma txRounds_rule:
  assumes "wp txFunc Q E (committed w)" and "pending w < fuel"
    and "txRounds fuel start cnt txFunc w = (r, w')"
  shows "clock w' = clock w \<and> entropy w' = entropy w \<and> pending w' \<le> pending w \<and>
     (case r of
        Inr v \<Rightarrow> Q v (committed w')
      | Inl e \<Rightarrow> committed w' = committed w \<and> e \<noteq> NotReturned
          \<and> (pending w' < pending w \<or> (E e \<and> \<not> shouldRetry e) \<or> minTxRetries \<le> cnt))"
  using assms
proof (induction fuel arbitrary: cnt w r w')
  case 0
  then show ?case by simp
next
  case (Suc fuel)
  obtain slow w1 where s: "slow_start start (cnt + 1) w = (slow, w1)" by fastforce
  note fr1 = slow_start_frame [OF s]
  have again: ?case
    if w4: "committed w4 = committed w" "clock w4 = clock w" "entropy w4 = entropy w"
        "pending w4 < pending w"
      and run: "txRounds fuel start (cnt + 1) txFunc w4 = (r, w')" for w4
    using Suc.IH [OF _ _ run] Suc.prems(1,2) w4 by (cases r) auto
  show ?case
  proof (cases slow)
    case True
    with Suc.prems(3) s fr1 show ?thesis
      by (auto simp: Let_def time_Now_def)
  next
    case False
    obtain r2 w2 where b: "tx_Beginx w1 = (r2, w2)" by fastforce
    from b show ?thesis
    proof (cases rule: tx_Beginx_cases)
      case (1 e)
      then show ?thesis
        using Suc.prems(3) s b False fr1 again [of w2] by (auto simp: Let_def split: if_splits)
    next
      case 2
      obtain r3 w3 where x: "txFunc w2 = (r3, w3)" by fastforce
      have wp2: "wp txFunc Q E (committed w)" by (fact Suc.prems(1))
      have v2: "db_view w2 = committed w" using 2 fr1 by simp
      have fr3: "tx_frame w2 w3" using wpD(1) [OF wp2 v2 x] .
      show ?thesis
      proof (cases r3)
        case (Inl e)
        with wpD(3) [OF wp2 v2] x show ?thesis
          using Suc.prems(3) s b False fr1 2 fr3 again [of "tx_Rollback w3"]
          by (auto simp: Let_def tx_frame_def split: if_splits)
      next
        case (Inr v)
        obtain r4 w4 where c: "tx_Commit w3 = (r4, w4)" by fastforce
        from c show ?thesis
        proof (cases rule: tx_Commit_cases)
          case (1 e)
          then show ?thesis
            using Suc.prems(3) s b x c Inr False fr1 2 fr3 again [of "tx_Rollback w4"]
            by (auto simp: Let_def tx_frame_def split: if_splits)
        next
          case commit: 2
          then show ?thesis
            using Suc.prems(3) s b x c Inr False fr1 2 fr3 wpD(2) [OF wp2 v2]
            by (auto simp: Let_def tx_frame_def)
        qed
      qed
    qed
  qed
qed

text \<open>The rule for \<open>txLoop\<close>: what the body guarantees on a snapshot, the loop guarantees on disk.\<close>

lemma txLoop_rule:
  assumes "wp txFunc Q E (committed w)" and run: "txLoop txFunc w = (r, w')"
  shows "tx_outcome Q E w r w'" and "working w' = working w"
proof -
  obtain t w1 where n: "time_Now w = (t, w1)" by fastforce
  then have fr: "committed w1 = committed w" "clock w1 = clock w" "entropy w1 = entropy w"
    "pending w1 = pending w" by (auto simp: time_Now_def)
  obtain r2 w2 where a: "txRounds (Suc (pending w)) t 0 txFunc (w1\<lparr>working := None\<rparr>) = (r2, w2)"
    by fastforce
  with run n have rw: "r = r2" "w' = w2\<lparr>working := working w\<rparr>" by (auto simp: txLoop_def)
  then show "working w' = working w" by simp
  have "wp txFunc Q E (committed (w1\<lparr>working := None\<rparr>))" using assms(1) fr by simp
  from txRounds_rule [OF this _ a] fr
  show "tx_outcome Q E w r w'"
    unfolding rw by (auto simp: tx_outcome_def minTxRetries_def split: sum.splits)
qed

text \<open>The loop over one statement outside a transaction.\<close>

lemma db_loop_rule:
  assumes "case s (committed w) of Inl x \<Rightarrow> E (of_stmt_error x) | Inr (v, d') \<Rightarrow> Q v d'"
    and "db_loop s w = (r, w')"
  shows "tx_outcome Q E w r w'" and "working w' = working w"
proof -
  have "tx_outcome Q E w r w' \<and> working w' = working w"
    using assms
  proof (induction s w arbitrary: r w' rule: db_loop.induct)
    case (1 s w)
    obtain f w1 where f: "next_fault w = (f, w1)" by fastforce
    note fr = next_fault_frame [OF f]
    show ?case
    proof (cases f)
      case None
      with f have p: "pending w1 = pending w" by (auto dest: next_fault_None_pending)
      show ?thesis
      proof (cases "s (committed w)")
        case (Inl x)
        with None f fr have "db_exec s w = (Inl (of_stmt_error x), w1)" by (simp add: db_exec_def)
        then have "(r, w') = (Inl (of_stmt_error x), w1)"
          using 1(3) by (simp add: db_loop.simps [of s w])
        with 1(2) Inl p fr show ?thesis by (simp add: tx_outcome_def)
      next
        case (Inr vd)
        obtain v d where vd: "vd = (v, d)" by fastforce
        with Inr None f fr have "db_exec s w = (Inr v, w1\<lparr>committed := d\<rparr>)"
          by (simp add: db_exec_def)
        then have "(r, w') = (Inr v, w1\<lparr>committed := d\<rparr>)"
          using 1(3) by (simp add: db_loop.simps [of s w])
        with 1(2) Inr vd p fr show ?thesis by (simp add: tx_outcome_def)
      qed
    next
      case (Some e)
      with f have x: "db_exec s w = (Inl (Sqlite e), w1)" and lt: "pending w1 < pending w"
        by (auto simp: db_exec_def dest: next_fault_Some_pending)
      show ?thesis
      proof (cases "shouldRetry (Sqlite e)")
        case True
        with x 1(3) have "db_loop s w1 = (r, w')" by (simp add: db_loop.simps [of s w])
        with 1(1) [OF x [symmetric] refl True] 1(2) fr
        have "tx_outcome Q E w1 r w' \<and> working w' = working w1" by simp
        with fr lt tx_outcome_later [of Q E w1 r w' w] show ?thesis by simp
      next
        case False
        with x 1(3) fr lt show ?thesis
          by (auto simp: db_loop.simps [of s w] tx_outcome_def)
      qed
    qed
  qed
  then show "tx_outcome Q E w r w'" and "working w' = working w" by auto
qed

lemma tx_outcome_mono:
  assumes "tx_outcome Q E w r w'" and "\<And>v d'. Q v d' \<Longrightarrow> Q' v d'" and "\<And>e. E e \<Longrightarrow> E' e"
  shows "tx_outcome Q' E' w r w'"
  using assms by (auto simp: tx_outcome_def split: sum.splits)

section \<open>Contracts\<close>

text \<open>
  The interface between the transaction loop and the operations built on it. The provider is the
  body of one transaction: on a snapshot that satisfies \<open>pre\<close> it establishes \<open>post\<close> between the
  snapshot and the state it leaves, or fails with an error in \<open>fails\<close>. The client facts say what
  follows for the operation \<open>txLoop body\<close> on the committed database, under every sequence of
  engine faults.
\<close>

locale tx_contract =
  fixes body :: "'a tx"
    and pre :: "database \<Rightarrow> bool"
    and post :: "database \<Rightarrow> 'a \<Rightarrow> database \<Rightarrow> bool"
    and fails :: "database \<Rightarrow> error \<Rightarrow> bool"
  assumes contract: "pre d \<Longrightarrow> wp body (post d) (fails d) d"
begin

lemma outcome:
  assumes "pre (committed w)" and "txLoop body w = (r, w')"
  shows "tx_outcome (post (committed w)) (fails (committed w)) w r w'"
  using txLoop_rule(1) [OF contract [OF assms(1)] assms(2)] .

lemma success:
  assumes "pre (committed w)" and "txLoop body w = (Inr v, w')"
  shows "post (committed w) v (committed w')"
  using outcome [OF assms] by (simp add: tx_outcome_def)

lemma failure:
  assumes "pre (committed w)" and "txLoop body w = (Inl e, w')"
  shows "committed w' = committed w" and "e \<noteq> NotReturned"
    and "pending w = 0 \<Longrightarrow> fails (committed w) e"
  using outcome [OF assms] by (auto simp: tx_outcome_def)

lemma total:
  assumes "pre (committed w)" and "pending w = 0" and "\<And>e. \<not> fails (committed w) e"
  shows "\<exists>v w'. txLoop body w = (Inr v, w') \<and> post (committed w) v (committed w')"
proof -
  obtain r w' where run: "txLoop body w = (r, w')" by fastforce
  with outcome [OF assms(1) run] assms(2,3) show ?thesis
    by (cases r) (auto simp: tx_outcome_def)
qed

lemma keeps:
  assumes "\<And>d v d'. pre d \<Longrightarrow> post d v d' \<Longrightarrow> I d'" and "\<And>d. pre d \<Longrightarrow> I d"
    and "pre (committed w)" and "txLoop body w = (r, w')"
  shows "I (committed w')"
  using outcome [OF assms(3,4)] assms(1,2,3) by (cases r) (auto simp: tx_outcome_def)

end

text \<open>The same interface for an operation that is a single statement in a retry loop.\<close>

locale stmt_contract =
  fixes s :: "'a stmt"
    and pre :: "database \<Rightarrow> bool"
    and post :: "database \<Rightarrow> 'a \<Rightarrow> database \<Rightarrow> bool"
    and fails :: "database \<Rightarrow> error \<Rightarrow> bool"
  assumes statement:
    "pre d \<Longrightarrow> case s d of Inl x \<Rightarrow> fails d (of_stmt_error x) | Inr (v, d') \<Rightarrow> post d v d'"
begin

lemma stmt_outcome:
  assumes "pre (committed w)" and "db_loop s w = (r, w')"
  shows "tx_outcome (post (committed w)) (fails (committed w)) w r w'"
  using db_loop_rule(1) [OF statement [OF assms(1)] assms(2)] .

lemma stmt_keeps:
  assumes "\<And>d v d'. pre d \<Longrightarrow> post d v d' \<Longrightarrow> I d'" and "\<And>d. pre d \<Longrightarrow> I d"
    and "pre (committed w)" and "db_loop s w = (r, w')"
  shows "I (committed w')"
  using stmt_outcome [OF assms(3,4)] assms(1,2,3) by (cases r) (auto simp: tx_outcome_def)

end

text \<open>Every statement is a transaction of its own: inside \<open>txLoop\<close> it meets the same contract.\<close>

sublocale stmt_contract \<subseteq> tx_contract "eq_exec s" pre post fails
  by unfold_locales (auto intro: wp_exec statement)

end
