(* ===== verification/Samples.thy ===== *)
theory Samples
  imports Event_Store
begin

text \<open>
  A small event on which the properties are instantiated: three users, two discussions, two
  locations and one day with two slots and a break.
\<close>

definition sample_admin :: User where
  "sample_admin = \<lparr>UserID = ''usr_admin'', HashedPassword = ''h0'', Username = ''admin'',
     IsAdmin = True, IsVerified = True, RealName = ''Administrator'', Email = '''', Company = '''',
     UserDescription = '''', UserLocation = ''Europe/Berlin''\<rparr>"

definition sample_alice :: User where
  "sample_alice = \<lparr>UserID = ''usr_a'', HashedPassword = ''h1'', Username = ''alice'',
     IsAdmin = False, IsVerified = True, RealName = ''Alice'', Email = '''', Company = '''',
     UserDescription = '''', UserLocation = ''Europe/Berlin''\<rparr>"

definition sample_bob :: User where
  "sample_bob = \<lparr>UserID = ''usr_b'', HashedPassword = ''h2'', Username = ''bob'',
     IsAdmin = False, IsVerified = False, RealName = ''Bob'', Email = '''', Company = '''',
     UserDescription = '''', UserLocation = ''Europe/Berlin''\<rparr>"

definition sample_disc1 :: Discussion where
  "sample_disc1 = \<lparr>DiscussionID = ''disc_1'', Owner = ''usr_a'', Title = ''Xen'',
     Description = ''Introduction'', ApprovedTitle = ''Xen'', ApprovedDescription = ''Introduction'',
     IsPublic = True\<rparr>"

definition sample_disc2 :: Discussion where
  "sample_disc2 = \<lparr>DiscussionID = ''disc_2'', Owner = ''usr_b'', Title = ''Schedulers'',
     Description = ''Design session'', ApprovedTitle = ''Schedulers'',
     ApprovedDescription = ''Design session'', IsPublic = True\<rparr>"

definition sample_db :: database where
  "sample_db = \<lparr>
     event_users = [sample_admin, sample_alice, sample_bob],
     event_discussions = [sample_disc1, sample_disc2],
     event_interest =
       [\<lparr>InterestUser = ''usr_a'', InterestDiscussion = ''disc_1'', InterestValue = 100\<rparr>,
        \<lparr>InterestUser = ''usr_b'', InterestDiscussion = ''disc_2'', InterestValue = 100\<rparr>,
        \<lparr>InterestUser = ''usr_b'', InterestDiscussion = ''disc_1'', InterestValue = 50\<rparr>],
     event_locations =
       [\<lparr>LocationID = 1, LocationName = ''Main'', LocationURL = '''', IsPlace = True, Capacity = 80\<rparr>,
        \<lparr>LocationID = 2, LocationName = ''Side'', LocationURL = '''', IsPlace = True, Capacity = 20\<rparr>],
     event_days = [\<lparr>DayID = 1, DayName = ''Monday''\<rparr>],
     event_slots =
       [\<lparr>SlotID = ''slot_1'', SlotIDX = 1, SlotDay = 1, SlotTime = (1594044000, 7200),
          IsBreak = False, IsLocked = False\<rparr>,
        \<lparr>SlotID = ''slot_2'', SlotIDX = 2, SlotDay = 1, SlotTime = (1594045800, 7200),
          IsBreak = False, IsLocked = False\<rparr>,
        \<lparr>SlotID = ''slot_3'', SlotIDX = 3, SlotDay = 1, SlotTime = (1594047600, 7200),
          IsBreak = True, IsLocked = False\<rparr>],
     event_discussions_possible_slots =
       [\<lparr>PossibleDiscussion = ''disc_2'', PossibleSlotID = ''slot_2''\<rparr>],
     event_schedule =
       [\<lparr>ScheduledDiscussion = ''disc_1'', ScheduledSlot = ''slot_1'', ScheduledLocation = 1\<rparr>]\<rparr>"

lemmas sample_defs =
  sample_db_def sample_admin_def sample_alice_def sample_bob_def sample_disc1_def sample_disc2_def

definition sample_world :: world where
  "sample_world = \<lparr>committed = sample_db, working = None, faults = [], clock = (\<lambda>n. int n),
     ticks = 0, entropy = (\<lambda>n. of_nat n), drawn = 0\<rparr>"

text \<open>The same with an engine that is busy twice before it answers.\<close>

definition busy_world :: world where
  "busy_world = sample_world\<lparr>faults := [Some (SqliteError 5 5), None, Some (SqliteError 6 262)]\<rparr>"

lemma sample_inv: "event_inv sample_db"
  by (simp add: inv_defs sample_defs interest_key_def slot_key_def possible_key_def schedule_key_def
      not_AllWhitespace_Cons IsSpace_def IsEmailAddress_no_at)

lemma sample_generate:
  "tx_generate ''usr'' 16 sample_world = (Inr ''usr_0123456789ABCDEF'', sample_world\<lparr>drawn := 16\<rparr>)"
proof -
  have "GenerateID ''usr'' (map (\<lambda>i. of_nat i) [0..<16]) = ''usr_0123456789ABCDEF''" by code_simp
  then show ?thesis by (simp add: tx_generate_def sample_world_def)
qed

lemma sample_world_simps [simp]:
  "committed sample_world = sample_db" "working sample_world = None" "faults sample_world = []"
  "pending sample_world = 0" "committed busy_world = sample_db"
  by (simp_all add: sample_world_def busy_world_def pending_def)

end
