(* ===== verification/Accounts.thy ===== *)
theory Accounts
  imports Event_Store Samples
begin

text \<open>
  Users and their interest in discussions: \<^verbatim>\<open>event/user.go\<close> (all but \<open>DeleteUser\<close>, which is in
  \<open>User_Removal\<close>) and the database-scannable time zones and times of \<^verbatim>\<open>event/timedb.go\<close>.

  A time-zone location is its name; the nil pointer is the empty name, which no loaded location
  has. The zone database of the host is the parameter \<open>tz_known\<close>, the default location set by
  \<open>Load\<close> the parameter \<open>defaultLocation\<close>. Password hashing is a parameter as well.
\<close>

section \<open>Time zones and times\<close>

record tz_env =
  tz_known :: "string \<Rightarrow> bool"
  defaultLocation :: string

definition LoadLocation :: "tz_env \<Rightarrow> string \<Rightarrow> error + string" where
  "LoadLocation tz name =
    (if name = '''' \<or> name = ''UTC'' then Inr ''UTC''
     else if name = ''Local'' then Inr ''Local''
     else if tz_known tz name then Inr name
     else Inl (Errorf ''unknown time zone''))"

text \<open>A value the driver hands to \<open>Scan\<close>.\<close>

datatype scan_src = SrcString string | SrcBytes string | SrcOther

definition TZLocation_Scan :: "tz_env \<Rightarrow> scan_src \<Rightarrow> error + string" where
  "TZLocation_Scan tz src =
    (case src of
       SrcString ts \<Rightarrow>
         if ts = '''' then Inr (defaultLocation tz)
         else (case LoadLocation tz ts of
                 Inl err \<Rightarrow> Inl (ErrorfAt ''LocationScan: LoadLocation'' err)
               | Inr l \<Rightarrow> Inr l)
     | _ \<Rightarrow> Inl (Errorf ''LocationScan: Cannot convert type''))"

definition TZLocation_Value :: "string \<Rightarrow> string" where
  "TZLocation_Value l = (if l = '''' then ''UTC'' else l)"

text \<open>\<open>MarshalText\<close> refuses years outside 0 to 9999; the offset is part of the text.\<close>

definition MarshalText_ok :: "gotime \<Rightarrow> bool" where
  "MarshalText_ok t = (case t of (s, off) \<Rightarrow> -62167219200 \<le> s + off \<and> s + off < 253402300800)"

definition Time_Scan :: "(string \<Rightarrow> error + gotime) \<Rightarrow> scan_src \<Rightarrow> error + gotime" where
  "Time_Scan unmarshal src =
    (case src of
       SrcString v \<Rightarrow>
         if v = '''' then Inl (Errorf ''Invalid time [empty string]'')
         else (case unmarshal v of
                 Inl err \<Rightarrow> Inl (ErrorfAt ''TimeScan: UnmarshalText'' err) | Inr t \<Rightarrow> Inr t)
     | SrcBytes v \<Rightarrow>
         (case unmarshal v of
            Inl err \<Rightarrow> Inl (ErrorfAt ''TimeScan: UnmarshalText'' err) | Inr t \<Rightarrow> Inr t)
     | SrcOther \<Rightarrow> Inl (Errorf ''TimeScan: Cannot convert type''))"

section \<open>Users\<close>

definition hashCost :: nat where "hashCost = 10"
definition passwordLength :: nat where "passwordLength = 6"
definition userIDLength :: nat where "userIDLength = 16"
definition InterestMax :: int where "InterestMax = 100"
definition AdminUsername :: string where "AdminUsername = ''admin''"

text \<open>
  The two functions of \<^verbatim>\<open>golang.org/x/crypto/bcrypt\<close> the program calls. \<open>bcrypt_ok\<close> is what the
  library documents of them: a hash it generated for a password compares equal with it.
\<close>

record bcrypt =
  GenerateFromPassword :: "string \<Rightarrow> nat \<Rightarrow> error + string"
  CompareHashAndPassword :: "string \<Rightarrow> string \<Rightarrow> bool"

definition bcrypt_ok :: "bcrypt \<Rightarrow> bool" where
  "bcrypt_ok bc \<longleftrightarrow> (\<forall>p c h. GenerateFromPassword bc p c = Inr h \<longrightarrow> CompareHashAndPassword bc h p)"

definition MayEditUser :: "User \<Rightarrow> User \<Rightarrow> bool" where
  "MayEditUser u tgt \<longleftrightarrow> IsAdmin u \<or> UserID u = UserID tgt"

definition MayEditDiscussion :: "User \<Rightarrow> Discussion \<Rightarrow> bool" where
  "MayEditDiscussion u d \<longleftrightarrow> IsAdmin u \<or> UserID u = Owner d"

text \<open>
  \<open>insert into event_users\<close>. When two constraints fail at once the one declared first is
  reported.
\<close>

definition sql_insert_user :: "User \<Rightarrow> unit stmt" where
  "sql_insert_user u d =
    (if UserID u \<in> user_ids d then Inl (Constraint code_PrimaryKey)
     else if Username u \<in> Username ` set (event_users d) then Inl (Constraint code_Unique)
     else Inr ((), d\<lparr>event_users := event_users d @ [u\<lparr>UserLocation := TZLocation_Value (UserLocation u)\<rparr>]\<rparr>))"

text \<open>The password switch of \<open>NewUser\<close>: the hash to store, or the reason there is none.\<close>

definition newUserPassword :: "bcrypt \<Rightarrow> string \<Rightarrow> string \<Rightarrow> error + string" where
  "newUserPassword bc hashed password =
    (if hashed = '''' \<and> password = '''' then Inl errNoPassword
     else if password \<noteq> '''' then
       (if length password < passwordLength then Inl errPasswordTooShort
        else (case GenerateFromPassword bc password hashCost of
                Inl _ \<Rightarrow> Inl ErrInternal | Inr h \<Rightarrow> Inr h))
     else Inr hashed)"

definition NewUser :: "bcrypt \<Rightarrow> tz_env \<Rightarrow> string \<Rightarrow> User \<Rightarrow> User tx" where
  "NewUser bc tz password user =
    (if Username user = '''' \<or> AllWhitespace (Username user) then tx_fail errNoUsername
     else if IsEmailAddress (Username user) then tx_fail errUsernameIsEmail
     else
       (let user1 = (if UserLocation user = '''' then user\<lparr>UserLocation := defaultLocation tz\<rparr> else user)
        in case newUserPassword bc (HashedPassword user1) password of
             Inl err \<Rightarrow> tx_fail err
           | Inr h \<Rightarrow>
               tx_bind (tx_generate ''usr'' userIDLength) (\<lambda>uid w.
                 let user2 = user1\<lparr>HashedPassword := h, UserID := uid\<rparr>
                 in case db_loop (sql_insert_user user2) w of
                      (Inl err, w') \<Rightarrow>
                        (Inl (if isErrorConstraintUnique err then errUsernameExists else err), w')
                    | (Inr _, w') \<Rightarrow> (Inr user2, w'))))"

definition CheckPassword :: "bcrypt \<Rightarrow> User \<Rightarrow> string \<Rightarrow> bool" where
  "CheckPassword bc u password =
    (if password = '''' then False else CompareHashAndPassword bc (HashedPassword u) password)"

section \<open>Interest\<close>

text \<open>\<open>insert into event_interest ... on conflict(userid, discussionid) do update set interest\<close>.\<close>

definition setInterestTx :: "string \<Rightarrow> string \<Rightarrow> int \<Rightarrow> unit stmt" where
  "setInterestTx uid did interest d =
    (if (uid, did) \<in> interest_key ` set (event_interest d)
     then Inr ((), d\<lparr>event_interest :=
            map (\<lambda>r. if interest_key r = (uid, did) then r\<lparr>InterestValue := interest\<rparr> else r)
                (event_interest d)\<rparr>)
     else if uid \<notin> user_ids d \<or> did \<notin> discussion_ids d then Inl (Constraint code_ForeignKey)
     else Inr ((), d\<lparr>event_interest := event_interest d @
            [\<lparr>InterestUser = uid, InterestDiscussion = did, InterestValue = interest\<rparr>]\<rparr>))"

definition sql_delete_interest :: "(Interest \<Rightarrow> bool) \<Rightarrow> unit stmt" where
  "sql_delete_interest P =
     sql_write (\<lambda>d. d\<lparr>event_interest := filter (\<lambda>r. \<not> P r) (event_interest d)\<rparr>)"

definition SetInterest :: "User \<Rightarrow> Discussion \<Rightarrow> int \<Rightarrow> unit tx" where
  "SetInterest user disc interest w =
    (if interest > InterestMax \<or> interest < 0 then (Inl errInvalidInterest, w)
     else if interest = 0 then
       db_loop (sql_delete_interest
         (\<lambda>r. InterestDiscussion r = DiscussionID disc \<and> InterestUser r = UserID user)) w
     else
       (case db_loop (setInterestTx (UserID user) (DiscussionID disc) interest) w of
          (Inl err, w') \<Rightarrow> (Inl (if isErrorForeignKey err then ErrUserOrDiscussionNotFound else err), w')
        | (Inr _, w') \<Rightarrow> (Inr (), w')))"

definition userGetInterestTx :: "string \<Rightarrow> string \<Rightarrow> int stmt" where
  "userGetInterestTx uid did =
     sql_get (\<lambda>d. map InterestValue (filter (\<lambda>r. interest_key r = (uid, did)) (event_interest d)))"

definition GetInterest_body :: "User \<Rightarrow> Discussion \<Rightarrow> int tx" where
  "GetInterest_body user disc =
     tx_bind (tx_at ''Error getting interest for user''
       (eq_exec (sql_opt (userGetInterestTx (UserID user) (DiscussionID disc)))))
       (\<lambda>r. tx_return (case r of None \<Rightarrow> 0 | Some v \<Rightarrow> v))"

definition GetInterest :: "User \<Rightarrow> Discussion \<Rightarrow> int tx" where
  "GetInterest user disc = txLoop (GetInterest_body user disc)"

section \<open>Reading and updating user records\<close>

text \<open>A row of \<open>event_users\<close> scanned into a \<open>User\<close>: the location goes through \<open>TZLocation.Scan\<close>.\<close>

definition scan_user :: "tz_env \<Rightarrow> User \<Rightarrow> stmt_error + User" where
  "scan_user tz row =
    (case TZLocation_Scan tz (SrcString (UserLocation row)) of
       Inl _ \<Rightarrow> Inl (DriverError ''sql: Scan error on column location'')
     | Inr l \<Rightarrow> Inr (row\<lparr>UserLocation := l\<rparr>))"

definition sql_get_user :: "tz_env \<Rightarrow> (database \<Rightarrow> User list) \<Rightarrow> User stmt" where
  "sql_get_user tz q d =
    (case q d of
       [] \<Rightarrow> Inl NoRows
     | row # _ \<Rightarrow> (case scan_user tz row of Inl x \<Rightarrow> Inl x | Inr u \<Rightarrow> Inr (u, d)))"

definition userGetTx :: "tz_env \<Rightarrow> string \<Rightarrow> User stmt" where
  "userGetTx tz userid = sql_get_user tz (\<lambda>d. filter (\<lambda>u. UserID u = userid) (event_users d))"

definition UserFind_body :: "tz_env \<Rightarrow> string \<Rightarrow> User option tx" where
  "UserFind_body tz userid = eq_exec (sql_opt (userGetTx tz userid))"

definition UserFind :: "tz_env \<Rightarrow> string \<Rightarrow> User option tx" where
  "UserFind tz userid = txLoop (UserFind_body tz userid)"

definition UserFindByUsername :: "tz_env \<Rightarrow> string \<Rightarrow> User option tx" where
  "UserFindByUsername tz username =
     db_loop (sql_opt (sql_get_user tz (\<lambda>d. filter (\<lambda>u. Username u = username) (event_users d))))"

text \<open>\<open>order by RANDOM() limit 1\<close>: which of the rows comes first is the parameter \<open>pick\<close>.\<close>

definition UserFindRandom :: "tz_env \<Rightarrow> nat \<Rightarrow> User option tx" where
  "UserFindRandom tz pick =
     db_loop (sql_opt (sql_get_user tz (\<lambda>d.
       let rows = filter (\<lambda>u. Username u \<noteq> AdminUsername) (event_users d)
       in if rows = [] then [] else [rows ! (pick mod length rows)])))"

fun scan_users :: "tz_env \<Rightarrow> User list \<Rightarrow> stmt_error + User list" where
  "scan_users tz [] = Inr []"
| "scan_users tz (row # rows) =
    (case scan_user tz row of
       Inl x \<Rightarrow> Inl x
     | Inr u \<Rightarrow> (case scan_users tz rows of Inl x \<Rightarrow> Inl x | Inr us \<Rightarrow> Inr (u # us)))"

definition userGetAllTx :: "tz_env \<Rightarrow> User list stmt" where
  "userGetAllTx tz d =
    (case scan_users tz (sort_key UserID (event_users d)) of Inl x \<Rightarrow> Inl x | Inr us \<Rightarrow> Inr (us, d))"

definition UserGetAll :: "tz_env \<Rightarrow> User list tx" where
  "UserGetAll tz = txLoop (tx_at ''Getting list of all users'' (eq_exec (userGetAllTx tz)))"

text \<open>The query of \<open>GetLocationTZ\<close> selects the location column only.\<close>

definition GetLocationTZ :: "tz_env \<Rightarrow> User \<Rightarrow> string tx" where
  "GetLocationTZ tz user =
     txLoop (tx_at ''Getting location for user''
       (tx_bind (eq_exec (userGetTx tz (UserID user))) (\<lambda>u. tx_return (UserLocation u))))"

text \<open>
  The row loop of \<open>UserIterate\<close>: every \<open>rows.Next\<close> is a call of the engine; the result is
  \<open>rows.Err\<close> after the loop and the number of callbacks made.
\<close>

fun iterate_rows :: "tz_env \<Rightarrow> (User \<Rightarrow> unit tx) \<Rightarrow> User list \<Rightarrow> nat \<Rightarrow> (sqlite_error option \<times> nat) tx" where
  "iterate_rows tz f [] processed w =
    (case next_fault w of (e, w1) \<Rightarrow> (Inr (e, processed), w1))"
| "iterate_rows tz f (row # rows) processed w =
    (case next_fault w of
       (Some e, w1) \<Rightarrow> (Inr (Some e, processed), w1)
     | (None, w1) \<Rightarrow>
         (case scan_user tz row of
            Inl x \<Rightarrow> (Inl (of_stmt_error x), w1)
          | Inr u \<Rightarrow>
              (case f u w1 of
                 (Inl err, w2) \<Rightarrow> (Inl err, w2)
               | (Inr _, w2) \<Rightarrow> iterate_rows tz f rows (Suc processed) w2)))"

lemma iterate_rows_ge:
  "iterate_rows tz f rows n w = (Inr (e, m), w') \<Longrightarrow> n \<le> m"
proof (induction rows arbitrary: n w)
  case (Cons row rows)
  then show ?case
    by (auto split: prod.splits option.splits sum.splits dest: Suc_leD)
qed (auto split: prod.splits)

lemma iterate_rows_none_processed:
  assumes "iterate_rows tz f rows n w = (Inr (Some e, n), w')"
  shows "pending w' < pending w"
proof (cases rows)
  case Nil
  with assms show ?thesis by (auto split: prod.splits dest: next_fault_Some_pending)
next
  case (Cons row rows')
  with assms show ?thesis
    by (auto split: prod.splits option.splits sum.splits
        dest: next_fault_Some_pending iterate_rows_ge)
qed

lemma db_exec_pending: "db_exec s w = (r, w') \<Longrightarrow> pending w' \<le> pending w"
  by (fastforce simp: db_exec_def split: prod.splits option.splits sum.splits
      dest: next_fault_Some_pending next_fault_None_pending)

function UserIterate :: "tz_env \<Rightarrow> (User \<Rightarrow> unit tx) \<Rightarrow> unit tx" where
  "UserIterate tz f w =
    (case db_exec (sql_select (\<lambda>d. sort_key UserID (event_users d))) w of
       (Inl err, w1) \<Rightarrow> if shouldRetry err then UserIterate tz f w1 else (Inl err, w1)
     | (Inr rows, w1) \<Rightarrow>
         (case iterate_rows tz f rows 0 w1 of
            (Inl err, w2) \<Rightarrow> (Inl err, w2)
          | (Inr (None, processed), w2) \<Rightarrow> (Inr (), w2)
          | (Inr (Some e, processed), w2) \<Rightarrow>
              if shouldRetry (Sqlite e) then
                if processed = 0 then UserIterate tz f w2
                else (Inl (Errorf ''INTERNAL ERROR: Got transaction retry error after callbacks''), w2)
              else (Inl (Sqlite e), w2)))"
  by pat_completeness auto
termination
  by (relation "measure (\<lambda>(tz, f, w). pending w)")
    (auto dest: db_exec_retry_pending [OF sym] iterate_rows_none_processed [OF sym]
      db_exec_pending [OF sym] less_le_trans)

declare UserIterate.simps [simp del]

definition update_user :: "string \<Rightarrow> (User \<Rightarrow> User) \<Rightarrow> database \<Rightarrow> database" where
  "update_user uid g d =
     d\<lparr>event_users := map (\<lambda>u. if UserID u = uid then g u else u) (event_users d)\<rparr>"

definition passwordHash :: "bcrypt \<Rightarrow> string \<Rightarrow> error + string" where
  "passwordHash bc newPassword = GenerateFromPassword bc newPassword hashCost"

definition setPassword :: "bcrypt \<Rightarrow> User \<Rightarrow> string \<Rightarrow> User tx" where
  "setPassword bc user newPassword w =
    (case passwordHash bc newPassword of
       Inl err \<Rightarrow> (Inl err, w)
     | Inr h \<Rightarrow>
         (case db_loop (sql_write (update_user (UserID user) (\<lambda>u. u\<lparr>HashedPassword := h\<rparr>))) w of
            (Inl err, w') \<Rightarrow> (Inl err, w')
          | (Inr _, w') \<Rightarrow> (Inr (user\<lparr>HashedPassword := h\<rparr>), w')))"

definition SetVerified :: "User \<Rightarrow> bool \<Rightarrow> unit tx" where
  "SetVerified user isVerified =
     db_loop (sql_write (update_user (UserID user) (\<lambda>u. u\<lparr>IsVerified := isVerified\<rparr>)))"

text \<open>An update that reports the number of rows it changed.\<close>

definition sql_update_user_count :: "string \<Rightarrow> (User \<Rightarrow> User) \<Rightarrow> nat stmt" where
  "sql_update_user_count uid g d =
     Inr (length (filter (\<lambda>u. UserID u = uid) (event_users d)), update_user uid g d)"

text \<open>
  The first part of \<open>UserUpdate\<close>: whether to go on, and with which password hash. \<open>Inr None\<close> is the
  early \<open>return nil\<close>; \<open>Inr (Some None)\<close> goes on without a new hash.
\<close>

definition userUpdatePassword :: "bcrypt \<Rightarrow> User \<Rightarrow> string \<Rightarrow> string \<Rightarrow> error + string option option" where
  "userUpdatePassword bc modifier currentPassword newPassword =
    (if newPassword \<noteq> '''' then
       (if currentPassword = '''' then Inr None
        else if \<not> CompareHashAndPassword bc (HashedPassword modifier) currentPassword
          then Inl errPasswordIncorrect
        else if length newPassword < passwordLength then Inl errPasswordTooShort
        else (case passwordHash bc newPassword of Inl err \<Rightarrow> Inl err | Inr h \<Rightarrow> Inr (Some (Some h))))
     else Inr (Some None))"

definition userUpdateRow :: "User \<Rightarrow> string option \<Rightarrow> User \<Rightarrow> User" where
  "userUpdateRow userNext hashed u =
     u\<lparr>HashedPassword := (case hashed of None \<Rightarrow> HashedPassword u | Some h \<Rightarrow> h),
       RealName := RealName userNext, Email := Email userNext, Company := Company userNext,
       UserDescription := UserDescription userNext,
       UserLocation := TZLocation_Value (UserLocation userNext)\<rparr>"

definition UserUpdate :: "bcrypt \<Rightarrow> User \<Rightarrow> User \<Rightarrow> string \<Rightarrow> string \<Rightarrow> User tx" where
  "UserUpdate bc userNext modifier currentPassword newPassword w =
    (case userUpdatePassword bc modifier currentPassword newPassword of
       Inl err \<Rightarrow> (Inl err, w)
     | Inr None \<Rightarrow> (Inr userNext, w)
     | Inr (Some hashed) \<Rightarrow>
         (case db_loop (sql_update_user_count (UserID userNext) (userUpdateRow userNext hashed)) w of
            (Inl err, w') \<Rightarrow> (Inl err, w')
          | (Inr rcount, w') \<Rightarrow>
              if rcount = 0 then (Inl ErrUserNotFound, w')
              else if rcount > 1 then (Inl ErrInternal, w')
              else (Inr (case hashed of None \<Rightarrow> userNext | Some h \<Rightarrow> userNext\<lparr>HashedPassword := h\<rparr>), w')))"

declare sql_insert_user_def [sql_defs] setInterestTx_def [sql_defs] sql_delete_interest_def [sql_defs]
  userGetInterestTx_def [sql_defs] sql_get_user_def [sql_defs] userGetTx_def [sql_defs]
  userGetAllTx_def [sql_defs] sql_update_user_count_def [sql_defs]

section \<open>The invariant\<close>

lemma user_ids_update_user:
  assumes "\<And>u. UserID (g u) = UserID u"
  shows "user_ids (update_user uid g d) = user_ids d"
  unfolding update_user_def user_ids_def using image_key_update [of "\<lambda>u. UserID u = uid" UserID g]
  by (simp add: assms del: set_map)

lemma update_user_absent: "uid \<notin> user_ids d \<Longrightarrow> update_user uid g d = d"
  by (auto simp: update_user_def user_ids_def intro!: database.equality map_idI)

lemma inv_update_user:
  assumes "event_inv d" and "\<And>u. UserID (g u) = UserID u" and "\<And>u. Username (g u) = Username u"
  shows "event_inv (update_user uid g d)"
proof -
  let ?us = "map (\<lambda>u. if UserID u = uid then g u else u) (event_users d)"
  have ids: "user_ids (d\<lparr>event_users := ?us\<rparr>) = user_ids d"
    using user_ids_update_user [OF assms(2)] by (simp add: update_user_def)
  have "users_ok (d\<lparr>event_users := ?us\<rparr>)" and "users_content (d\<lparr>event_users := ?us\<rparr>)"
    using assms by (auto simp: inv_split users_ok_def users_content_def)
  moreover have "discussions_ok (d\<lparr>event_users := ?us\<rparr>)" and "interest_ok (d\<lparr>event_users := ?us\<rparr>)"
    using assms(1) ids by (auto simp: inv_split discussions_ok_def interest_ok_def)
  ultimately show ?thesis
    using assms(1) by (simp add: inv_split update_user_def)
qed

lemma inv_insert_user:
  assumes "event_inv d" and "sql_insert_user u d = Inr (v, d')"
    and "\<not> AllWhitespace (Username u)" and "\<not> IsEmailAddress (Username u)"
  shows "event_inv d'"
  using assms
  by (auto simp: inv_split sql_insert_user_def users_ok_def users_content_def discussions_ok_def
      interest_ok_def user_ids_def split: if_splits)

lemma inv_setInterestTx:
  assumes "event_inv d" and "setInterestTx uid did i d = Inr (v, d')" and "1 \<le> i" and "i \<le> 100"
  shows "event_inv d'"
  using assms
  by (auto simp: inv_split setInterestTx_def interest_ok_def interest_content_def interest_key_def
      split: if_splits)

lemma inv_delete_interest:
  assumes "event_inv d"
  shows "event_inv (d\<lparr>event_interest := filter P (event_interest d)\<rparr>)"
  using assms by (auto simp: inv_split interest_ok_def interest_content_def distinct_map_filterI)

section \<open>Interest as a function\<close>

text \<open>The abstraction of \<open>event_interest\<close>: how much a user wants to attend a discussion.\<close>

definition interest_of :: "database \<Rightarrow> string \<Rightarrow> string \<Rightarrow> int" where
  "interest_of d uid did =
    (case find (\<lambda>r. interest_key r = (uid, did)) (event_interest d) of
       None \<Rightarrow> 0 | Some r \<Rightarrow> InterestValue r)"

lemma find_map_update:
  assumes "\<And>x. k (g x) = k x"
  shows "find (\<lambda>x. k x = a) (map (\<lambda>x. if k x = b then g x else x) xs)
    = map_option (\<lambda>x. if a = b then g x else x) (find (\<lambda>x. k x = a) xs)"
  using assms by (induction xs) auto

lemma find_append: "find P (xs @ ys) = (case find P xs of None \<Rightarrow> find P ys | Some x \<Rightarrow> Some x)"
  by (induction xs) auto

lemma find_filter_key:
  "find (\<lambda>x. k x = a) (filter (\<lambda>x. k x \<noteq> b) xs) = (if a = b then None else find (\<lambda>x. k x = a) xs)"
  by (induction xs) auto

lemma interest_of_setInterestTx:
  assumes "setInterestTx uid did i d = Inr (v, d')"
  shows "interest_of d' u x = (if u = uid \<and> x = did then i else interest_of d u x)"
proof (cases "(uid, did) \<in> interest_key ` set (event_interest d)")
  case True
  let ?g = "\<lambda>r. r\<lparr>InterestValue := i\<rparr>"
  have g: "interest_key (?g r) = interest_key r" for r by (simp add: interest_key_def)
  from True have "find (\<lambda>r. interest_key r = (uid, did)) (event_interest d) \<noteq> None"
    by (simp add: find_key_None)
  moreover have "d' = d\<lparr>event_interest :=
      map (\<lambda>r. if interest_key r = (uid, did) then ?g r else r) (event_interest d)\<rparr>"
    using assms True by (simp add: setInterestTx_def)
  ultimately show ?thesis
    by (auto simp: interest_of_def find_map_update [where k = interest_key and g = ?g, OF g]
        split: option.splits)
next
  case False
  then have "find (\<lambda>r. interest_key r = (uid, did)) (event_interest d) = None"
    by (simp add: find_key_None)
  with assms False show ?thesis
    by (auto simp: setInterestTx_def interest_of_def find_append interest_key_def
        split: option.splits if_splits)
qed

lemma interest_of_delete:
  "interest_of (d\<lparr>event_interest := filter (\<lambda>r. \<not> (InterestDiscussion r = did \<and> InterestUser r = uid))
       (event_interest d)\<rparr>) u x = (if u = uid \<and> x = did then 0 else interest_of d u x)"
proof -
  have "filter (\<lambda>r. \<not> (InterestDiscussion r = did \<and> InterestUser r = uid)) (event_interest d)
      = filter (\<lambda>r. interest_key r \<noteq> (uid, did)) (event_interest d)"
    by (rule filter_cong) (auto simp: interest_key_def)
  then show ?thesis by (simp add: interest_of_def find_filter_key)
qed

lemma userGetInterest_value:
  "sql_opt (userGetInterestTx uid did) d =
     Inr (map_option InterestValue (find (\<lambda>r. interest_key r = (uid, did)) (event_interest d)), d)"
proof -
  have "(case map InterestValue (filter (\<lambda>r. interest_key r = (uid, did)) xs) of [] \<Rightarrow> None | v # _ \<Rightarrow> Some v)
      = map_option InterestValue (find (\<lambda>r. interest_key r = (uid, did)) xs)" for xs
    by (induction xs) auto
  then show ?thesis by (simp only: userGetInterestTx_def sql_opt_get)
qed

text \<open>Interest changes nothing but the interest table.\<close>

definition interest_only :: "database \<Rightarrow> database \<Rightarrow> bool" where
  "interest_only d d' \<longleftrightarrow> d' = d\<lparr>event_interest := event_interest d'\<rparr>"

section \<open>Contracts\<close>

interpretation set_interest: stmt_contract "setInterestTx uid did i"
  "\<lambda>d. event_inv d \<and> 1 \<le> i \<and> i \<le> 100"
  "\<lambda>d _ d'. event_inv d' \<and> interest_only d d' \<and>
     (\<forall>u x. interest_of d' u x = (if u = uid \<and> x = did then i else interest_of d u x))"
  "\<lambda>d e. (uid \<notin> user_ids d \<or> did \<notin> discussion_ids d)
     \<and> e = Sqlite (SqliteError code_Constraint code_ForeignKey)"
  for uid did i
proof unfold_locales
  fix d assume pre: "event_inv d \<and> 1 \<le> i \<and> i \<le> 100"
  show "case setInterestTx uid did i d of
      Inl x \<Rightarrow> (uid \<notin> user_ids d \<or> did \<notin> discussion_ids d)
        \<and> of_stmt_error x = Sqlite (SqliteError code_Constraint code_ForeignKey)
    | Inr (v, d') \<Rightarrow> event_inv d' \<and> interest_only d d' \<and>
        (\<forall>u x. interest_of d' u x = (if u = uid \<and> x = did then i else interest_of d u x))"
  proof (cases "setInterestTx uid did i d")
    case (Inl x)
    then show ?thesis by (auto simp: setInterestTx_def split: if_splits)
  next
    case (Inr p)
    obtain v d' where p: "p = (v, d')" by (cases p)
    have "interest_only d d'"
      using Inr p by (auto simp: setInterestTx_def interest_only_def split: if_splits)
    with Inr p pre show ?thesis
      using inv_setInterestTx [of d uid did i v d'] by (simp add: interest_of_setInterestTx)
  qed
qed

interpretation drop_interest: stmt_contract
  "sql_delete_interest (\<lambda>r. InterestDiscussion r = did \<and> InterestUser r = uid)"
  event_inv
  "\<lambda>d _ d'. event_inv d' \<and> interest_only d d' \<and>
     (\<forall>u x. interest_of d' u x = (if u = uid \<and> x = did then 0 else interest_of d u x))"
  "\<lambda>d e. False"
  for uid did
proof unfold_locales
  fix d assume "event_inv d"
  then show "case sql_delete_interest (\<lambda>r. InterestDiscussion r = did \<and> InterestUser r = uid) d of
      Inl x \<Rightarrow> False
    | Inr (v, d') \<Rightarrow> event_inv d' \<and> interest_only d d' \<and>
        (\<forall>u x. interest_of d' u x = (if u = uid \<and> x = did then 0 else interest_of d u x))"
    unfolding sql_delete_interest_def sql_write_def
    using interest_of_delete [of did uid d]
    by (simp add: inv_delete_interest interest_only_def)
qed

interpretation get_interest: tx_contract "GetInterest_body user disc" "\<lambda>d. True"
  "\<lambda>d v d'. d' = d \<and> v = interest_of d (UserID user) (DiscussionID disc)" "\<lambda>d e. False"
  for user disc
  by unfold_locales
    (auto simp: GetInterest_body_def userGetInterest_value interest_of_def
      intro!: tx_wp split: option.splits)

section \<open>Properties\<close>

lemma tx_outcome_Inr: "tx_outcome Q E w (Inr v) w' \<Longrightarrow> Q v (committed w')"
  by (simp add: tx_outcome_def)

lemma tx_outcome_Inl:
  assumes "tx_outcome Q E w (Inl e) w'"
  shows "committed w' = committed w" and "pending w = 0 \<Longrightarrow> E e"
  using assms by (auto simp: tx_outcome_def)

text \<open>
  C21: Setting the interest of a user in a discussion either changes exactly that entry to the given
  value in the range 0 to 100 (zero removes it) and nothing else in the database, or fails and
  changes nothing; without engine faults it fails only for a value out of range or for a user or
  discussion that does not exist, with the error that says so. Every stored interest stays within
  1 to 100 and the integrity of the database is kept.
\<close>
theorem SetInterest_correct:
  assumes "event_inv (committed w)" and "SetInterest user disc i w = (r, w')"
  shows "event_inv (committed w') \<and>
    (case r of
       Inr _ \<Rightarrow> 0 \<le> i \<and> i \<le> InterestMax \<and> interest_only (committed w) (committed w') \<and>
         (\<forall>u x. interest_of (committed w') u x =
            (if u = UserID user \<and> x = DiscussionID disc then i else interest_of (committed w) u x))
     | Inl e \<Rightarrow> committed w' = committed w \<and>
         (pending w = 0 \<longrightarrow>
            (e = errInvalidInterest \<and> (i < 0 \<or> InterestMax < i)) \<or>
            (e = ErrUserOrDiscussionNotFound \<and>
               (UserID user \<notin> user_ids (committed w) \<or> DiscussionID disc \<notin> discussion_ids (committed w)))))"
proof -
  consider "i > InterestMax \<or> i < 0" | "i = 0" | "1 \<le> i" "i \<le> 100"
    unfolding InterestMax_def by linarith
  then show ?thesis
  proof cases
    case 1
    with assms show ?thesis by (auto simp: SetInterest_def)
  next
    case 2
    then have "db_loop (sql_delete_interest
        (\<lambda>r. InterestDiscussion r = DiscussionID disc \<and> InterestUser r = UserID user)) w = (r, w')"
      using assms(2) by (simp add: SetInterest_def InterestMax_def)
    from drop_interest.stmt_outcome [OF assms(1) this] 2 assms(1) show ?thesis
      by (cases r) (auto simp: tx_outcome_def InterestMax_def)
  next
    case 3
    obtain r1 w1 where run: "db_loop (setInterestTx (UserID user) (DiscussionID disc) i) w = (r1, w1)"
      by fastforce
    note out = set_interest.stmt_outcome [OF _ run]
    have "w' = w1" and "r = (case r1 of Inr v \<Rightarrow> Inr v
        | Inl e \<Rightarrow> Inl (if isErrorForeignKey e then ErrUserOrDiscussionNotFound else e))"
      using assms(2) 3 run by (auto simp: SetInterest_def InterestMax_def split: sum.splits)
    with out 3 assms(1) show ?thesis
      by (cases r1) (auto simp: tx_outcome_def InterestMax_def isErrorForeignKey_def isSqliteErrorCode_def)
  qed
qed

text \<open>
  Interest round trip. A value that was set is the value \<open>GetInterest\<close> reads back, in every run
  in which both operations return without an error.
\<close>
theorem interest_roundtrip:
  assumes "event_inv (committed w)" and "SetInterest user disc i w = (Inr (), w1)"
    and "GetInterest user disc w1 = (Inr v, w2)"
  shows "v = i \<and> committed w2 = committed w1"
proof -
  have "interest_of (committed w1) (UserID user) (DiscussionID disc) = i"
    using assms(1,2) set_interest.stmt_outcome [of w i "UserID user" "DiscussionID disc"]
      drop_interest.stmt_outcome [of w "DiscussionID disc" "UserID user"]
    by (auto simp: SetInterest_def InterestMax_def tx_outcome_def split: if_splits prod.splits sum.splits)
  with get_interest.success [OF TrueI, of user disc w1 v w2] assms(3) show ?thesis
    by (simp add: GetInterest_def)
qed

theorem SetInterest_correct_witness:
  "event_inv (committed busy_world) \<and>
   fst (SetInterest sample_alice sample_disc2 75 busy_world) = Inr () \<and>
   interest_of (committed (snd (SetInterest sample_alice sample_disc2 75 busy_world))) ''usr_a'' ''disc_2'' = 75"
proof -
  have r: "fst (SetInterest sample_alice sample_disc2 75 busy_world) = Inr ()" by code_simp
  show ?thesis
    using SetInterest_correct [of busy_world sample_alice sample_disc2 75
        "fst (SetInterest sample_alice sample_disc2 75 busy_world)"
        "snd (SetInterest sample_alice sample_disc2 75 busy_world)"] r sample_inv
    by (simp add: sample_alice_def sample_disc2_def)
qed

theorem interest_roundtrip_witness:
  "event_inv (committed sample_world) \<and>
   fst (GetInterest sample_alice sample_disc2 (snd (SetInterest sample_alice sample_disc2 75 sample_world))) = Inr 75"
proof -
  let ?w1 = "snd (SetInterest sample_alice sample_disc2 75 sample_world)"
  have s: "SetInterest sample_alice sample_disc2 75 sample_world = (Inr (), ?w1)"
    by (rule prod_eqI) (code_simp, simp)
  have "\<not> isl (fst (GetInterest sample_alice sample_disc2 ?w1))" by code_simp
  then obtain v where "GetInterest sample_alice sample_disc2 ?w1 = (Inr v, snd (GetInterest sample_alice sample_disc2 ?w1))"
    by (metis prod.collapse sum.collapse(2))
  then have "fst (GetInterest sample_alice sample_disc2 ?w1) = Inr v" and "v = 75"
    using interest_roundtrip [OF _ s] sample_inv by (metis fst_conv, simp)
  then show ?thesis using sample_inv by simp
qed

text \<open>What \<open>NewUser\<close> stores.\<close>

definition with_user :: "User \<Rightarrow> database \<Rightarrow> database" where
  "with_user u d = d\<lparr>event_users := event_users d @ [u\<lparr>UserLocation := TZLocation_Value (UserLocation u)\<rparr>]\<rparr>"

interpretation insert_user: stmt_contract "sql_insert_user u"
  "\<lambda>d. event_inv d \<and> \<not> AllWhitespace (Username u) \<and> \<not> IsEmailAddress (Username u)"
  "\<lambda>d _ d'. event_inv d' \<and> d' = with_user u d \<and> UserID u \<notin> user_ids d
     \<and> Username u \<notin> Username ` set (event_users d)"
  "\<lambda>d e. (UserID u \<in> user_ids d \<and> e = Sqlite (SqliteError code_Constraint code_PrimaryKey)) \<or>
     (Username u \<in> Username ` set (event_users d) \<and> e = Sqlite (SqliteError code_Constraint code_Unique))"
  for u
proof unfold_locales
  fix d assume pre: "event_inv d \<and> \<not> AllWhitespace (Username u) \<and> \<not> IsEmailAddress (Username u)"
  show "case sql_insert_user u d of
      Inl x \<Rightarrow> (UserID u \<in> user_ids d \<and> of_stmt_error x = Sqlite (SqliteError code_Constraint code_PrimaryKey)) \<or>
        (Username u \<in> Username ` set (event_users d)
          \<and> of_stmt_error x = Sqlite (SqliteError code_Constraint code_Unique))
    | Inr (v, d') \<Rightarrow> event_inv d' \<and> d' = with_user u d \<and> UserID u \<notin> user_ids d
        \<and> Username u \<notin> Username ` set (event_users d)"
  proof (cases "sql_insert_user u d")
    case (Inl x)
    then show ?thesis by (auto simp: sql_insert_user_def split: if_splits)
  next
    case (Inr p)
    obtain v d' where p: "p = (v, d')" by (cases p)
    with Inr pre inv_insert_user [of d u v d'] show ?thesis
      by (simp add: sql_insert_user_def with_user_def split: if_splits)
  qed
qed

text \<open>
  C19: Account creation. \<open>NewUser\<close> either appends one row with the requested username, a fresh
  identifier and the hash of the given password, and changes nothing else, or it fails and the
  database is as before. Without engine faults the error names the check that failed: an empty
  or blank username, a username that is an email address, a missing or short password, a hashing
  failure, a username already taken, or a collision of identifiers.
\<close>
theorem NewUser_correct:
  assumes inv: "event_inv (committed w)" and run: "NewUser bc tz password user w = (r, w')"
  shows "event_inv (committed w') \<and>
    (case r of
       Inr u \<Rightarrow> committed w' = with_user u (committed w) \<and> Username u = Username user
         \<and> Username user \<notin> Username ` set (event_users (committed w))
         \<and> UserID u \<notin> user_ids (committed w) \<and> IsAdmin u = IsAdmin user \<and> IsVerified u = IsVerified user
         \<and> (password \<noteq> '''' \<longrightarrow> passwordLength \<le> length password
              \<and> GenerateFromPassword bc password hashCost = Inr (HashedPassword u))
     | Inl e \<Rightarrow> committed w' = committed w \<and>
         (pending w = 0 \<longrightarrow>
            (e = errNoUsername \<and> AllWhitespace (Username user)) \<or>
            (e = errUsernameIsEmail \<and> IsEmailAddress (Username user)) \<or>
            (e = errNoPassword \<and> password = '''' \<and> HashedPassword user = '''') \<or>
            (e = errPasswordTooShort \<and> password \<noteq> '''' \<and> length password < passwordLength) \<or>
            (e = ErrInternal \<and> (\<exists>x. GenerateFromPassword bc password hashCost = Inl x)) \<or>
            (e = errUsernameExists \<and> Username user \<in> Username ` set (event_users (committed w))) \<or>
            (e = Sqlite (SqliteError code_Constraint code_PrimaryKey))))"
proof (cases "Username user = '''' \<or> AllWhitespace (Username user) \<or> IsEmailAddress (Username user)")
  case True
  with inv run show ?thesis by (auto simp: NewUser_def tx_fail_def split: if_splits)
next
  case False
  define user1 where "user1 = (if UserLocation user = '''' then user\<lparr>UserLocation := defaultLocation tz\<rparr> else user)"
  have u1: "Username user1 = Username user" "HashedPassword user1 = HashedPassword user"
    "IsAdmin user1 = IsAdmin user" "IsVerified user1 = IsVerified user"
    by (simp_all add: user1_def)
  show ?thesis
  proof (cases "newUserPassword bc (HashedPassword user1) password")
    case (Inl e)
    with False inv run u1 show ?thesis
      by (auto simp: NewUser_def tx_fail_def newUserPassword_def user1_def [symmetric] Let_def
          split: if_splits sum.splits)
  next
    case (Inr h)
    obtain uid w1 where g: "tx_generate ''usr'' userIDLength w = (Inr uid, w1)"
      and w1: "committed w1 = committed w" "pending w1 = pending w"
      by (simp add: tx_generate_def)
    define u where "u = user1\<lparr>HashedPassword := h, UserID := uid\<rparr>"
    obtain r2 w2 where i: "db_loop (sql_insert_user u) w1 = (r2, w2)" by fastforce
    have r: "w' = w2" "r = (case r2 of Inr _ \<Rightarrow> Inr u
        | Inl e \<Rightarrow> Inl (if isErrorConstraintUnique e then errUsernameExists else e))"
      using run False Inr g i
      by (auto simp: NewUser_def user1_def [symmetric] Let_def tx_bind_def u_def split: sum.splits)
    have "password \<noteq> '''' \<longrightarrow> passwordLength \<le> length password
        \<and> GenerateFromPassword bc password hashCost = Inr h"
      using Inr by (auto simp: newUserPassword_def split: if_splits sum.splits)
    then have pw: "password \<noteq> '''' \<longrightarrow> passwordLength \<le> length password
        \<and> GenerateFromPassword bc password hashCost = Inr (HashedPassword u)"
      by (simp add: u_def)
    have uu: "Username u = Username user" "IsAdmin u = IsAdmin user" "IsVerified u = IsVerified user"
      by (simp_all add: u_def u1)
    have pre: "event_inv (committed w1) \<and> \<not> AllWhitespace (Username u) \<and> \<not> IsEmailAddress (Username u)"
      using inv False w1 uu by simp
    note out = insert_user.stmt_outcome [OF pre i]
    show ?thesis
    proof (cases r2)
      case (Inl e)
      note o = tx_outcome_Inl [OF out [unfolded Inl]]
      from o(1) have "committed w' = committed w" using r w1 by simp
      moreover from o(2) have "pending w = 0 \<Longrightarrow>
          r = Inl (Sqlite (SqliteError code_Constraint code_PrimaryKey)) \<or>
          (r = Inl errUsernameExists \<and> Username user \<in> Username ` set (event_users (committed w)))"
        using r w1 uu Inl
        by (auto simp: isErrorConstraintUnique_def isSqliteErrorCode_def code_PrimaryKey_def code_Unique_def)
      ultimately show ?thesis using inv r Inl by auto
    next
      case (Inr v)
      with tx_outcome_Inr [OF out [unfolded Inr]] r w1 uu pw show ?thesis by auto
    qed
  qed
qed

text \<open>A hashing library for the instances: the hash is the password with a mark in front.\<close>

definition sample_bcrypt :: bcrypt where
  "sample_bcrypt = \<lparr>GenerateFromPassword =
       (\<lambda>p c. if 72 < length p then Inl (BcryptError ''too long'') else Inr (CHR ''$'' # p)),
     CompareHashAndPassword = (\<lambda>h p. h = CHR ''$'' # p)\<rparr>"

definition sample_tz :: tz_env where
  "sample_tz = \<lparr>tz_known = (\<lambda>n. n \<in> {''Europe/Berlin'', ''Asia/Tokyo''}), defaultLocation = ''Europe/Berlin''\<rparr>"

definition sample_new :: User where
  "sample_new = sample_bob\<lparr>UserID := '''', HashedPassword := '''', Username := ''carol'', UserLocation := ''''\<rparr>"

lemma sample_bcrypt_ok: "bcrypt_ok sample_bcrypt"
  by (auto simp: bcrypt_ok_def sample_bcrypt_def split: if_splits)

theorem NewUser_correct_witness:
  "event_inv (committed sample_world) \<and>
   (\<exists>u. fst (NewUser sample_bcrypt sample_tz ''secret'' sample_new sample_world) = Inr u
      \<and> committed (snd (NewUser sample_bcrypt sample_tz ''secret'' sample_new sample_world)) = with_user u sample_db)"
proof -
  let ?x = "NewUser sample_bcrypt sample_tz ''secret'' sample_new sample_world"
  have "\<not> isl (fst ?x)"
    by (simp add: NewUser_def sample_new_def sample_bob_def not_AllWhitespace_Cons IsSpace_def
        IsEmailAddress_no_at newUserPassword_def passwordLength_def sample_bcrypt_def
        tx_bind_def userIDLength_def sample_generate db_loop.simps db_exec_def next_fault_def
        sql_insert_user_def sample_defs user_ids_def Let_def)
  then obtain u where u: "fst ?x = Inr u" by (metis sum.collapse(2))
  have "event_inv (committed sample_world)" using sample_inv by simp
  note NewUser_correct [OF this surjective_pairing, of sample_bcrypt sample_tz "''secret''" sample_new]
  then show ?thesis unfolding u using u sample_inv by (simp only: sum.case sample_world_simps) blast
qed

text \<open>Finding the user of a name.\<close>

lemma UserFindByUsername_result:
  assumes "UserFindByUsername tz name w = (Inr x, w')"
  shows "committed w' = committed w"
    and "x = None \<Longrightarrow> name \<notin> Username ` set (event_users (committed w))"
    and "x = Some u \<Longrightarrow> \<exists>row \<in> set (event_users (committed w)). Username row = name
           \<and> u = row\<lparr>UserLocation := UserLocation u\<rparr>"
proof -
  let ?s = "sql_opt (sql_get_user tz (\<lambda>d. filter (\<lambda>u. Username u = name) (event_users d)))"
  let ?Q = "\<lambda>v d'. d' = committed w \<and>
      (v = None \<longrightarrow> name \<notin> Username ` set (event_users (committed w))) \<and>
      (\<forall>u. v = Some u \<longrightarrow> (\<exists>row \<in> set (event_users (committed w)). Username row = name
           \<and> u = row\<lparr>UserLocation := UserLocation u\<rparr>))"
  have "case ?s (committed w) of Inl x \<Rightarrow> True | Inr (v, d') \<Rightarrow> ?Q v d'"
  proof (cases "filter (\<lambda>u. Username u = name) (event_users (committed w))")
    case Nil
    then show ?thesis by (auto simp: sql_opt_def sql_get_user_def filter_empty_conv)
  next
    case (Cons row rows)
    then have "row \<in> set (event_users (committed w)) \<and> Username row = name"
      using filter_eq_ConsD [OF Cons] by auto
    with Cons show ?thesis
      by (auto simp: sql_opt_def sql_get_user_def scan_user_def split: sum.splits stmt_error.splits)
  qed
  then have "?Q x (committed w')"
    using db_loop_rule(1) [where s = ?s and E = "\<lambda>_. True" and Q = ?Q and r = "Inr x", of w w'] assms
    by (simp add: UserFindByUsername_def tx_outcome_def)
  then show "committed w' = committed w" and "x = None \<Longrightarrow> name \<notin> Username ` set (event_users (committed w))"
    and "x = Some u \<Longrightarrow> \<exists>row \<in> set (event_users (committed w)). Username row = name
           \<and> u = row\<lparr>UserLocation := UserLocation u\<rparr>"
    by auto
qed

lemma NewUser_success:
  assumes "NewUser bc tz password user w = (Inr u, w')"
  shows "\<exists>w0. db_loop (sql_insert_user u) w0 = (Inr (), w') \<and> committed w0 = committed w"
    and "Username u = Username user"
    and "newUserPassword bc (HashedPassword user) password = Inr (HashedPassword u)"
    and "\<not> AllWhitespace (Username user)" and "\<not> IsEmailAddress (Username user)"
  using assms
  by (auto simp: NewUser_def tx_fail_def Let_def tx_bind_def tx_generate_def split: if_splits sum.splits prod.splits)

text \<open>
  C20: Registration round trip. After \<open>NewUser\<close> succeeded with a password, looking the username up
  finds an account with the new identifier, and its password check accepts that password,
  whatever hashing library is used, provided it accepts the hashes it generates.
\<close>
theorem new_user_can_log_in:
  assumes inv: "event_inv (committed w)" and bc: "bcrypt_ok bc" and pw: "password \<noteq> ''''"
    and new: "NewUser bc tz password user w = (Inr u, w1)"
    and found: "UserFindByUsername tz (Username user) w1 = (Inr x, w2)"
  shows "\<exists>u'. x = Some u' \<and> UserID u' = UserID u \<and> CheckPassword bc u' password"
proof -
  note ns = NewUser_success [OF new]
  obtain w0 where ins: "db_loop (sql_insert_user u) w0 = (Inr (), w1)" and w0: "committed w0 = committed w"
    using ns(1) by blast
  have pre: "event_inv (committed w0) \<and> \<not> AllWhitespace (Username u) \<and> \<not> IsEmailAddress (Username u)"
    using inv w0 ns by simp
  have post: "committed w1 = with_user u (committed w)" "Username u \<notin> Username ` set (event_users (committed w))"
    using tx_outcome_Inr [OF insert_user.stmt_outcome [OF pre ins]] w0 by auto
  have hash: "GenerateFromPassword bc password hashCost = Inr (HashedPassword u)"
    using ns(3) pw by (auto simp: newUserPassword_def split: if_splits sum.splits)
  have "Username user \<in> Username ` set (event_users (committed w1))"
    using post ns(2) by (simp add: with_user_def)
  then obtain u' where x: "x = Some u'"
    using UserFindByUsername_result(2) [OF found] by (cases x) auto
  from UserFindByUsername_result(3) [OF found x] obtain row
    where row: "row \<in> set (event_users (committed w1))" "Username row = Username user"
      "u' = row\<lparr>UserLocation := UserLocation u'\<rparr>" by blast
  then have "row \<notin> set (event_users (committed w))"
    using post(2) ns(2) by (metis image_eqI)
  with row(1) have "row = u\<lparr>UserLocation := TZLocation_Value (UserLocation u)\<rparr>"
    by (simp add: post(1) with_user_def)
  with row(3) have "UserID u' = UserID u" and "HashedPassword u' = HashedPassword u"
    by (metis User.select_convs User.surjective User.update_convs(10))+
  with x hash bc pw show ?thesis
    by (auto simp: CheckPassword_def bcrypt_ok_def)
qed

lemma sample_NewUser:
  "\<exists>u. NewUser sample_bcrypt sample_tz ''secret'' sample_new sample_world
     = (Inr u, sample_world\<lparr>drawn := 16, committed := with_user u sample_db\<rparr>)
     \<and> Username u = ''carol'' \<and> UserID u = ''usr_0123456789ABCDEF'' \<and> UserLocation u = ''Europe/Berlin''"
  by (simp add: NewUser_def sample_new_def sample_bob_def not_AllWhitespace_Cons IsSpace_def
      IsEmailAddress_no_at newUserPassword_def passwordLength_def sample_bcrypt_def
      tx_bind_def userIDLength_def sample_generate db_loop.simps db_exec_def next_fault_def
      sql_insert_user_def sample_defs user_ids_def Let_def with_user_def sample_tz_def)

theorem new_user_can_log_in_witness:
  "event_inv (committed sample_world) \<and> bcrypt_ok sample_bcrypt \<and>
   (\<exists>u w1 u' w2. NewUser sample_bcrypt sample_tz ''secret'' sample_new sample_world = (Inr u, w1)
      \<and> UserFindByUsername sample_tz ''carol'' w1 = (Inr (Some u'), w2)
      \<and> CheckPassword sample_bcrypt u' ''secret'')"
proof -
  obtain u where u: "NewUser sample_bcrypt sample_tz ''secret'' sample_new sample_world
     = (Inr u, sample_world\<lparr>drawn := 16, committed := with_user u sample_db\<rparr>)" (is "_ = (_, ?w1)")
     "Username u = ''carol''" "UserLocation u = ''Europe/Berlin''"
    using sample_NewUser by blast
  have "\<exists>x. UserFindByUsername sample_tz ''carol'' ?w1 = (Inr x, ?w1)"
    using u(2,3)
    by (simp add: UserFindByUsername_def db_loop.simps db_exec_def next_fault_def sql_opt_def
        sql_get_user_def with_user_def sample_defs TZLocation_Value_def scan_user_def
        TZLocation_Scan_def LoadLocation_def sample_tz_def)
  then obtain x where x: "UserFindByUsername sample_tz (Username sample_new) ?w1 = (Inr x, ?w1)"
    by (auto simp: sample_new_def)
  have inv: "event_inv (committed sample_world)" by (simp add: sample_inv)
  from new_user_can_log_in [OF inv sample_bcrypt_ok _ u(1) x] obtain u'
    where "x = Some u'" "CheckPassword sample_bcrypt u' ''secret''" by auto
  with u(1) x inv sample_bcrypt_ok show ?thesis by (auto simp: sample_new_def)
qed

text \<open>Profile updates.\<close>

interpretation update_users: stmt_contract "sql_update_user_count uid (userUpdateRow next hashed)" event_inv
  "\<lambda>d n d'. event_inv d' \<and> d' = update_user uid (userUpdateRow next hashed) d
     \<and> n = (if uid \<in> user_ids d then 1 else 0)"
  "\<lambda>d e. False"
  for uid "next" hashed
proof unfold_locales
  fix d assume inv: "event_inv d"
  have "length (filter (\<lambda>u. UserID u = uid) (event_users d)) = (if uid \<in> user_ids d then 1 else 0)"
    using inv by (simp add: length_filter_key inv_split users_ok_def user_ids_def)
  moreover have "event_inv (update_user uid (userUpdateRow next hashed) d)"
    by (rule inv_update_user [OF inv]) (simp_all add: userUpdateRow_def)
  ultimately show "case sql_update_user_count uid (userUpdateRow next hashed) d of
      Inl x \<Rightarrow> False
    | Inr (n, d') \<Rightarrow> event_inv d' \<and> d' = update_user uid (userUpdateRow next hashed) d
        \<and> n = (if uid \<in> user_ids d then 1 else 0)"
    by (simp add: sql_update_user_count_def)
qed

text \<open>What a profile update by \<open>modifier\<close> may do to a row.\<close>

definition profile_change :: "bcrypt \<Rightarrow> string \<Rightarrow> User \<Rightarrow> string \<Rightarrow> string \<Rightarrow> User \<Rightarrow> User \<Rightarrow> bool" where
  "profile_change bc uid modifier cur new u u' \<longleftrightarrow>
     UserID u' = UserID u \<and> Username u' = Username u \<and> IsAdmin u' = IsAdmin u \<and> IsVerified u' = IsVerified u
     \<and> (UserID u \<noteq> uid \<longrightarrow> u' = u)
     \<and> (HashedPassword u' \<noteq> HashedPassword u \<longrightarrow>
          CompareHashAndPassword bc (HashedPassword modifier) cur \<and> passwordLength \<le> length new
          \<and> GenerateFromPassword bc new hashCost = Inr (HashedPassword u'))"

lemma profile_change_refl: "list_all2 (profile_change bc uid modifier cur new) us us"
  by (rule list_all2_refl) (simp add: profile_change_def)

lemma profile_change_update:
  assumes "userUpdatePassword bc modifier cur new = Inr (Some hashed)"
  shows "list_all2 (profile_change bc uid modifier cur new) (event_users d)
           (event_users (update_user uid (userUpdateRow next hashed) d))"
  using assms
  by (auto simp: update_user_def list_all2_map2 profile_change_def userUpdateRow_def
      userUpdatePassword_def passwordHash_def split: if_splits sum.splits
      intro!: list.rel_refl_strong)

text \<open>
  C15: A profile update cannot escalate. Whatever record and passwords are submitted, \<open>UserUpdate\<close>
  changes no table but the users, no row but the one named, never a username, an identifier, the
  admin or the verified flag, and a password hash only to the hash of a new password of the
  minimum length and only if the current password of the modifying user was given correctly; on an
  error nothing changes, and the invariant is kept.
\<close>
theorem UserUpdate_no_escalation:
  assumes "event_inv (committed w)" and "UserUpdate bc userNext modifier cur new w = (r, w')"
  shows "event_inv (committed w')
    \<and> committed w' = (committed w)\<lparr>event_users := event_users (committed w')\<rparr>
    \<and> list_all2 (profile_change bc (UserID userNext) modifier cur new)
        (event_users (committed w)) (event_users (committed w'))
    \<and> (isl r \<longrightarrow> committed w' = committed w)"
proof -
  have same: ?thesis if "committed w' = committed w"
    using that assms(1) profile_change_refl by simp
  show ?thesis
  proof (cases "userUpdatePassword bc modifier cur new")
    case (Inl e)
    with assms(2) show ?thesis by (intro same) (auto simp: UserUpdate_def)
  next
    case (Inr o1)
    show ?thesis
    proof (cases o1)
      case None
      with Inr assms(2) show ?thesis by (intro same) (auto simp: UserUpdate_def)
    next
      case (Some hashed)
      obtain r1 w1 where run:
        "db_loop (sql_update_user_count (UserID userNext) (userUpdateRow userNext hashed)) w = (r1, w1)"
        by fastforce
      note out = update_users.stmt_outcome [OF assms(1) run]
      have w1: "w' = w1" using assms(2) Inr Some run by (auto simp: UserUpdate_def split: sum.splits if_splits)
      show ?thesis
      proof (cases r1)
        case (Inl e)
        with out w1 show ?thesis by (intro same) (simp add: tx_outcome_def)
      next
        case (Inr n)
        from tx_outcome_Inr [OF out [unfolded this]] w1
        have c: "event_inv (committed w')" "n = (if UserID userNext \<in> user_ids (committed w) then 1 else 0)"
          "committed w' = update_user (UserID userNext) (userUpdateRow userNext hashed) (committed w)"
          by auto
        have "isl r \<longrightarrow> UserID userNext \<notin> user_ids (committed w)"
          using assms(2) \<open>userUpdatePassword bc modifier cur new = Inr o1\<close> Some run Inr c(2)
          by (auto simp: UserUpdate_def split: if_splits)
        then have "isl r \<longrightarrow> committed w' = committed w" using c(3) by (simp add: update_user_absent)
        with c profile_change_update [OF \<open>userUpdatePassword bc modifier cur new = Inr o1\<close> [unfolded Some]]
        show ?thesis by (simp add: update_user_def)
      qed
    qed
  qed
qed

theorem UserUpdate_no_escalation_witness:
  "event_inv (committed sample_world) \<and>
   list_all2 (profile_change sample_bcrypt ''usr_b'' sample_admin '''' '''')
     (event_users sample_db)
     (event_users (committed (snd (UserUpdate sample_bcrypt
        (sample_bob\<lparr>IsAdmin := True, Company := ''Xen''\<rparr>) sample_admin '''' '''' sample_world))))"
proof -
  have inv: "event_inv (committed sample_world)" by (simp add: sample_inv)
  with UserUpdate_no_escalation [OF inv surjective_pairing, of sample_bcrypt
      "sample_bob\<lparr>IsAdmin := True, Company := ''Xen''\<rparr>" sample_admin "''''" "''''"]
  show ?thesis by (simp add: sample_bob_def)
qed

text \<open>
  A new password without the current one: the update reports success, and neither the password nor
  any other field of the profile is stored.
\<close>

lemma UserUpdate_silently_ignored:
  "new \<noteq> '''' \<Longrightarrow> UserUpdate bc userNext modifier '''' new w = (Inr userNext, w)"
  by (simp add: UserUpdate_def userUpdatePassword_def)

end
