(* ===== verification/Discussions.thy ===== *)
theory Discussions
  imports Accounts "HOL-Library.Product_Lexorder"
begin

text \<open>
  Discussions: \<^verbatim>\<open>event/discussion.go\<close>. The pointer argument of an operation that fills in fields
  of the discussion it is given becomes a value returned on success. A statement selected by a
  \<open>where\<close> clause that is passed around as text becomes a predicate on the database and the
  discussion identifier.
\<close>

section \<open>Creating and updating\<close>

definition discussionIDLength :: nat where "discussionIDLength = 20"
definition maxDiscussionsPerUser :: nat where "maxDiscussionsPerUser = 12"

definition checkDiscussionParams :: "Discussion \<Rightarrow> error option" where
  "checkDiscussionParams disc =
    (if Title disc = '''' \<or> AllWhitespace (Title disc) then Some errNoTitle
     else if Description disc = '''' \<or> AllWhitespace (Description disc) then Some errNoDesc
     else None)"

text \<open>A column of the row of one user, \<open>select <column> from event_users where userid = ?\<close>.\<close>

definition sql_user_column :: "(User \<Rightarrow> 'a) \<Rightarrow> string \<Rightarrow> 'a stmt" where
  "sql_user_column f uid = sql_get (\<lambda>d. map f (filter (\<lambda>u. UserID u = uid) (event_users d)))"

definition sql_insert_discussion :: "Discussion \<Rightarrow> unit stmt" where
  "sql_insert_discussion disc d =
    (if DiscussionID disc \<in> discussion_ids d then Inl (Constraint code_PrimaryKey)
     else if Title disc \<in> Title ` set (event_discussions d) then Inl (Constraint code_Unique)
     else if Owner disc \<notin> user_ids d then Inl (Constraint code_ForeignKey)
     else Inr ((), d\<lparr>event_discussions := event_discussions d @ [disc]\<rparr>))"

definition count_owned :: "string \<Rightarrow> database \<Rightarrow> nat" where
  "count_owned owner d = length (filter (\<lambda>x. Owner x = owner) (event_discussions d))"

text \<open>The fields \<open>NewDiscussion\<close> fills in before the row is inserted.\<close>

definition newDiscussionRow :: "Discussion \<Rightarrow> string \<Rightarrow> bool \<Rightarrow> Discussion" where
  "newDiscussionRow disc did verified =
     disc\<lparr>DiscussionID := did, IsPublic := verified,
       ApprovedTitle := (if verified then Title disc else ''''),
       ApprovedDescription := (if verified then Description disc else '''')\<rparr>"

definition NewDiscussion_body :: "Discussion \<Rightarrow> Discussion tx" where
  "NewDiscussion_body disc =
    tx_bind (tx_at ''Getting discussion count for user''
              (eq_exec (sql_select (count_owned (Owner disc))))) (\<lambda>cnt.
    tx_bind (if cnt \<ge> maxDiscussionsPerUser
             then tx_bind (tx_at ''Getting isadmin for user'' (eq_exec (sql_user_column IsAdmin (Owner disc))))
                    (\<lambda>isAdmin. if \<not> isAdmin then tx_fail errTooManyDiscussions else tx_return ())
             else tx_return ()) (\<lambda>_.
    tx_bind (tx_generate ''disc'' discussionIDLength) (\<lambda>did.
    tx_bind (eq_exec (sql_user_column IsVerified (Owner disc))) (\<lambda>verified.
    let disc1 = newDiscussionRow disc did verified in
    tx_bind (eq_exec (sql_insert_discussion disc1)) (\<lambda>_.
    tx_bind (eq_exec (setInterestTx (Owner disc) did InterestMax)) (\<lambda>_.
    tx_return disc1))))))"

definition NewDiscussion :: "Discussion \<Rightarrow> Discussion tx" where
  "NewDiscussion disc =
    (case checkDiscussionParams disc of
       Some err \<Rightarrow> tx_fail err
     | None \<Rightarrow> txLoop (NewDiscussion_body disc))"

text \<open>The sum of all interest expressed.\<close>

definition GetMaxScore :: "Discussion \<Rightarrow> int tx" where
  "GetMaxScore disc = db_loop (sql_select (\<lambda>d.
     sum_list (map InterestValue (filter (\<lambda>r. InterestDiscussion r = DiscussionID disc) (event_interest d)))))"

text \<open>
  An update of the row of one discussion: unique titles are checked row by row, the reference to
  the owner at the end of the statement.
\<close>

definition update_discussion :: "string \<Rightarrow> (Discussion \<Rightarrow> Discussion) \<Rightarrow> database \<Rightarrow> database" where
  "update_discussion did g d =
     d\<lparr>event_discussions := map (\<lambda>x. if DiscussionID x = did then g x else x) (event_discussions d)\<rparr>"

definition sql_update_discussion :: "string \<Rightarrow> (Discussion \<Rightarrow> Discussion) \<Rightarrow> unit stmt" where
  "sql_update_discussion did g d =
    (let d' = update_discussion did g d in
     if \<not> distinct (map Title (event_discussions d')) then Inl (Constraint code_Unique)
     else if \<not> list_all (\<lambda>x. Owner x \<in> user_ids d) (event_discussions d')
       then Inl (Constraint code_ForeignKey)
     else Inr ((), d'))"

definition sql_owner_verified :: "string \<Rightarrow> (string \<times> bool) stmt" where
  "sql_owner_verified did = sql_get (\<lambda>d.
     concat (map (\<lambda>x. map (\<lambda>u. (Owner x, IsVerified u)) (filter (\<lambda>u. UserID u = Owner x) (event_users d)))
       (filter (\<lambda>x. DiscussionID x = did) (event_discussions d))))"

definition discussionUpdateRow :: "Discussion \<Rightarrow> bool \<Rightarrow> Discussion \<Rightarrow> Discussion" where
  "discussionUpdateRow disc verified x =
    (let y = x\<lparr>Owner := Owner disc, Title := Title disc, Description := Description disc, IsPublic := verified\<rparr>
     in if verified then y\<lparr>ApprovedTitle := Title disc, ApprovedDescription := Description disc\<rparr> else y)"

definition DiscussionUpdate_body :: "Discussion \<Rightarrow> Discussion tx" where
  "DiscussionUpdate_body disc =
    tx_bind (tx_at ''Getting info for owner of discussion'' (eq_exec (sql_owner_verified (DiscussionID disc))))
      (\<lambda>(curOwner, curVerified).
    tx_bind (if Owner disc \<noteq> curOwner
             then tx_bind (tx_at ''Setting interest for new owner''
                            (eq_exec (setInterestTx (Owner disc) (DiscussionID disc) InterestMax)))
                    (\<lambda>_. tx_at ''Getting IsVerified for new owner''
                            (eq_exec (sql_user_column IsVerified (Owner disc))))
             else tx_return curVerified) (\<lambda>ownerIsVerified.
    tx_bind (eq_exec (sql_update_discussion (DiscussionID disc) (discussionUpdateRow disc ownerIsVerified)))
      (\<lambda>_. tx_return (let disc1 = disc\<lparr>IsPublic := ownerIsVerified\<rparr> in
              if ownerIsVerified
              then disc1\<lparr>ApprovedTitle := Title disc, ApprovedDescription := Description disc\<rparr>
              else disc1))))"

definition DiscussionUpdate :: "Discussion \<Rightarrow> Discussion tx" where
  "DiscussionUpdate disc =
    (case checkDiscussionParams disc of
       Some err \<Rightarrow> tx_fail err
     | None \<Rightarrow> txLoop (DiscussionUpdate_body disc))"

section \<open>Moderation\<close>

definition sql_set_public :: "string \<Rightarrow> bool \<Rightarrow> nat stmt" where
  "sql_set_public did public d =
     Inr (length (filter (\<lambda>x. DiscussionID x = did) (event_discussions d)),
       update_discussion did
         (\<lambda>x. if public
              then x\<lparr>ApprovedTitle := Title x, ApprovedDescription := Description x, IsPublic := True\<rparr>
              else x\<lparr>IsPublic := False, ApprovedTitle := '''', ApprovedDescription := ''''\<rparr>) d)"

definition DiscussionSetPublic :: "string \<Rightarrow> bool \<Rightarrow> unit tx" where
  "DiscussionSetPublic did public w =
    (case db_loop (sql_set_public did public) w of
       (Inl err, w') \<Rightarrow> (Inl ErrInternal, w')
     | (Inr rcount, w') \<Rightarrow>
         if rcount = 0 then (Inl ErrUserNotFound, w')
         else if rcount > 1 then (Inl ErrInternal, w')
         else (Inr (), w'))"

section \<open>Deleting\<close>

definition sql_delete_possible :: "(PossibleSlot \<Rightarrow> bool) \<Rightarrow> unit stmt" where
  "sql_delete_possible P = sql_write (\<lambda>d. d\<lparr>event_discussions_possible_slots :=
     filter (\<lambda>r. \<not> P r) (event_discussions_possible_slots d)\<rparr>)"

definition sql_delete_schedule :: "(database \<Rightarrow> Scheduled \<Rightarrow> bool) \<Rightarrow> unit stmt" where
  "sql_delete_schedule P = sql_write (\<lambda>d. d\<lparr>event_schedule :=
     filter (\<lambda>r. \<not> P d r) (event_schedule d)\<rparr>)"

text \<open>
  Deleting discussions fails while a row of another table refers to one of them. The result is
  the number of rows deleted.
\<close>

definition sql_delete_discussions :: "(database \<Rightarrow> string \<Rightarrow> bool) \<Rightarrow> nat stmt" where
  "sql_delete_discussions P d =
    (let gone = filter (\<lambda>x. P d (DiscussionID x)) (event_discussions d);
         referred = (\<lambda>did. did \<in> DiscussionID ` set gone)
     in if list_ex (\<lambda>r. referred (InterestDiscussion r)) (event_interest d)
           \<or> list_ex (\<lambda>r. referred (PossibleDiscussion r)) (event_discussions_possible_slots d)
           \<or> list_ex (\<lambda>r. referred (ScheduledDiscussion r)) (event_schedule d)
        then Inl (Constraint code_ForeignKey)
        else Inr (length gone, d\<lparr>event_discussions :=
               filter (\<lambda>x. \<not> P d (DiscussionID x)) (event_discussions d)\<rparr>))"

definition deleteDiscussionCommon :: "(database \<Rightarrow> string \<Rightarrow> bool) \<Rightarrow> nat tx" where
  "deleteDiscussionCommon P =
    tx_bind (tx_at ''Deleting discussion from event_interest''
      (eq_exec (\<lambda>d. sql_delete_interest (\<lambda>r. P d (InterestDiscussion r)) d))) (\<lambda>_.
    tx_bind (tx_at ''Deleting discussion from event_discussions_possible_slots''
      (eq_exec (\<lambda>d. sql_delete_possible (\<lambda>r. P d (PossibleDiscussion r)) d))) (\<lambda>_.
    tx_bind (tx_at ''Deleting discussion from event_schedule''
      (eq_exec (sql_delete_schedule (\<lambda>d r. P d (ScheduledDiscussion r))))) (\<lambda>_.
    tx_at ''Deleting discussion from event_discussions'' (eq_exec (sql_delete_discussions P)))))"

definition DeleteDiscussion_body :: "string \<Rightarrow> unit tx" where
  "DeleteDiscussion_body did =
    tx_bind (deleteDiscussionCommon (\<lambda>_ x. x = did)) (\<lambda>rcount.
      if rcount = 0 then tx_fail ErrDiscussionNotFound
      else if rcount > 1 then tx_fail ErrInternal
      else tx_return ())"

definition DeleteDiscussion :: "string \<Rightarrow> unit tx" where
  "DeleteDiscussion did = txLoop (DeleteDiscussion_body did)"

section \<open>Possible slots\<close>

text \<open>A slot as forms show it; \<open>Checked\<close> is "possible" here and "locked" in the timetable form.\<close>

record DisplaySlot =
  DisplaySlotID :: string
  DisplaySlotTime :: gotime
  TimeDisplay :: string
  Checked :: bool

definition possibleSlotsDBToDisplay :: "DisplaySlot list \<Rightarrow> DisplaySlot list" where
  "possibleSlotsDBToDisplay pslots =
    (let anyTrue = fold (\<lambda>p anyTrue. anyTrue \<or> Checked p) pslots False
     in if \<not> anyTrue then map (\<lambda>p. p\<lparr>Checked := True\<rparr>) pslots else pslots)"

text \<open>The slots that are not breaks, \<open>order by dayid, slotidx\<close>.\<close>

definition work_slots :: "database \<Rightarrow> Slot list" where
  "work_slots d = sort_key slot_key (filter (\<lambda>s. \<not> IsBreak s) (event_slots d))"

text \<open>
  \<open>sqlx.NamedExec\<close> of a batch is one insert statement for all its rows. What it does with an empty
  slice is the library's business: the parameter \<open>empty_batch\<close>.
\<close>

definition sql_insert_possible :: "unit stmt \<Rightarrow> PossibleSlot list \<Rightarrow> unit stmt" where
  "sql_insert_possible empty_batch rows d =
    (if rows = [] then empty_batch d
     else if \<not> distinct (map possible_key (event_discussions_possible_slots d @ rows))
       then Inl (Constraint code_Unique)
     else if \<not> list_all (\<lambda>r. PossibleDiscussion r \<in> discussion_ids d \<and> PossibleSlotID r \<in> slot_ids d) rows
       then Inl (Constraint code_ForeignKey)
     else Inr ((), d\<lparr>event_discussions_possible_slots := event_discussions_possible_slots d @ rows\<rparr>))"

definition DiscussionSetPossibleSlots_body :: "unit stmt \<Rightarrow> string \<Rightarrow> string list \<Rightarrow> unit tx" where
  "DiscussionSetPossibleSlots_body empty_batch did pslots =
    (let checked = map (\<lambda>s. \<lparr>PossibleDiscussion = did, PossibleSlotID = s\<rparr>) pslots in
    tx_bind (tx_at ''Getting number of slots''
      (eq_exec (sql_select (\<lambda>d. length (filter (\<lambda>s. \<not> IsBreak s) (event_slots d)))))) (\<lambda>nslots.
    tx_bind (tx_at ''Dropping discussion slot restrictions''
      (eq_exec (sql_delete_possible (\<lambda>r. PossibleDiscussion r = did)))) (\<lambda>_.
    if length checked < nslots
    then tx_at ''Adding new slots'' (eq_exec (sql_insert_possible empty_batch checked))
    else tx_return ())))"

definition DiscussionSetPossibleSlots :: "unit stmt \<Rightarrow> string \<Rightarrow> string list \<Rightarrow> unit tx" where
  "DiscussionSetPossibleSlots empty_batch did pslots =
     txLoop (DiscussionSetPossibleSlots_body empty_batch did pslots)"

definition MakePossibleSlots :: "nat \<Rightarrow> bool list" where
  "MakePossibleSlots len = map (\<lambda>_. True) (replicate len False)"

text \<open>The left outer join of the slots with the restrictions of one discussion.\<close>

definition possible_join :: "string \<Rightarrow> database \<Rightarrow> DisplaySlot list" where
  "possible_join did d = concat (map (\<lambda>s.
     (let row = (\<lambda>checked. \<lparr>DisplaySlotID = SlotID s, DisplaySlotTime = SlotTime s,
                            TimeDisplay = '''', Checked = checked\<rparr>)
      in case filter (\<lambda>r. PossibleDiscussion r = did \<and> PossibleSlotID r = SlotID s)
                (event_discussions_possible_slots d) of
           [] \<Rightarrow> [row False]
         | rs \<Rightarrow> map (\<lambda>_. row True) rs)) (work_slots d))"

definition discussionGetPossibleSlotsTx :: "string \<Rightarrow> DisplaySlot list stmt" where
  "discussionGetPossibleSlotsTx did = sql_select (\<lambda>d. possibleSlotsDBToDisplay (possible_join did d))"

definition DiscussionGetPossibleSlots_body :: "string \<Rightarrow> DisplaySlot list tx" where
  "DiscussionGetPossibleSlots_body did =
     tx_at ''Getting possible slots for discussion'' (eq_exec (discussionGetPossibleSlotsTx did))"

definition DiscussionGetPossibleSlots :: "string \<Rightarrow> DisplaySlot list tx" where
  "DiscussionGetPossibleSlots did = txLoop (DiscussionGetPossibleSlots_body did)"

section \<open>Reading\<close>

record DiscussionFull =
  TheDiscussion :: Discussion
  OwnerInfo :: User
  DiscussionLocation :: Location
  DiscussionTime :: gotime
  IsFinal :: bool
  PossibleSlots :: "DisplaySlot list"

text \<open>Go's zero values of a location and of \<open>time.Time\<close> (the first of January of the year 1).\<close>

definition zero_location :: Location where
  "zero_location = \<lparr>LocationID = 0, LocationName = '''', LocationURL = '''', IsPlace = False, Capacity = 0\<rparr>"

definition zero_time :: gotime where
  "zero_time = (-62135596800, 0)"

definition Discussion_GetURL :: "Discussion \<Rightarrow> string" where
  "Discussion_GetURL disc = ''/uid/discussion/'' @ DiscussionID disc @ ''/view''"

text \<open>Where and when a discussion is scheduled, in the order of the schedule.\<close>

definition schedule_join :: "string \<Rightarrow> database \<Rightarrow> (Location \<times> gotime \<times> bool) list" where
  "schedule_join did d = concat (map (\<lambda>r.
     concat (map (\<lambda>l. map (\<lambda>s. (l, SlotTime s, IsLocked s))
         (filter (\<lambda>s. SlotID s = ScheduledSlot r) (event_slots d)))
       (filter (\<lambda>l. LocationID l = ScheduledLocation r) (event_locations d))))
     (filter (\<lambda>r. ScheduledDiscussion r = did) (event_schedule d)))"

text \<open>
  The body of \<open>discussionFindByIdFullTx\<close>. The last query runs on the handle \<open>q\<close> the caller passed,
  not on the transaction.
\<close>

definition discussionFindByIdFull_body ::
  "tz_env \<Rightarrow> (DisplaySlot list stmt \<Rightarrow> DisplaySlot list tx) \<Rightarrow> string \<Rightarrow> DiscussionFull option tx" where
  "discussionFindByIdFull_body tz q did =
    tx_bind (tx_at ''Getting discussion data''
      (eq_exec (sql_opt (sql_get (\<lambda>d. filter (\<lambda>x. DiscussionID x = did) (event_discussions d)))))) (\<lambda>r.
    case r of
      None \<Rightarrow> tx_return None
    | Some disc \<Rightarrow>
        tx_bind (tx_at ''Getting discussion owner info'' (eq_exec (sql_opt (userGetTx tz (Owner disc))))) (\<lambda>o1.
        case o1 of
          None \<Rightarrow> tx_fail (Errorf ''INTERNAL ERROR: Could not get info for owner'')
        | Some owner \<Rightarrow>
            tx_bind (tx_at ''Getting schedule information for discussion''
              (eq_exec (sql_opt (sql_get (schedule_join (DiscussionID disc)))))) (\<lambda>s.
            tx_bind (tx_at ''Getting possible slots for discussion''
              (q (discussionGetPossibleSlotsTx (DiscussionID disc)))) (\<lambda>ps.
            tx_return (Some (case s of
                None \<Rightarrow> \<lparr>TheDiscussion = disc, OwnerInfo = owner, DiscussionLocation = zero_location,
                          DiscussionTime = zero_time, IsFinal = False, PossibleSlots = ps\<rparr>
              | Some (l, t, locked) \<Rightarrow>
                  \<lparr>TheDiscussion = disc, OwnerInfo = owner, DiscussionLocation = l,
                   DiscussionTime = t, IsFinal = locked, PossibleSlots = ps\<rparr>))))))"

definition discussionFindByIdFullTx ::
  "tz_env \<Rightarrow> (DisplaySlot list stmt \<Rightarrow> DisplaySlot list tx) \<Rightarrow> string \<Rightarrow> DiscussionFull option tx" where
  "discussionFindByIdFullTx tz q did = txLoop (discussionFindByIdFull_body tz q did)"

definition DiscussionFindByIdFull :: "tz_env \<Rightarrow> string \<Rightarrow> DiscussionFull option tx" where
  "DiscussionFindByIdFull tz did = discussionFindByIdFullTx tz db_exec did"

text \<open>A query on an enclosing transaction whose snapshot is \<open>d0\<close>, from inside another one.\<close>

definition outer_exec :: "database \<Rightarrow> 'a stmt \<Rightarrow> 'a tx" where
  "outer_exec d0 s w =
    (case next_fault w of
       (Some e, w1) \<Rightarrow> (Inl (Sqlite e), w1)
     | (None, w1) \<Rightarrow> (case s d0 of Inl x \<Rightarrow> (Inl (of_stmt_error x), w1) | Inr (v, _) \<Rightarrow> (Inr v, w1)))"

definition discussionIterateQuery ::
  "tz_env \<Rightarrow> (database \<Rightarrow> string list) \<Rightarrow> (DiscussionFull option \<Rightarrow> unit tx) \<Rightarrow> unit tx" where
  "discussionIterateQuery tz query f = txLoop (
    tx_bind (tx_at ''Getting list of discussions to process'' (eq_exec (sql_select query))) (\<lambda>dids.
    tx_each (\<lambda>did. tx_bind (\<lambda>w. discussionFindByIdFullTx tz (outer_exec (db_view w)) did w) f) dids))"

definition DiscussionIterate :: "tz_env \<Rightarrow> (DiscussionFull option \<Rightarrow> unit tx) \<Rightarrow> unit tx" where
  "DiscussionIterate tz f =
     discussionIterateQuery tz (\<lambda>d. sort (map DiscussionID (event_discussions d))) f"

definition DiscussionIterateUser :: "tz_env \<Rightarrow> string \<Rightarrow> (DiscussionFull option \<Rightarrow> unit tx) \<Rightarrow> unit tx" where
  "DiscussionIterateUser tz userid f =
     discussionIterateQuery tz
       (\<lambda>d. sort (map DiscussionID (filter (\<lambda>x. Owner x = userid) (event_discussions d)))) f"

declare sql_user_column_def [sql_defs] sql_insert_discussion_def [sql_defs]
  sql_update_discussion_def [sql_defs] sql_owner_verified_def [sql_defs] sql_set_public_def [sql_defs]
  sql_delete_possible_def [sql_defs] sql_delete_schedule_def [sql_defs]
  sql_delete_discussions_def [sql_defs] sql_insert_possible_def [sql_defs]
  discussionGetPossibleSlotsTx_def [sql_defs]

section \<open>The invariant\<close>

definition user_of :: "database \<Rightarrow> string \<Rightarrow> User option" where
  "user_of d uid = find (\<lambda>u. UserID u = uid) (event_users d)"

definition discussion_of :: "database \<Rightarrow> string \<Rightarrow> Discussion option" where
  "discussion_of d did = find (\<lambda>x. DiscussionID x = did) (event_discussions d)"

lemma case_filter_find:
  "(case map f (filter P xs) of [] \<Rightarrow> a | x # _ \<Rightarrow> b x) = (case find P xs of None \<Rightarrow> a | Some x \<Rightarrow> b (f x))"
  by (induction xs) auto

lemma sql_user_column_eq:
  "sql_user_column f uid d = (case user_of d uid of None \<Rightarrow> Inl NoRows | Some u \<Rightarrow> Inr (f u, d))"
  by (simp add: sql_user_column_def sql_get_def user_of_def case_filter_find)

lemma user_of_None: "user_of d uid = None \<longleftrightarrow> uid \<notin> user_ids d"
  by (simp add: user_of_def user_ids_def find_key_None)

lemma user_of_Some: "user_of d uid = Some u \<Longrightarrow> u \<in> set (event_users d) \<and> UserID u = uid \<and> uid \<in> user_ids d"
  by (auto simp: user_of_def user_ids_def dest: find_key_Some)

lemma discussion_of_None: "discussion_of d did = None \<longleftrightarrow> did \<notin> discussion_ids d"
  by (simp add: discussion_of_def discussion_ids_def find_key_None)

lemma discussion_of_Some:
  "discussion_of d did = Some x \<Longrightarrow> x \<in> set (event_discussions d) \<and> DiscussionID x = did \<and> did \<in> discussion_ids d"
  by (auto simp: discussion_of_def discussion_ids_def dest: find_key_Some)

lemma user_of_frame [simp]:
  "user_of (d\<lparr>event_interest := x\<rparr>) uid = user_of d uid"
  "user_of (d\<lparr>event_discussions := y\<rparr>) uid = user_of d uid"
  by (simp_all add: user_of_def)

lemma checkDiscussionParams_None:
  "checkDiscussionParams disc = None \<longleftrightarrow> \<not> AllWhitespace (Title disc) \<and> \<not> AllWhitespace (Description disc)"
  by (auto simp: checkDiscussionParams_def)

lemma inv_insert_discussion:
  assumes "event_inv d" and "sql_insert_discussion x d = Inr (v, d')"
    and "\<not> AllWhitespace (Title x)" and "\<not> AllWhitespace (Description x)"
    and "IsPublic x \<Longrightarrow> ApprovedTitle x = Title x \<and> ApprovedDescription x = Description x"
  shows "event_inv d'"
proof -
  have d': "d' = d\<lparr>event_discussions := event_discussions d @ [x]\<rparr>"
    and new: "DiscussionID x \<notin> discussion_ids d" "Title x \<notin> Title ` set (event_discussions d)"
      "Owner x \<in> user_ids d"
    using assms(2) by (auto simp: sql_insert_discussion_def split: if_splits)
  have ids: "discussion_ids d' = insert (DiscussionID x) (discussion_ids d)"
    by (simp add: d' discussion_ids_def)
  have "discussions_ok d'" "discussions_content d'"
    using assms(1,3,4,5) new by (simp_all add: d' inv_split discussions_ok_def discussions_content_def discussion_ids_def)
  moreover have "interest_ok d'" "possible_ok d'" "schedule_ok d'"
    using assms(1) by (simp_all add: ids inv_split interest_ok_def possible_ok_def schedule_ok_def) (simp_all add: d')
  ultimately show ?thesis using assms(1) by (simp add: d' inv_split)
qed

lemma interest_of_fresh:
  assumes "event_inv d" and "did \<notin> discussion_ids d"
  shows "(uid, did) \<notin> interest_key ` set (event_interest d)"
  using assms by (auto simp: inv_split interest_ok_def interest_key_def)

lemma discussion_ids_update:
  assumes "\<And>x. DiscussionID (g x) = DiscussionID x"
  shows "discussion_ids (update_discussion did g d) = discussion_ids d"
  unfolding update_discussion_def discussion_ids_def
  using image_key_update [of "\<lambda>x. DiscussionID x = did" DiscussionID g]
  by (simp add: assms del: set_map)

lemma update_discussion_absent: "did \<notin> discussion_ids d \<Longrightarrow> update_discussion did g d = d"
  by (auto simp: update_discussion_def discussion_ids_def intro!: database.equality map_idI)

lemma inv_update_discussion:
  assumes inv: "event_inv d" and key: "\<And>x. DiscussionID (g x) = DiscussionID x"
    and titles: "distinct (map Title (event_discussions (update_discussion did g d)))"
    and own: "\<And>x. Owner (g x) \<in> user_ids d \<or> Owner (g x) = Owner x"
    and cont: "\<And>x. x \<in> set (event_discussions d) \<Longrightarrow> \<not> AllWhitespace (Title (g x)) \<and> \<not> AllWhitespace (Description (g x))
        \<and> (IsPublic (g x) \<longrightarrow> ApprovedTitle (g x) = Title (g x) \<and> ApprovedDescription (g x) = Description (g x))"
  shows "event_inv (update_discussion did g d)"
proof -
  let ?d = "update_discussion did g d"
  have ids: "discussion_ids ?d = discussion_ids d" using discussion_ids_update [OF key] .
  have fr: "user_ids ?d = user_ids d" "slot_ids ?d = slot_ids d" "location_ids ?d = location_ids d"
    "event_interest ?d = event_interest d" "event_schedule ?d = event_schedule d"
    "event_discussions_possible_slots ?d = event_discussions_possible_slots d"
    by (simp_all add: update_discussion_def)
  have "distinct (map DiscussionID (event_discussions ?d))"
    using inv key by (simp add: update_discussion_def inv_split discussions_ok_def)
  moreover have "\<forall>x \<in> set (event_discussions ?d). Owner x \<in> user_ids d"
    using inv own by (fastforce simp: update_discussion_def inv_split discussions_ok_def)
  ultimately have "discussions_ok ?d" using titles by (simp add: discussions_ok_def fr)
  moreover have "discussions_content ?d"
    using inv cont by (auto simp: update_discussion_def inv_split discussions_content_def)
  moreover have "interest_ok ?d" "possible_ok ?d" "schedule_ok ?d"
    using inv ids fr by (simp_all add: inv_split interest_ok_def possible_ok_def schedule_ok_def)
  ultimately show ?thesis using inv by (simp add: inv_split update_discussion_def)
qed

lemma inv_delete_possible:
  assumes "event_inv d"
  shows "event_inv (d\<lparr>event_discussions_possible_slots := filter P (event_discussions_possible_slots d)\<rparr>)"
  using assms by (auto simp: inv_split possible_ok_def distinct_map_filterI)

lemma inv_delete_schedule:
  assumes "event_inv d"
  shows "event_inv (d\<lparr>event_schedule := filter P (event_schedule d)\<rparr>)"
  using assms by (auto simp: inv_split schedule_ok_def distinct_map_filterI)

section \<open>Contracts\<close>

text \<open>What a successful \<open>NewDiscussion\<close> stores: the discussion, and its owner's interest.\<close>

definition with_discussion :: "Discussion \<Rightarrow> database \<Rightarrow> database" where
  "with_discussion x d =
     d\<lparr>event_discussions := event_discussions d @ [x],
       event_interest := event_interest d @
         [\<lparr>InterestUser = Owner x, InterestDiscussion = DiscussionID x, InterestValue = InterestMax\<rparr>]\<rparr>"

definition may_create :: "string \<Rightarrow> database \<Rightarrow> bool" where
  "may_create owner d \<longleftrightarrow> count_owned owner d < maxDiscussionsPerUser
     \<or> (\<exists>u \<in> set (event_users d). UserID u = owner \<and> IsAdmin u)"

definition new_discussion_post :: "Discussion \<Rightarrow> database \<Rightarrow> Discussion \<Rightarrow> database \<Rightarrow> bool" where
  "new_discussion_post disc d x d' \<longleftrightarrow>
     event_inv d' \<and> d' = with_discussion x d \<and> DiscussionID x \<notin> discussion_ids d
     \<and> Title x \<notin> Title ` set (event_discussions d) \<and> may_create (Owner disc) d
     \<and> (\<exists>u \<in> set (event_users d). UserID u = Owner disc
          \<and> x = newDiscussionRow disc (DiscussionID x) (IsVerified u))"

definition new_discussion_fails :: "Discussion \<Rightarrow> database \<Rightarrow> error \<Rightarrow> bool" where
  "new_discussion_fails disc d e \<longleftrightarrow>
     (e = errTooManyDiscussions \<and> \<not> may_create (Owner disc) d) \<or> Owner disc \<notin> user_ids d
     \<or> (Title disc \<in> Title ` set (event_discussions d) \<and> e = Sqlite (SqliteError code_Constraint code_Unique))
     \<or> e = Sqlite (SqliteError code_Constraint code_PrimaryKey)"

lemma may_create_user_of:
  assumes "event_inv d" and "user_of d owner = Some u"
  shows "may_create owner d \<longleftrightarrow> count_owned owner d < maxDiscussionsPerUser \<or> IsAdmin u"
proof -
  have "v = u" if "v \<in> set (event_users d)" "UserID v = owner" for v
    using find_key_eq_Some [of UserID "event_users d" v] assms that
    by (simp add: user_of_def inv_split users_ok_def)
  then show ?thesis using user_of_Some [OF assms(2)] by (auto simp: may_create_def)
qed

text \<open>The two inserts at the end of \<open>NewDiscussion\<close>.\<close>

lemma wp_insert_discussion:
  assumes inv: "event_inv d" and u: "user_of d (Owner disc) = Some u"
    and may: "may_create (Owner disc) d" and ok: "checkDiscussionParams disc = None"
    and x: "x = newDiscussionRow disc did (IsVerified u)"
  shows "case sql_insert_discussion x d of
      Inl y \<Rightarrow> new_discussion_fails disc d (of_stmt_error y)
    | Inr (v, d') \<Rightarrow> wp (tx_bind (eq_exec (setInterestTx (Owner disc) did InterestMax)) (\<lambda>_. tx_return x))
        (new_discussion_post disc d) (new_discussion_fails disc d) d'"
proof -
  have xs: "DiscussionID x = did" "Owner x = Owner disc" "Title x = Title disc"
    "Description x = Description disc" by (simp_all add: x newDiscussionRow_def)
  note us = user_of_Some [OF u]
  show ?thesis
  proof (cases "sql_insert_discussion x d")
    case (Inl y)
    then show ?thesis
      using us xs by (auto simp: sql_insert_discussion_def new_discussion_fails_def split: if_splits)
  next
    case (Inr p)
    obtain v d1 where p: "p = (v, d1)" by (cases p)
    have inv1: "event_inv d1"
      using inv_insert_discussion [OF inv Inr [unfolded p]] ok
      by (simp add: checkDiscussionParams_None xs x newDiscussionRow_def split: if_splits)
    have d1: "d1 = d\<lparr>event_discussions := event_discussions d @ [x]\<rparr>"
      and new: "did \<notin> discussion_ids d" "Title disc \<notin> Title ` set (event_discussions d)"
      using Inr p xs by (auto simp: sql_insert_discussion_def split: if_splits)
    have s: "setInterestTx (Owner disc) did InterestMax d1 = Inr ((), with_discussion x d)"
      using interest_of_fresh [OF inv new(1), of "Owner disc"] us
      by (simp add: setInterestTx_def d1 with_discussion_def xs discussion_ids_def)
    moreover have "event_inv (with_discussion x d)"
      using inv_setInterestTx [OF inv1 s] by (simp add: InterestMax_def)
    ultimately have "new_discussion_post disc d x (with_discussion x d)"
      using new us may xs x by (auto simp: new_discussion_post_def)
    with s Inr p show ?thesis by (auto intro!: tx_wp)
  qed
qed

interpretation new_discussion: tx_contract "NewDiscussion_body disc"
  "\<lambda>d. event_inv d \<and> checkDiscussionParams disc = None"
  "new_discussion_post disc" "new_discussion_fails disc" for disc
proof unfold_locales
  fix d assume pre: "event_inv d \<and> checkDiscussionParams disc = None"
  let ?E = "new_discussion_fails disc d"
  show "wp (NewDiscussion_body disc) (new_discussion_post disc d) ?E d"
  proof (cases "user_of d (Owner disc)")
    case None
    then have "?E e" for e by (simp add: user_of_None new_discussion_fails_def)
    with None show ?thesis
      unfolding NewDiscussion_body_def
      by (auto intro!: tx_wp simp: sql_select_def sql_user_column_eq)
  next
    case (Some u)
    note ins = wp_insert_discussion [OF _ Some _ _ refl]
    have "\<not> may_create (Owner disc) d \<Longrightarrow> ?E errTooManyDiscussions"
      by (simp add: new_discussion_fails_def)
    with Some show ?thesis
      unfolding NewDiscussion_body_def Let_def
      using pre may_create_user_of [OF _ Some]
      by (auto intro!: tx_wp ins simp: sql_select_def sql_user_column_eq)
  qed
qed

lemma distinct_map_update_one:
  assumes "distinct (map K xs)" and "distinct (map T xs)" and "\<And>x. T (g x) = t"
    and "\<forall>x \<in> set xs. K x \<noteq> k \<longrightarrow> T x \<noteq> t"
  shows "distinct (map T (map (\<lambda>x. if K x = k then g x else x) xs))"
  using assms
proof (induction xs)
  case (Cons x xs)
  have ih: "distinct (map T (map (\<lambda>x. if K x = k then g x else x) xs))" using Cons by simp
  show ?case
  proof (cases "K x = k")
    case True
    then have "\<forall>y \<in> set xs. K y \<noteq> k" using Cons.prems(1) by (metis distinct.simps(2) image_eqI list.map(2) list.set_map)
    then have "map (\<lambda>x. if K x = k then g x else x) xs = xs" by (intro map_idI) simp
    moreover have "t \<notin> T ` set xs" using Cons.prems(4) \<open>\<forall>y \<in> set xs. K y \<noteq> k\<close> by auto
    ultimately show ?thesis using ih True Cons.prems(3) by simp
  next
    case False
    then have "T x \<notin> (\<lambda>y. T (if K y = k then g y else y)) ` set xs"
      using Cons.prems by (auto split: if_splits)
    with ih False show ?thesis by simp
  qed
qed simp

lemma sql_owner_verified_eq:
  assumes "event_inv d"
  shows "sql_owner_verified did d =
    (case discussion_of d did of
       None \<Rightarrow> Inl NoRows
     | Some x \<Rightarrow> (case user_of d (Owner x) of None \<Rightarrow> Inl NoRows | Some u \<Rightarrow> Inr ((Owner x, IsVerified u), d)))"
  using assms
  by (auto simp: sql_owner_verified_def sql_get_def discussion_of_def user_of_def inv_split
      discussions_ok_def users_ok_def filter_key_find split: option.splits)

text \<open>What a successful \<open>DiscussionUpdate\<close> stores, and when it fails.\<close>

definition discussion_update_post :: "Discussion \<Rightarrow> database \<Rightarrow> Discussion \<Rightarrow> database \<Rightarrow> bool" where
  "discussion_update_post disc d v d' \<longleftrightarrow> event_inv d' \<and>
     (\<exists>x u d1. discussion_of d (DiscussionID disc) = Some x \<and> user_of d (Owner disc) = Some u
        \<and> (if Owner disc = Owner x then d1 = d
           else setInterestTx (Owner disc) (DiscussionID disc) InterestMax d = Inr ((), d1))
        \<and> d' = update_discussion (DiscussionID disc) (discussionUpdateRow disc (IsVerified u)) d1)"

definition discussion_update_fails :: "Discussion \<Rightarrow> database \<Rightarrow> error \<Rightarrow> bool" where
  "discussion_update_fails disc d e \<longleftrightarrow>
     DiscussionID disc \<notin> discussion_ids d \<or> Owner disc \<notin> user_ids d \<or>
     ((\<exists>x \<in> set (event_discussions d). DiscussionID x \<noteq> DiscussionID disc \<and> Title x = Title disc)
       \<and> e = Sqlite (SqliteError code_Constraint code_Unique))"

lemma sql_update_discussion_row:
  assumes inv: "event_inv d" and own: "Owner disc \<in> user_ids d" and ok: "checkDiscussionParams disc = None"
  shows "case sql_update_discussion (DiscussionID disc) (discussionUpdateRow disc b) d of
      Inl e \<Rightarrow> e = Constraint code_Unique \<and>
        (\<exists>x \<in> set (event_discussions d). DiscussionID x \<noteq> DiscussionID disc \<and> Title x = Title disc)
    | Inr (v, d') \<Rightarrow> event_inv d' \<and> d' = update_discussion (DiscussionID disc) (discussionUpdateRow disc b) d"
proof -
  let ?g = "discussionUpdateRow disc b"
  let ?d = "update_discussion (DiscussionID disc) ?g d"
  have g: "Title (?g x) = Title disc" "Description (?g x) = Description disc" "Owner (?g x) = Owner disc"
    "DiscussionID (?g x) = DiscussionID x"
    "IsPublic (?g x) \<longrightarrow> ApprovedTitle (?g x) = Title disc \<and> ApprovedDescription (?g x) = Description disc" for x
    by (simp_all add: discussionUpdateRow_def Let_def)
  have fk: "list_all (\<lambda>x. Owner x \<in> user_ids d) (event_discussions ?d)"
    using inv own by (auto simp: update_discussion_def list_all_iff g inv_split discussions_ok_def)
  have clash: "\<exists>x \<in> set (event_discussions d). DiscussionID x \<noteq> DiscussionID disc \<and> Title x = Title disc"
    if "\<not> distinct (map Title (event_discussions ?d))"
    using that inv g(1) distinct_map_update_one [of DiscussionID "event_discussions d" Title ?g "Title disc" "DiscussionID disc"]
    by (simp add: update_discussion_def inv_split discussions_ok_def) blast
  have "event_inv ?d" if "distinct (map Title (event_discussions ?d))"
    using inv_update_discussion [OF inv _ that] g own ok by (simp add: checkDiscussionParams_None)
  with fk clash show ?thesis by (auto simp: sql_update_discussion_def Let_def)
qed

interpretation discussion_update: tx_contract "DiscussionUpdate_body disc"
  "\<lambda>d. event_inv d \<and> checkDiscussionParams disc = None"
  "discussion_update_post disc" "discussion_update_fails disc" for disc
proof unfold_locales
  fix d assume pre: "event_inv d \<and> checkDiscussionParams disc = None"
  then have inv: "event_inv d" and ok: "checkDiscussionParams disc = None" by auto
  let ?E = "discussion_update_fails disc d" and ?Q = "discussion_update_post disc d"
  let ?did = "DiscussionID disc"
  show "wp (DiscussionUpdate_body disc) ?Q ?E d"
  proof (cases "discussion_of d ?did = None \<or> user_of d (Owner disc) = None")
    case True
    then have E: "?E e" for e by (auto simp: user_of_None discussion_of_None discussion_update_fails_def)
    have fk: "setInterestTx (Owner disc) ?did InterestMax d = Inl (Constraint code_ForeignKey)"
      if "user_of d (Owner disc) = None"
      using that inv by (auto simp: setInterestTx_def user_of_None inv_split interest_ok_def interest_key_def)
    with True E show ?thesis
      unfolding DiscussionUpdate_body_def
      by (auto intro!: tx_wp simp: sql_owner_verified_eq [OF inv] split: option.splits)
  next
    case False
    then obtain x u where x: "discussion_of d ?did = Some x" and u: "user_of d (Owner disc) = Some u" by auto
    note us = user_of_Some [OF u] and xs = discussion_of_Some [OF x]
    from xs inv obtain u0 where u0: "user_of d (Owner x) = Some u0"
      by (cases "user_of d (Owner x)") (auto simp: user_of_None inv_split discussions_ok_def)
    have upd: "case sql_update_discussion ?did (discussionUpdateRow disc (IsVerified u)) d1 of
        Inl y \<Rightarrow> ?E (of_stmt_error y) | Inr (v, d') \<Rightarrow> \<forall>r. ?Q r d'"
      if "event_inv d1" "event_discussions d1 = event_discussions d" "user_ids d1 = user_ids d"
        "if Owner disc = Owner x then d1 = d
         else setInterestTx (Owner disc) ?did InterestMax d = Inr ((), d1)" for d1
      using sql_update_discussion_row [OF that(1) _ ok, of "IsVerified u"] that us x u
      by (auto simp: discussion_update_fails_def discussion_update_post_def split: sum.splits intro!: exI [of _ d1])
    have int: "event_inv d1 \<and> event_discussions d1 = event_discussions d \<and> user_of d1 = user_of d \<and> user_ids d1 = user_ids d"
      if "setInterestTx (Owner disc) ?did InterestMax d = Inr ((), d1)" for d1
      using that inv_setInterestTx [OF inv that]
      by (auto simp: setInterestTx_def InterestMax_def user_of_def fun_eq_iff split: if_splits)
    have noerr: "setInterestTx (Owner disc) ?did InterestMax d \<noteq> Inl y" for y
      using us xs by (auto simp: setInterestTx_def)
    show ?thesis
    proof (cases "Owner disc = Owner x")
      case True
      with upd [OF inv] u u0 x show ?thesis
        unfolding DiscussionUpdate_body_def
        by (auto intro!: tx_wp simp: sql_owner_verified_eq [OF inv] split: sum.splits)
    next
      case False
      obtain d1 where d1: "setInterestTx (Owner disc) ?did InterestMax d = Inr ((), d1)"
        using noerr by (cases "setInterestTx (Owner disc) ?did InterestMax d") auto
      with False upd [of d1] int [OF d1] u u0 x show ?thesis
        unfolding DiscussionUpdate_body_def
        by (auto intro!: tx_wp simp: sql_owner_verified_eq [OF inv] sql_user_column_eq split: sum.splits)
    qed
  qed
qed

text \<open>A database without a set of discussions and everything that refers to them.\<close>

definition drop_discussions :: "(string \<Rightarrow> bool) \<Rightarrow> database \<Rightarrow> database" where
  "drop_discussions P d =
     d\<lparr>event_interest := filter (\<lambda>r. \<not> P (InterestDiscussion r)) (event_interest d),
       event_discussions_possible_slots :=
         filter (\<lambda>r. \<not> P (PossibleDiscussion r)) (event_discussions_possible_slots d),
       event_schedule := filter (\<lambda>r. \<not> P (ScheduledDiscussion r)) (event_schedule d),
       event_discussions := filter (\<lambda>x. \<not> P (DiscussionID x)) (event_discussions d)\<rparr>"

lemma inv_drop_discussions:
  assumes inv: "event_inv d"
  shows "event_inv (drop_discussions P d)"
proof -
  let ?d = "drop_discussions P d"
  have ids: "discussion_ids ?d = discussion_ids d - Collect P"
    by (auto simp: drop_discussions_def discussion_ids_def)
  have fr: "user_ids ?d = user_ids d" "slot_ids ?d = slot_ids d" "location_ids ?d = location_ids d"
    by (simp_all add: drop_discussions_def)
  have "discussions_ok ?d" "discussions_content ?d" "interest_content ?d"
    using inv unfolding discussions_ok_def fr
    by (auto simp: drop_discussions_def inv_split discussions_ok_def discussions_content_def
        interest_content_def distinct_map_filterI)
  moreover have "interest_ok ?d" "possible_ok ?d" "schedule_ok ?d"
    using inv unfolding interest_ok_def possible_ok_def schedule_ok_def ids fr
    by (auto simp: drop_discussions_def inv_split interest_ok_def possible_ok_def schedule_ok_def
        distinct_map_filterI)
  ultimately show ?thesis using inv by (simp add: drop_discussions_def inv_split)
qed

lemma wp_deleteDiscussionCommon:
  assumes inv: "event_inv d"
    and P: "\<And>x y z. P (d\<lparr>event_interest := x, event_discussions_possible_slots := y, event_schedule := z\<rparr>) = P d"
    and post: "event_inv (drop_discussions (P d) d) \<Longrightarrow>
      Q (length (filter (\<lambda>x. P d (DiscussionID x)) (event_discussions d))) (drop_discussions (P d) d)"
  shows "wp (deleteDiscussionCommon P) Q E d"
proof -
  have P1: "P (d\<lparr>event_interest := x\<rparr>) = P d" for x
    using P [where x = x and y = "event_discussions_possible_slots d" and z = "event_schedule d"] by simp
  have P2: "P (d\<lparr>event_interest := x, event_discussions_possible_slots := y\<rparr>) = P d" for x y
    using P [where x = x and y = y and z = "event_schedule d"] by simp
  show ?thesis
    unfolding deleteDiscussionCommon_def
    using post [OF inv_drop_discussions [OF inv]]
    by (auto intro!: tx_wp simp: sql_delete_interest_def sql_delete_possible_def sql_delete_schedule_def
        sql_write_def sql_delete_discussions_def Let_def P P1 P2 list_ex_iff drop_discussions_def)
qed

interpretation delete_discussion: tx_contract "DeleteDiscussion_body did" event_inv
  "\<lambda>d _ d'. event_inv d' \<and> did \<in> discussion_ids d \<and> d' = drop_discussions (\<lambda>x. x = did) d"
  "\<lambda>d e. e = ErrDiscussionNotFound \<and> did \<notin> discussion_ids d" for did
proof unfold_locales
  fix d assume inv: "event_inv d"
  then have cnt: "length (filter (\<lambda>x. DiscussionID x = did) (event_discussions d)) =
      (if did \<in> discussion_ids d then 1 else 0)"
    by (simp add: length_filter_key inv_split discussions_ok_def discussion_ids_def)
  show "wp (DeleteDiscussion_body did)
      (\<lambda>_ d'. event_inv d' \<and> did \<in> discussion_ids d \<and> d' = drop_discussions (\<lambda>x. x = did) d)
      (\<lambda>e. e = ErrDiscussionNotFound \<and> did \<notin> discussion_ids d) d"
    unfolding DeleteDiscussion_body_def
    by (rule wp_bind, rule wp_deleteDiscussionCommon [OF inv])
      (auto intro!: tx_wp simp: cnt split: if_splits)
qed

interpretation set_public: stmt_contract "sql_set_public did public" event_inv
  "\<lambda>d n d'. event_inv d' \<and> n = (if did \<in> discussion_ids d then 1 else 0)
     \<and> d' = update_discussion did
         (\<lambda>x. if public
              then x\<lparr>ApprovedTitle := Title x, ApprovedDescription := Description x, IsPublic := True\<rparr>
              else x\<lparr>IsPublic := False, ApprovedTitle := '''', ApprovedDescription := ''''\<rparr>) d"
  "\<lambda>d e. False" for did public
proof unfold_locales
  fix d assume inv: "event_inv d"
  let ?g = "\<lambda>x. if public
      then x\<lparr>ApprovedTitle := Title x, ApprovedDescription := Description x, IsPublic := True\<rparr>
      else x\<lparr>IsPublic := False, ApprovedTitle := '''', ApprovedDescription := ''''\<rparr>"
  have cnt: "length (filter (\<lambda>x. DiscussionID x = did) (event_discussions d)) =
      (if did \<in> discussion_ids d then 1 else 0)"
    using inv by (simp add: length_filter_key inv_split discussions_ok_def discussion_ids_def)
  have g: "Title (?g x) = Title x" for x by simp
  have "distinct (map Title (event_discussions (update_discussion did ?g d)))"
    using inv map_key_update [of _ Title ?g "event_discussions d"] g
    by (simp add: update_discussion_def inv_split discussions_ok_def)
  then have "event_inv (update_discussion did ?g d)"
    using inv by (intro inv_update_discussion) (auto simp: inv_split discussions_content_def)
  with cnt show "case sql_set_public did public d of Inl x \<Rightarrow> False
    | Inr (n, d') \<Rightarrow> event_inv d' \<and> n = (if did \<in> discussion_ids d then 1 else 0)
        \<and> d' = update_discussion did ?g d"
    by (simp add: sql_set_public_def)
qed

text \<open>Possible slots.\<close>

lemma fold_any: "fold (\<lambda>p b. b \<or> P p) xs b \<longleftrightarrow> b \<or> list_ex P xs"
  by (induction xs arbitrary: b) auto

lemma possibleSlotsDBToDisplay_eq:
  "possibleSlotsDBToDisplay ps =
     (if list_ex Checked ps then ps else map (\<lambda>p. p\<lparr>Checked := True\<rparr>) ps)"
  by (simp add: possibleSlotsDBToDisplay_def Let_def fold_any)

definition restricted_to :: "database \<Rightarrow> string \<Rightarrow> string \<Rightarrow> bool" where
  "restricted_to d did s \<longleftrightarrow> (did, s) \<in> possible_key ` set (event_discussions_possible_slots d)"

lemma possible_join_eq:
  assumes "event_inv d"
  shows "possible_join did d = map (\<lambda>s. \<lparr>DisplaySlotID = SlotID s, DisplaySlotTime = SlotTime s,
     TimeDisplay = '''', Checked = restricted_to d did (SlotID s)\<rparr>) (work_slots d)"
proof -
  let ?rs = "event_discussions_possible_slots d"
  have filt: "filter (\<lambda>r. PossibleDiscussion r = did \<and> PossibleSlotID r = SlotID s) ?rs =
      (case find (\<lambda>r. possible_key r = (did, SlotID s)) ?rs of None \<Rightarrow> [] | Some r \<Rightarrow> [r])" for s
    using assms filter_key_find [of possible_key ?rs "(did, SlotID s)"]
    by (simp add: inv_split possible_ok_def possible_key_def)
  have none: "find (\<lambda>r. possible_key r = (did, SlotID s)) ?rs = None \<longleftrightarrow> \<not> restricted_to d did (SlotID s)" for s
    by (simp add: find_key_None restricted_to_def)
  have row: "(case case find (\<lambda>r. possible_key r = (did, SlotID s)) ?rs of None \<Rightarrow> [] | Some r \<Rightarrow> [r] of
        [] \<Rightarrow> [f False] | rs \<Rightarrow> map (\<lambda>_. f True) rs) = [f (restricted_to d did (SlotID s))]"
    for s and f :: "bool \<Rightarrow> DisplaySlot"
    using none [of s] by (cases "find (\<lambda>r. possible_key r = (did, SlotID s)) ?rs") auto
  show ?thesis
    unfolding possible_join_def Let_def filt row by (rule concat_map_singleton)
qed

text \<open>The slots a discussion may be scheduled in, as a user sees and as a user sets them.\<close>

definition checked_slots :: "DisplaySlot list \<Rightarrow> string set" where
  "checked_slots ps = DisplaySlotID ` set (filter Checked ps)"

lemma checked_slots_map:
  "checked_slots (map (\<lambda>s. \<lparr>DisplaySlotID = SlotID s, DisplaySlotTime = t s, TimeDisplay = x s, Checked = c s\<rparr>) xs)
     = SlotID ` {s \<in> set xs. c s}"
  by (induction xs) (auto simp: checked_slots_def)

lemma checked_slots_display:
  assumes "event_inv d"
  shows "checked_slots (possibleSlotsDBToDisplay (possible_join did d)) =
    (if \<exists>s \<in> set (work_slots d). restricted_to d did (SlotID s)
     then {SlotID s |s. s \<in> set (work_slots d) \<and> restricted_to d did (SlotID s)}
     else SlotID ` set (work_slots d))"
  by (auto simp: possible_join_eq [OF assms] possibleSlotsDBToDisplay_eq list_ex_iff comp_def checked_slots_map)

definition set_possible :: "string \<Rightarrow> string list \<Rightarrow> database \<Rightarrow> database" where
  "set_possible did pslots d = d\<lparr>event_discussions_possible_slots :=
     filter (\<lambda>r. PossibleDiscussion r \<noteq> did) (event_discussions_possible_slots d) @
     (if length pslots < length (work_slots d)
      then map (\<lambda>s. \<lparr>PossibleDiscussion = did, PossibleSlotID = s\<rparr>) pslots else [])\<rparr>"

lemma length_work_slots: "length (filter (\<lambda>s. \<not> IsBreak s) (event_slots d)) = length (work_slots d)"
  by (simp add: work_slots_def)

lemma work_slots_frame [simp]:
  "work_slots (d\<lparr>event_discussions_possible_slots := x\<rparr>) = work_slots d"
  by (simp add: work_slots_def)

lemma sql_insert_possible_drop:
  fixes did pslots
  defines "rows \<equiv> map (\<lambda>s. \<lparr>PossibleDiscussion = did, PossibleSlotID = s\<rparr>) pslots"
  assumes inv: "event_inv d" and ne: "pslots \<noteq> []" and few: "length pslots < length (work_slots d)"
    and d1: "d1 = d\<lparr>event_discussions_possible_slots :=
       filter (\<lambda>r. PossibleDiscussion r \<noteq> did) (event_discussions_possible_slots d)\<rparr>"
  shows "case sql_insert_possible eb rows d1 of
      Inl _ \<Rightarrow> \<not> distinct pslots \<or> did \<notin> discussion_ids d \<or> \<not> set pslots \<subseteq> slot_ids d
    | Inr (v, d') \<Rightarrow> event_inv d' \<and> d' = set_possible did pslots d"
proof -
  let ?old = "filter (\<lambda>r. PossibleDiscussion r \<noteq> did) (event_discussions_possible_slots d)"
  have keys: "map possible_key rows = map (Pair did) pslots"
    by (simp add: rows_def possible_key_def)
  have dist: "distinct (map possible_key (?old @ rows)) \<longleftrightarrow> distinct pslots"
  proof -
    have "distinct (map (Pair did) pslots) \<longleftrightarrow> distinct pslots" by (simp add: distinct_map inj_on_def)
    moreover have "distinct (map possible_key ?old)"
      using inv by (simp add: inv_split possible_ok_def distinct_map_filterI)
    moreover have "set (map possible_key ?old) \<inter> set (map (Pair did) pslots) = {}"
      by (auto simp: possible_key_def)
    ultimately show ?thesis by (simp only: map_append distinct_append keys) blast
  qed
  have fk: "list_all (\<lambda>r. PossibleDiscussion r \<in> discussion_ids d \<and> PossibleSlotID r \<in> slot_ids d) rows
      \<longleftrightarrow> did \<in> discussion_ids d \<and> set pslots \<subseteq> slot_ids d"
    using ne by (cases pslots) (auto simp: rows_def list_all_iff)
  have new: "set_possible did pslots d = d\<lparr>event_discussions_possible_slots := ?old @ rows\<rparr>"
    using few by (simp add: set_possible_def rows_def)
  have "event_inv (set_possible did pslots d)"
    if ok: "distinct pslots" "did \<in> discussion_ids d \<and> set pslots \<subseteq> slot_ids d"
  proof -
    from ok(1) have "distinct (map possible_key (?old @ rows))" by (simp only: dist)
    moreover from ok(2) have "list_all (\<lambda>r. PossibleDiscussion r \<in> discussion_ids d \<and> PossibleSlotID r \<in> slot_ids d) rows"
      by (simp only: fk)
    ultimately have "possible_ok (set_possible did pslots d)"
      using inv by (auto simp: new possible_ok_def inv_split list_all_iff simp del: map_append)
    with inv show ?thesis by (simp add: inv_split new)
  qed
  moreover have "sql_insert_possible eb rows d1 =
     (if \<not> distinct pslots then Inl (Constraint code_Unique)
      else if \<not> (did \<in> discussion_ids d \<and> set pslots \<subseteq> slot_ids d) then Inl (Constraint code_ForeignKey)
      else Inr ((), set_possible did pslots d))"
    using ne dist fk unfolding sql_insert_possible_def new
    by (simp add: d1 rows_def)
  ultimately show ?thesis by auto
qed

interpretation set_possible: tx_contract "DiscussionSetPossibleSlots_body empty_batch did pslots"
  "\<lambda>d. event_inv d \<and> pslots \<noteq> []"
  "\<lambda>d _ d'. event_inv d' \<and> d' = set_possible did pslots d"
  "\<lambda>d e. length pslots < length (work_slots d)
     \<and> (\<not> distinct pslots \<or> did \<notin> discussion_ids d \<or> \<not> set pslots \<subseteq> slot_ids d)"
  for empty_batch did pslots
proof unfold_locales
  fix d assume pre: "event_inv d \<and> pslots \<noteq> []"
  then show "wp (DiscussionSetPossibleSlots_body empty_batch did pslots)
      (\<lambda>_ d'. event_inv d' \<and> d' = set_possible did pslots d)
      (\<lambda>e. length pslots < length (work_slots d)
        \<and> (\<not> distinct pslots \<or> did \<notin> discussion_ids d \<or> \<not> set pslots \<subseteq> slot_ids d)) d"
    unfolding DiscussionSetPossibleSlots_body_def Let_def
    using sql_insert_possible_drop [of d pslots _ did empty_batch] inv_delete_possible [of d]
    by (auto intro!: tx_wp simp: sql_select_def sql_delete_possible_def sql_write_def length_work_slots
        set_possible_def split: sum.splits)
qed

interpretation get_possible: tx_contract "DiscussionGetPossibleSlots_body did" "\<lambda>d. True"
  "\<lambda>d ps d'. d' = d \<and> ps = possibleSlotsDBToDisplay (possible_join did d)" "\<lambda>d e. False" for did
  by unfold_locales
    (auto simp: DiscussionGetPossibleSlots_body_def discussionGetPossibleSlotsTx_def sql_select_def intro!: tx_wp)

section \<open>Properties\<close>

text \<open>The text of a discussion that someone who is neither its owner nor an admin can read.\<close>

definition visible_text :: "Discussion \<Rightarrow> string \<times> string" where
  "visible_text x =
    (if IsPublic x then (Title x, Description x) else (ApprovedTitle x, ApprovedDescription x))"

lemma newDiscussionRow_sel:
  assumes "x = newDiscussionRow disc did v"
  shows "Title x = Title disc \<and> Description x = Description disc \<and> Owner x = Owner disc \<and> IsPublic x = v
    \<and> visible_text x = (if v then (Title disc, Description disc) else ('''', ''''))"
  by (simp add: assms newDiscussionRow_def visible_text_def)

text \<open>
  C14: Creating a discussion. \<open>NewDiscussion\<close> either appends one discussion, with a fresh
  identifier and an unused title, that is public exactly if its owner is verified, together with
  the owner's full interest in it, and changes nothing else; or it fails and the database is as
  before. A user who is not an admin never gets past the limit of twelve. Without engine faults the
  error is a blank title or description, too many discussions, an owner that does not exist, a
  title that is taken, or a collision of identifiers.
\<close>
theorem NewDiscussion_correct:
  assumes inv: "event_inv (committed w)" and run: "NewDiscussion disc w = (r, w')"
  shows "event_inv (committed w') \<and>
    (case r of
       Inr x \<Rightarrow> committed w' = with_discussion x (committed w)
         \<and> DiscussionID x \<notin> discussion_ids (committed w)
         \<and> Title disc \<notin> Title ` set (event_discussions (committed w))
         \<and> Title x = Title disc \<and> Description x = Description disc \<and> Owner x = Owner disc
         \<and> may_create (Owner disc) (committed w)
         \<and> (\<exists>u \<in> set (event_users (committed w)). UserID u = Owner disc \<and> IsPublic x = IsVerified u
              \<and> visible_text x = (if IsVerified u then (Title disc, Description disc) else ('''', '''')))
     | Inl e \<Rightarrow> committed w' = committed w \<and>
         (pending w = 0 \<longrightarrow>
            (e = errNoTitle \<and> AllWhitespace (Title disc)) \<or>
            (e = errNoDesc \<and> AllWhitespace (Description disc)) \<or> new_discussion_fails disc (committed w) e))"
proof (cases "checkDiscussionParams disc")
  case (Some e)
  with inv run show ?thesis
    by (auto simp: NewDiscussion_def tx_fail_def checkDiscussionParams_def split: if_splits)
next
  case None
  with run have "txLoop (NewDiscussion_body disc) w = (r, w')" by (simp add: NewDiscussion_def)
  from new_discussion.outcome [OF _ this] inv None show ?thesis
    by (cases r) (auto simp: tx_outcome_def new_discussion_post_def dest!: newDiscussionRow_sel)
qed

definition sample_draft :: Discussion where
  "sample_draft = \<lparr>DiscussionID = '''', Owner = ''usr_b'', Title = ''Testing'', Description = ''CI loop'',
     ApprovedTitle = '''', ApprovedDescription = '''', IsPublic = False\<rparr>"

lemma sample_draft_ok: "checkDiscussionParams sample_draft = None"
  by (simp add: checkDiscussionParams_None sample_draft_def not_AllWhitespace_Cons IsSpace_def)

theorem NewDiscussion_correct_witness:
  "event_inv (committed busy_world) \<and>
   (\<exists>x w'. NewDiscussion sample_draft busy_world = (Inr x, w') \<and> committed w' = with_discussion x sample_db
      \<and> \<not> IsPublic x \<and> visible_text x = ('''', ''''))"
proof -
  let ?x = "NewDiscussion sample_draft busy_world"
  have "\<not> isl (fst (txLoop (NewDiscussion_body sample_draft) busy_world))" by code_simp
  then have "\<not> isl (fst ?x)" by (simp add: NewDiscussion_def sample_draft_ok)
  then obtain x where x: "?x = (Inr x, snd ?x)" by (metis prod.collapse sum.collapse(2))
  have inv: "event_inv (committed busy_world)" by (simp add: sample_inv)
  from NewDiscussion_correct [OF inv x]
  have "committed (snd ?x) = with_discussion x sample_db \<and> \<not> IsPublic x \<and> visible_text x = ('''', '''')"
    by (auto simp: sample_defs sample_draft_def)
  with x inv show ?thesis by blast
qed

lemma discussion_of_update:
  assumes "\<And>x. DiscussionID (g x) = DiscussionID x"
  shows "discussion_of (update_discussion did g d) did' =
    (if did' = did then map_option g (discussion_of d did) else discussion_of d did')"
  using find_map_update [of DiscussionID g did' did "event_discussions d"] assms
  by (auto simp: discussion_of_def update_discussion_def option.map_ident_strong)

text \<open>
  C13: Editing a discussion. A successful \<open>DiscussionUpdate\<close> stores the new owner, title and
  description in that discussion and touches no other one. If the (new) owner is verified the new
  text is public at once; if not, the discussion loses its public mark and what everybody else
  can read stays exactly what they could read before the edit. A new owner gets full interest in
  the discussion; no other interest and no user changes. On an error nothing changes.
\<close>
theorem DiscussionUpdate_moderated:
  assumes inv: "event_inv (committed w)" and run: "DiscussionUpdate disc w = (r, w')"
  shows "event_inv (committed w') \<and>
    (case r of
       Inr _ \<Rightarrow> (\<exists>x x' u.
         discussion_of (committed w) (DiscussionID disc) = Some x \<and>
         discussion_of (committed w') (DiscussionID disc) = Some x' \<and>
         user_of (committed w) (Owner disc) = Some u \<and>
         Owner x' = Owner disc \<and> Title x' = Title disc \<and> Description x' = Description disc \<and>
         IsPublic x' = IsVerified u \<and>
         visible_text x' = (if IsVerified u then (Title disc, Description disc) else visible_text x) \<and>
         (\<forall>did. did \<noteq> DiscussionID disc \<longrightarrow> discussion_of (committed w') did = discussion_of (committed w) did) \<and>
         (\<forall>v did. interest_of (committed w') v did =
            (if v = Owner disc \<and> did = DiscussionID disc \<and> Owner disc \<noteq> Owner x then InterestMax
             else interest_of (committed w) v did)) \<and>
         event_users (committed w') = event_users (committed w))
     | Inl e \<Rightarrow> committed w' = committed w \<and>
         (pending w = 0 \<longrightarrow>
            checkDiscussionParams disc = Some e \<or> discussion_update_fails disc (committed w) e))"
proof (cases "checkDiscussionParams disc")
  case (Some e)
  with inv run show ?thesis by (auto simp: DiscussionUpdate_def tx_fail_def)
next
  case None
  with run have tx: "txLoop (DiscussionUpdate_body disc) w = (r, w')" by (simp add: DiscussionUpdate_def)
  note out = discussion_update.outcome [OF _ tx]
  show ?thesis
  proof (cases r)
    case (Inl e)
    with out inv None show ?thesis by (auto simp: tx_outcome_def)
  next
    case (Inr v)
    let ?d = "committed w"
    from out inv None Inr obtain x u d1 where x: "discussion_of ?d (DiscussionID disc) = Some x"
      and u: "user_of ?d (Owner disc) = Some u"
      and d1: "if Owner disc = Owner x then d1 = ?d
        else setInterestTx (Owner disc) (DiscussionID disc) InterestMax ?d = Inr ((), d1)"
      and d': "committed w' = update_discussion (DiscussionID disc) (discussionUpdateRow disc (IsVerified u)) d1"
      and inv': "event_inv (committed w')"
      by (auto simp: tx_outcome_def discussion_update_post_def)
    let ?g = "discussionUpdateRow disc (IsVerified u)"
    have same: "event_discussions d1 = event_discussions ?d" "event_users d1 = event_users ?d"
      using d1 by (auto simp: setInterestTx_def split: if_splits)
    have int: "interest_of d1 v did = (if v = Owner disc \<and> did = DiscussionID disc \<and> Owner disc \<noteq> Owner x
        then InterestMax else interest_of ?d v did)" for v did
      using d1 by (auto simp: interest_of_setInterestTx split: if_splits)
    have key: "DiscussionID (?g y) = DiscussionID y" for y by (simp add: discussionUpdateRow_def Let_def)
    have look: "discussion_of (committed w') did =
        (if did = DiscussionID disc then Some (?g x) else discussion_of ?d did)" for did
      using discussion_of_update [of ?g "DiscussionID disc" d1 did, OF key] x same
      by (simp add: d' discussion_of_def)
    have vis: "visible_text (?g x) = (if IsVerified u then (Title disc, Description disc) else visible_text x)"
      using inv discussion_of_Some [OF x]
      by (auto simp: visible_text_def discussionUpdateRow_def Let_def inv_split discussions_content_def)
    have "interest_of (committed w') = interest_of d1" "event_users (committed w') = event_users d1"
      by (simp_all add: d' update_discussion_def interest_of_def fun_eq_iff)
    with inv' x u look vis int same Inr show ?thesis
      by (auto simp: discussionUpdateRow_def Let_def)
  qed
qed

text \<open>
  C18: Moderation. Approving a discussion makes its current text the one everybody reads; hiding it
  leaves them nothing. No other discussion and no other table changes. The only error without
  engine faults is the one for a discussion that does not exist, which the code reports as a
  missing user.
\<close>
theorem DiscussionSetPublic_correct:
  assumes inv: "event_inv (committed w)" and run: "DiscussionSetPublic did public w = (r, w')"
  shows "event_inv (committed w') \<and>
    committed w' = (committed w)\<lparr>event_discussions := event_discussions (committed w')\<rparr> \<and>
    (\<forall>did'. did' \<noteq> did \<longrightarrow> discussion_of (committed w') did' = discussion_of (committed w) did') \<and>
    (case r of
       Inr _ \<Rightarrow> (\<exists>x x'. discussion_of (committed w) did = Some x \<and> discussion_of (committed w') did = Some x'
         \<and> Title x' = Title x \<and> Description x' = Description x \<and> Owner x' = Owner x \<and> IsPublic x' = public
         \<and> visible_text x' = (if public then (Title x, Description x) else ('''', '''')))
     | Inl e \<Rightarrow> committed w' = committed w \<and>
         (pending w = 0 \<longrightarrow> e = ErrUserNotFound \<and> did \<notin> discussion_ids (committed w)))"
proof -
  obtain r1 w1 where l: "db_loop (sql_set_public did public) w = (r1, w1)" by fastforce
  note out = set_public.stmt_outcome [OF inv l]
  have w': "w' = w1" using run l by (auto simp: DiscussionSetPublic_def split: sum.splits if_splits)
  show ?thesis
  proof (cases r1)
    case (Inl e)
    with out run l inv w' show ?thesis by (auto simp: tx_outcome_def DiscussionSetPublic_def)
  next
    case (Inr n)
    let ?g = "\<lambda>x. if public
      then x\<lparr>ApprovedTitle := Title x, ApprovedDescription := Description x, IsPublic := True\<rparr>
      else x\<lparr>IsPublic := False, ApprovedTitle := '''', ApprovedDescription := ''''\<rparr>"
    from tx_outcome_Inr [OF out [unfolded Inr]] w'
    have c: "event_inv (committed w')" "n = (if did \<in> discussion_ids (committed w) then 1 else 0)"
      "committed w' = update_discussion did ?g (committed w)" by auto
    have look: "discussion_of (committed w') did' = (if did' = did then map_option ?g (discussion_of (committed w) did)
        else discussion_of (committed w) did')" for did'
      unfolding c(3) by (rule discussion_of_update) simp
    show ?thesis
    proof (cases "discussion_of (committed w) did")
      case None
      with c look run l Inr w' show ?thesis
        by (auto simp: DiscussionSetPublic_def discussion_of_None update_discussion_absent)
    next
      case (Some x)
      with c look run l Inr discussion_of_Some [OF Some] show ?thesis
        by (auto simp: DiscussionSetPublic_def visible_text_def update_discussion_def)
    qed
  qed
qed

definition sample_edit :: Discussion where
  "sample_edit = sample_disc2\<lparr>Title := ''Schedulers again''\<rparr>"

lemma sample_edit_ok: "checkDiscussionParams sample_edit = None"
  by (simp add: checkDiscussionParams_None sample_edit_def sample_disc2_def not_AllWhitespace_Cons IsSpace_def)

theorem DiscussionUpdate_moderated_witness:
  "event_inv (committed sample_world) \<and>
   (\<exists>v w' x'. DiscussionUpdate sample_edit sample_world = (Inr v, w')
      \<and> discussion_of (committed w') ''disc_2'' = Some x'
      \<and> Title x' = ''Schedulers again'' \<and> visible_text x' = (''Schedulers'', ''Design session''))"
proof -
  let ?x = "DiscussionUpdate sample_edit sample_world"
  have "\<not> isl (fst (txLoop (DiscussionUpdate_body sample_edit) sample_world))" by code_simp
  then have "\<not> isl (fst ?x)" by (simp add: DiscussionUpdate_def sample_edit_ok)
  then obtain v where x: "?x = (Inr v, snd ?x)" by (metis prod.collapse sum.collapse(2))
  have inv: "event_inv (committed sample_world)" by (simp add: sample_inv)
  from DiscussionUpdate_moderated [OF inv x] obtain x'
    where "discussion_of (committed (snd ?x)) ''disc_2'' = Some x'" "Title x' = ''Schedulers again''"
      "visible_text x' = (''Schedulers'', ''Design session'')"
    by (auto simp: sample_edit_def discussion_of_def user_of_def sample_defs visible_text_def)
  with x inv show ?thesis by blast
qed

theorem DiscussionSetPublic_correct_witness:
  "event_inv (committed busy_world) \<and>
   (\<exists>w' x'. DiscussionSetPublic ''disc_2'' False busy_world = (Inr (), w')
      \<and> discussion_of (committed w') ''disc_2'' = Some x' \<and> visible_text x' = ('''', ''''))"
proof -
  let ?x = "DiscussionSetPublic ''disc_2'' False busy_world"
  have "fst ?x = Inr ()" by code_simp
  then have x: "?x = (Inr (), snd ?x)" by (metis prod.collapse)
  have inv: "event_inv (committed busy_world)" by (simp add: sample_inv)
  from DiscussionSetPublic_correct [OF inv x] obtain x'
    where "discussion_of (committed (snd ?x)) ''disc_2'' = Some x'" "visible_text x' = ('''', '''')" by auto
  with x inv show ?thesis by blast
qed

text \<open>
  C17: Deleting a discussion removes it, every interest in it, its slot restrictions and its place
  in the schedule, and leaves every other row of every table as it was; references never block it.
  It fails only for a discussion that does not exist (or an engine fault), and then nothing is
  deleted.
\<close>
theorem DeleteDiscussion_correct:
  assumes "event_inv (committed w)" and "DeleteDiscussion did w = (r, w')"
  shows "event_inv (committed w') \<and>
    (case r of
       Inr _ \<Rightarrow> did \<in> discussion_ids (committed w) \<and> did \<notin> discussion_ids (committed w')
         \<and> committed w' = drop_discussions (\<lambda>x. x = did) (committed w)
     | Inl e \<Rightarrow> committed w' = committed w
         \<and> (pending w = 0 \<longrightarrow> e = ErrDiscussionNotFound \<and> did \<notin> discussion_ids (committed w)))"
proof -
  have gone: "did \<notin> discussion_ids (drop_discussions (\<lambda>x. x = did) d)" for d
    by (auto simp: discussion_ids_def drop_discussions_def)
  from assms(2) have "txLoop (DeleteDiscussion_body did) w = (r, w')" by (simp add: DeleteDiscussion_def)
  from delete_discussion.outcome [OF assms(1) this] assms(1) gone [of "committed w"] show ?thesis
    by (cases r) (auto simp: tx_outcome_def)
qed

theorem DeleteDiscussion_correct_witness:
  "event_inv (committed busy_world) \<and>
   (\<exists>w'. DeleteDiscussion ''disc_1'' busy_world = (Inr (), w') \<and> ''disc_1'' \<notin> discussion_ids (committed w'))"
proof -
  let ?x = "DeleteDiscussion ''disc_1'' busy_world"
  have "fst ?x = Inr ()" by code_simp
  then obtain w' where x: "?x = (Inr (), w')" by (metis prod.collapse)
  have inv: "event_inv (committed busy_world)" by (simp add: sample_inv)
  from DeleteDiscussion_correct [OF inv x] have "''disc_1'' \<notin> discussion_ids (committed w')" by auto
  with x inv show ?thesis by blast
qed

lemma restricted_set_possible:
  "restricted_to (set_possible did pslots d) did s \<longleftrightarrow> length pslots < length (work_slots d) \<and> s \<in> set pslots"
proof -
  have "possible_key ` set (event_discussions_possible_slots (set_possible did pslots d)) =
      possible_key ` {r \<in> set (event_discussions_possible_slots d). PossibleDiscussion r \<noteq> did} \<union>
      (if length pslots < length (work_slots d) then Pair did ` set pslots else {})"
    by (simp add: set_possible_def image_Un image_image possible_key_def)
  moreover have "(did, s) \<notin> possible_key ` {r \<in> set (event_discussions_possible_slots d). PossibleDiscussion r \<noteq> did}"
    by (auto simp: possible_key_def)
  ultimately show ?thesis by (auto simp: restricted_to_def)
qed

lemma all_slots_chosen:
  assumes "distinct pslots" and "set pslots \<subseteq> SlotID ` set (work_slots d)"
    and "\<not> length pslots < length (work_slots d)"
  shows "SlotID ` set (work_slots d) = set pslots"
proof (rule sym, rule card_seteq)
  have "card (SlotID ` set (work_slots d)) \<le> length (work_slots d)"
    by (rule order_trans [OF card_image_le card_length]) simp
  then show "card (SlotID ` set (work_slots d)) \<le> card (set pslots)"
    using assms(1,3) by (simp add: distinct_card)
qed (use assms(2) in simp_all)

lemma set_possible_checked:
  assumes "event_inv (set_possible did pslots d)" and "pslots \<noteq> []" and "distinct pslots"
    and "set pslots \<subseteq> SlotID ` set (work_slots d)"
  shows "checked_slots (possibleSlotsDBToDisplay (possible_join did (set_possible did pslots d))) = set pslots"
proof (cases "length pslots < length (work_slots d)")
  case True
  have ws: "work_slots (set_possible did pslots d) = work_slots d" by (simp add: set_possible_def)
  from assms(2,4) obtain s where "s \<in> set (work_slots d)" "SlotID s \<in> set pslots"
    by (cases pslots) auto
  then have "\<exists>s \<in> set (work_slots d). SlotID s \<in> set pslots" by blast
  with True assms(4) show ?thesis
    by (auto simp: checked_slots_display [OF assms(1)] ws restricted_set_possible)
next
  case False
  then show ?thesis
    using all_slots_chosen [OF assms(3,4)]
    by (simp add: checked_slots_display [OF assms(1)] restricted_set_possible) (simp add: set_possible_def)
qed

text \<open>
  C16: Slot restrictions round trip. After a discussion's possible slots were set to a non-empty
  selection of the working slots, the form shows every working slot in timetable order, and ticks
  exactly the selection. The database stores no rows when everything is selected and reads no
  rows as everything; the two conventions agree. Without engine faults both operations succeed.
\<close>
theorem possible_slots_roundtrip:
  assumes inv: "event_inv (committed w)" and did: "did \<in> discussion_ids (committed w)"
    and sel: "pslots \<noteq> []" "distinct pslots" "set pslots \<subseteq> SlotID ` set (work_slots (committed w))"
    and set_run: "DiscussionSetPossibleSlots empty_batch did pslots w = (r1, w1)"
    and get_run: "DiscussionGetPossibleSlots did w1 = (r2, w2)"
  shows "(pending w = 0 \<longrightarrow> \<not> isl r1 \<and> \<not> isl r2) \<and>
    (\<forall>ps. r1 = Inr () \<longrightarrow> r2 = Inr ps \<longrightarrow>
       map DisplaySlotID ps = map SlotID (work_slots (committed w)) \<and> checked_slots ps = set pslots)"
proof -
  let ?d = "committed w"
  have "set (work_slots ?d) \<subseteq> set (event_slots ?d)" by (auto simp: work_slots_def)
  with sel(3) have sub: "set pslots \<subseteq> slot_ids ?d" by (auto simp: slot_ids_def)
  note o1 = set_possible.outcome [OF _ set_run [unfolded DiscussionSetPossibleSlots_def]]
  note o2 = get_possible.outcome [OF TrueI get_run [unfolded DiscussionGetPossibleSlots_def]]
  have "pending w = 0 \<longrightarrow> \<not> isl r1 \<and> \<not> isl r2"
    using o1 o2 inv sel did sub by (auto simp: tx_outcome_def isl_def split: sum.splits)
  moreover have "map DisplaySlotID ps = map SlotID (work_slots ?d) \<and> checked_slots ps = set pslots"
    if "r1 = Inr ()" "r2 = Inr ps" for ps
  proof -
    from that o1 inv sel have d1: "committed w1 = set_possible did pslots ?d" "event_inv (committed w1)"
      by (auto simp: tx_outcome_def)
    from that o2 have ps: "ps = possibleSlotsDBToDisplay (possible_join did (committed w1))"
      by (simp add: tx_outcome_def)
    have "map DisplaySlotID ps = map SlotID (work_slots (committed w1))"
      by (simp add: ps possible_join_eq [OF d1(2)] possibleSlotsDBToDisplay_eq comp_def)
    moreover have "work_slots (committed w1) = work_slots ?d" by (simp add: d1(1) set_possible_def)
    ultimately show ?thesis
      using set_possible_checked [OF d1(2) [unfolded d1(1)] sel] by (simp add: ps d1(1))
  qed
  ultimately show ?thesis by blast
qed

theorem possible_slots_roundtrip_witness:
  "event_inv (committed sample_world) \<and> ''disc_1'' \<in> discussion_ids (committed sample_world) \<and>
   (\<exists>w1 w2 ps. DiscussionSetPossibleSlots (\<lambda>_. Inl (DriverError ''length of array is 0'')) ''disc_1'' [''slot_2''] sample_world = (Inr (), w1)
      \<and> DiscussionGetPossibleSlots ''disc_1'' w1 = (Inr ps, w2) \<and> checked_slots ps = {''slot_2''})"
proof -
  let ?eb = "\<lambda>_. Inl (DriverError ''length of array is 0'')"
  obtain r1 w1 where x: "DiscussionSetPossibleSlots ?eb ''disc_1'' [''slot_2''] sample_world = (r1, w1)" by fastforce
  obtain r2 w2 where y: "DiscussionGetPossibleSlots ''disc_1'' w1 = (r2, w2)" by fastforce
  have pre: "event_inv (committed sample_world)" "''disc_1'' \<in> discussion_ids (committed sample_world)"
    "set [''slot_2''] \<subseteq> SlotID ` set (work_slots (committed sample_world))"
    by (simp_all only: sample_world_simps sample_inv) (simp_all add: discussion_ids_def work_slots_def sample_defs)
  note rt = possible_slots_roundtrip [OF pre(1,2) _ _ pre(3) x y]
  then have "\<not> isl r1" "\<not> isl r2" by simp_all
  then obtain u ps where r: "r1 = Inr u" "r2 = Inr ps" by (metis sum.collapse(2))
  with rt have "checked_slots ps = {''slot_2''}" by simp
  with x y r pre show ?thesis by auto
qed

end
