(* ===== verification/Timetables.thy ===== *)
theory Timetables
  imports Discussions
begin

text \<open>
  The timetable: \<^verbatim>\<open>event/timetable.go\<close>. Days and slots in the database, the form for locked slots,
  and setting the whole timetable from a structured description. Reading it back is in
  \<^verbatim>\<open>Timetable_View\<close>.

  Times are stored with \<open>MarshalText\<close>, which refuses years outside 0 to 9999.
\<close>

section \<open>Data\<close>

record TimetableDiscussion =
  ttDiscussionID :: string
  ttTitle :: string
  Attendees :: nat
  Score :: int
  ttLocationName :: string
  ttLocationURL :: string

record TimetableSlot =
  ttTime :: gotime
  ttTimeDisplay :: string
  ttIsBreak :: bool
  ttDiscussions :: "TimetableDiscussion list"

record TimetableDay =
  ttDayName :: string
  ttIsFinal :: bool
  ttSlots :: "TimetableSlot list"

record Timetable =
  Days :: "TimetableDay list"

section \<open>Locked slots\<close>

definition sql_locked_slots :: "DisplaySlot list stmt" where
  "sql_locked_slots = sql_select (\<lambda>d. map (\<lambda>s. \<lparr>DisplaySlotID = SlotID s, DisplaySlotTime = SlotTime s,
     TimeDisplay = '''', Checked = IsLocked s\<rparr>) (work_slots d))"

text \<open>An error is logged and an empty list returned.\<close>

definition TimetableGetLockedSlots :: "world \<Rightarrow> DisplaySlot list \<times> world" where
  "TimetableGetLockedSlots w =
    (case txLoop (tx_at ''Getting locked slots'' (eq_exec sql_locked_slots)) w of
       (Inl err, w') \<Rightarrow> ([], w')
     | (Inr ds, w') \<Rightarrow> (ds, w'))"

definition lock_slots :: "string list \<Rightarrow> database \<Rightarrow> database" where
  "lock_slots pslots d = d\<lparr>event_slots := map (\<lambda>s. s\<lparr>IsLocked := (if length pslots > 0 then SlotID s \<in> set pslots else False)\<rparr>)
     (event_slots d)\<rparr>"

definition TimetableSetLockedSlots_body :: "string list \<Rightarrow> unit tx" where
  "TimetableSetLockedSlots_body pslots =
     tx_at ''Updating locked slots'' (eq_exec (sql_write (lock_slots pslots)))"

definition TimetableSetLockedSlots :: "string list \<Rightarrow> unit tx" where
  "TimetableSetLockedSlots pslots = txLoop (TimetableSetLockedSlots_body pslots)"

section \<open>Days\<close>

definition slotIDLength :: nat where "slotIDLength = 8"

definition checkDayParams :: "Day \<Rightarrow> error option" where
  "checkDayParams y = (if DayName y = '''' then Some errDayNoName else None)"

definition getMaxDay :: "int stmt" where
  "getMaxDay = sql_select (\<lambda>d. sql_max (map DayID (event_days d)))"

definition getMaxSlotIdx :: "int \<Rightarrow> int stmt" where
  "getMaxSlotIdx dayid = sql_select (\<lambda>d.
     sql_max (map SlotIDX (filter (\<lambda>s. SlotDay s = dayid) (event_slots d))))"

definition sql_insert_day :: "Day \<Rightarrow> unit stmt" where
  "sql_insert_day y d =
    (if DayID y \<in> day_ids d then Inl (Constraint code_PrimaryKey)
     else Inr ((), d\<lparr>event_days := event_days d @ [y]\<rparr>))"

definition dayAddTx :: "Day \<Rightarrow> unit tx" where
  "dayAddTx y = tx_at ''Inserting day'' (eq_exec (sql_insert_day y))"

definition NewDay_body :: "Day \<Rightarrow> Day tx" where
  "NewDay_body y =
    tx_bind (tx_at ''Getting  max dayid'' (eq_exec getMaxDay)) (\<lambda>maxdayid.
    let y1 = y\<lparr>DayID := maxdayid + 1\<rparr> in
    tx_bind (dayAddTx y1) (\<lambda>_. tx_return y1))"

definition NewDay :: "Day \<Rightarrow> Day tx" where
  "NewDay y =
    (case checkDayParams y of Some err \<Rightarrow> tx_fail err | None \<Rightarrow> txLoop (NewDay_body y))"

definition DayFindByID :: "int \<Rightarrow> Day option tx" where
  "DayFindByID did = db_loop (sql_opt (sql_get (\<lambda>d. filter (\<lambda>y. DayID y = did) (event_days d))))"

text \<open>The slots of a day from an index on.\<close>

definition slots_from :: "int \<Rightarrow> int \<Rightarrow> Slot \<Rightarrow> bool" where
  "slots_from did firstIdx s \<longleftrightarrow> SlotDay s = did \<and> SlotIDX s \<ge> firstIdx"

definition sql_delete_slots :: "(Slot \<Rightarrow> bool) \<Rightarrow> nat stmt" where
  "sql_delete_slots P d =
    (let gone = filter P (event_slots d);
         referred = (\<lambda>sid. sid \<in> SlotID ` set gone)
     in if list_ex (\<lambda>r. referred (ScheduledSlot r)) (event_schedule d)
           \<or> list_ex (\<lambda>r. referred (PossibleSlotID r)) (event_discussions_possible_slots d)
        then Inl (Constraint code_ForeignKey)
        else Inr (length gone, d\<lparr>event_slots := filter (\<lambda>s. \<not> P s) (event_slots d)\<rparr>))"

definition daySlotsDeleteTx :: "int \<Rightarrow> int \<Rightarrow> unit tx" where
  "daySlotsDeleteTx did firstDelIdx =
    tx_bind (tx_at ''Looking for locked slots'' (eq_exec (sql_select (\<lambda>d.
      length (filter (\<lambda>s. slots_from did firstDelIdx s \<and> IsLocked s) (event_slots d)))))) (\<lambda>lockedSlots.
    if lockedSlots > 0 then tx_fail (Errorf ''Cannot delete slot range, slots are locked'')
    else
    tx_bind (tx_at ''Deleting schedule entries for slot range''
      (eq_exec (sql_delete_schedule (\<lambda>d r.
         list_ex (\<lambda>s. slots_from did firstDelIdx s \<and> SlotID s = ScheduledSlot r) (event_slots d))))) (\<lambda>_.
    tx_bind (tx_at ''Deleting slots range'' (eq_exec (sql_delete_slots (slots_from did firstDelIdx)))) (\<lambda>_.
    tx_return ())))"

definition sql_delete_day :: "int \<Rightarrow> nat stmt" where
  "sql_delete_day did d =
    (let gone = filter (\<lambda>y. DayID y = did) (event_days d)
     in if gone \<noteq> [] \<and> list_ex (\<lambda>s. SlotDay s = did) (event_slots d) then Inl (Constraint code_ForeignKey)
        else Inr (length gone, d\<lparr>event_days := filter (\<lambda>y. DayID y \<noteq> did) (event_days d)\<rparr>))"

definition deleteDayTx :: "int \<Rightarrow> unit tx" where
  "deleteDayTx did =
    tx_bind (daySlotsDeleteTx did 1) (\<lambda>_.
    tx_bind (tx_at ''Deleting day from event_days'' (eq_exec (sql_delete_day did))) (\<lambda>rcount.
    if rcount = 0 then tx_fail ErrDayNotFound
    else if rcount > 1 then tx_fail ErrInternal
    else tx_return ()))"

definition DeleteDay :: "int \<Rightarrow> unit tx" where
  "DeleteDay did = txLoop (deleteDayTx did)"

definition dayUpdateTx :: "Day \<Rightarrow> unit tx" where
  "dayUpdateTx y = eq_exec (sql_write (\<lambda>d. d\<lparr>event_days :=
     map (\<lambda>x. if DayID x = DayID y then x\<lparr>DayName := DayName y\<rparr> else x) (event_days d)\<rparr>))"

definition DayUpdate :: "Day \<Rightarrow> unit tx" where
  "DayUpdate y =
    (case checkDayParams y of Some err \<Rightarrow> tx_fail err | None \<Rightarrow> txLoop (dayUpdateTx y))"

section \<open>Setting the timetable\<close>

definition sql_insert_slot :: "Slot \<Rightarrow> unit stmt" where
  "sql_insert_slot s d =
    (if \<not> MarshalText_ok (SlotTime s) then Inl (DriverError ''sql: converting argument: year outside of range'')
     else if SlotID s \<in> slot_ids d then Inl (Constraint code_PrimaryKey)
     else if slot_key s \<in> slot_key ` set (event_slots d) then Inl (Constraint code_Unique)
     else if SlotDay s \<notin> day_ids d then Inl (Constraint code_ForeignKey)
     else Inr ((), d\<lparr>event_slots := event_slots d @ [s]\<rparr>))"

definition timetableSlotAddTx :: "int \<Rightarrow> int \<Rightarrow> TimetableSlot \<Rightarrow> unit tx" where
  "timetableSlotAddTx dayid slotIdx slot =
    tx_bind (tx_generate ''slot'' slotIDLength) (\<lambda>slotId.
    tx_at ''Inserting new slot'' (eq_exec (sql_insert_slot
      \<lparr>SlotID = slotId, SlotIDX = slotIdx, SlotDay = dayid, SlotTime = ttTime slot,
       IsBreak = ttIsBreak slot, IsLocked = False\<rparr>)))"

definition sql_update_slot :: "int \<Rightarrow> int \<Rightarrow> TimetableSlot \<Rightarrow> unit stmt" where
  "sql_update_slot dayID slotidx slot d =
    (if \<not> MarshalText_ok (ttTime slot) then Inl (DriverError ''sql: converting argument: year outside of range'')
     else Inr ((), d\<lparr>event_slots := map (\<lambda>s. if slot_key s = (dayID, slotidx)
            then s\<lparr>SlotTime := ttTime slot, IsBreak := ttIsBreak slot\<rparr> else s) (event_slots d)\<rparr>))"

definition timetableSlotUpdateTx :: "int \<Rightarrow> int \<Rightarrow> TimetableSlot \<Rightarrow> unit tx" where
  "timetableSlotUpdateTx dayID slotidx slot =
     tx_at ''Updating slot'' (eq_exec (sql_update_slot dayID slotidx slot))"

text \<open>A loop over a slice with its index: the element at index \<open>i\<close> gets the number \<open>i + 1\<close>.\<close>

definition numbered :: "'a list \<Rightarrow> (int \<times> 'a) list" where
  "numbered xs = zip (map (\<lambda>i. int i + 1) [0..<length xs]) xs"

definition timetableDayAddTx :: "Day \<Rightarrow> TimetableSlot list \<Rightarrow> unit tx" where
  "timetableDayAddTx y slots =
    tx_bind (tx_at ''Adding day'' (dayAddTx y)) (\<lambda>_.
    tx_each (\<lambda>(i1, slot). timetableSlotAddTx (DayID y) i1 slot) (numbered slots))"

definition timetableDayUpdateTx :: "Day \<Rightarrow> TimetableSlot list \<Rightarrow> unit tx" where
  "timetableDayUpdateTx y slots =
    tx_bind (tx_at ''Updating day'' (dayUpdateTx y)) (\<lambda>_.
    tx_bind (eq_exec (getMaxSlotIdx (DayID y))) (\<lambda>curMaxSlotIdx.
    tx_bind (if curMaxSlotIdx > int (length slots) then daySlotsDeleteTx (DayID y) (int (length slots) + 1)
             else tx_return ()) (\<lambda>_.
    tx_each (\<lambda>(slotIdx, slot).
      if slotIdx - 1 < curMaxSlotIdx then timetableSlotUpdateTx (DayID y) slotIdx slot
      else timetableSlotAddTx (DayID y) slotIdx slot) (numbered slots))))"

text \<open>The sanity check on the slots of a day.\<close>

definition spans_too_long :: "TimetableSlot list \<Rightarrow> bool" where
  "spans_too_long slots \<longleftrightarrow> length slots > 2 \<and>
     fst (ttTime (slots ! (length slots - 1))) - fst (ttTime (slots ! 0)) > 24 * 3600"

definition timetableSet_day :: "int \<Rightarrow> int \<times> TimetableDay \<Rightarrow> unit tx" where
  "timetableSet_day curmaxdayid iday =
    (case iday of (dayid, td) \<Rightarrow>
     let day = \<lparr>DayID = dayid, DayName = ttDayName td\<rparr> in
     case checkDayParams day of
       Some err \<Rightarrow> tx_fail err
     | None \<Rightarrow>
         if spans_too_long (ttSlots td) then tx_fail (Errorf ''Slots span more than 24 hours!'')
         else if dayid - 1 < curmaxdayid then timetableDayUpdateTx day (ttSlots td)
         else timetableDayAddTx day (ttSlots td))"

definition timetableSetTx :: "Timetable \<Rightarrow> unit tx" where
  "timetableSetTx tt =
    tx_bind (eq_exec getMaxDay) (\<lambda>curmaxdayid.
    tx_bind (tx_each deleteDayTx [int (length (Days tt)) + 1 .. curmaxdayid]) (\<lambda>_.
    tx_each (timetableSet_day (if curmaxdayid > int (length (Days tt)) then int (length (Days tt)) else curmaxdayid))
      (numbered (Days tt))))"

definition TimetableSet :: "Timetable \<Rightarrow> unit tx" where
  "TimetableSet tt = txLoop (timetableSetTx tt)"

declare sql_insert_day_def [sql_defs] sql_delete_slots_def [sql_defs] sql_delete_day_def [sql_defs]
  sql_insert_slot_def [sql_defs] sql_update_slot_def [sql_defs]

section \<open>Loops\<close>

lemma numbered_Cons_drop:
  assumes "p < length xs"
  shows "drop p (numbered xs) = (int p + 1, xs ! p) # drop (Suc p) (numbered xs)"
proof -
  have "numbered xs ! p = (int p + 1, xs ! p)" using assms by (simp add: numbered_def)
  moreover have "p < length (numbered xs)" using assms by (simp add: numbered_def)
  ultimately show ?thesis by (metis Cons_nth_drop_Suc)
qed

lemma length_numbered [simp]: "length (numbered xs) = length xs"
  by (simp add: numbered_def)

text \<open>A loop over a slice with its index, by an invariant in the number of elements processed.\<close>

lemma wp_numbered:
  assumes "J 0 d"
    and "\<And>p d'. p < length xs \<Longrightarrow> J p d' \<Longrightarrow> wp (f (int p + 1, xs ! p)) (\<lambda>_ d''. J (Suc p) d'') E d'"
  shows "wp (tx_each f (numbered xs)) (\<lambda>_ d'. J (length xs) d') E d"
proof -
  let ?I = "\<lambda>ys d'. \<exists>p \<le> length xs. ys = drop p (numbered xs) \<and> J p d'"
  have "wp (tx_each f (numbered xs)) (\<lambda>_ d'. ?I [] d') E d"
  proof (rule wp_each [where I = ?I])
    show "?I (numbered xs) d" using assms(1) by (intro exI [of _ 0]) simp
  next
    fix x ys d' assume "?I (x # ys) d'"
    then obtain p where p: "p \<le> length xs" "x # ys = drop p (numbered xs)" "J p d'" by blast
    then have lt: "p < length xs" by (cases "p = length xs") auto
    with p(2) have x: "x = (int p + 1, xs ! p)" "ys = drop (Suc p) (numbered xs)"
      by (simp_all add: numbered_Cons_drop)
    show "wp (f x) (\<lambda>_ d''. ?I ys d'') E d'"
      unfolding x using lt by (intro wp_mono [OF assms(2) [OF lt p(3)]]) (auto intro!: exI [of _ "Suc p"])
  qed
  then show ?thesis by (rule wp_mono) auto
qed

text \<open>A counting loop.\<close>

lemma wp_upto:
  assumes "J a d" and "a \<le> b + 1"
    and "\<And>k d'. a \<le> k \<Longrightarrow> k \<le> b \<Longrightarrow> J k d' \<Longrightarrow> wp (f k) (\<lambda>_ d''. J (k + 1) d'') E d'"
  shows "wp (tx_each f [a..b]) (\<lambda>_ d'. J (b + 1) d') E d"
proof -
  let ?I = "\<lambda>ys d'. \<exists>k. a \<le> k \<and> k \<le> b + 1 \<and> ys = [k..b] \<and> J k d'"
  have "wp (tx_each f [a..b]) (\<lambda>_ d'. ?I [] d') E d"
  proof (rule wp_each [where I = ?I])
    show "?I [a..b] d" using assms(1,2) by blast
  next
    fix x ys d' assume "?I (x # ys) d'"
    then obtain k where k: "a \<le> k" "k \<le> b + 1" "x # ys = [k..b]" "J k d'" by blast
    then have le: "k \<le> b" by (cases "k = b + 1") auto
    with k(3) have x: "x = k" "ys = [k + 1..b]" by (simp_all add: upto_rec1)
    show "wp (f x) (\<lambda>_ d''. ?I ys d'') E d'"
      unfolding x using le k(1) by (intro wp_mono [OF assms(3) [OF k(1) le k(4)]]) (auto intro!: exI [of _ "k + 1"])
  qed
  moreover have "J (b + 1) d'" if "?I [] d'" for d'
  proof -
    from that obtain k where "k \<le> b + 1" "[] = [k..b]" "J k d'" by blast
    then have "k = b + 1" by simp
    with \<open>J k d'\<close> show ?thesis by simp
  qed
  ultimately show ?thesis by (rule wp_mono)
qed

section \<open>The invariant\<close>

definition day_slots :: "database \<Rightarrow> int \<Rightarrow> Slot set" where
  "day_slots d i = {s \<in> set (event_slots d). SlotDay s = i}"

lemma inv_update_slots:
  assumes inv: "event_inv d" and g: "\<And>s. SlotID (g s) = SlotID s" "\<And>s. slot_key (g s) = slot_key s"
  shows "event_inv (d\<lparr>event_slots := map g (event_slots d)\<rparr>)" (is "event_inv ?d")
proof -
  have day: "SlotDay (g s) = SlotDay s" for s using g(2) [of s] by (simp add: slot_key_def)
  have ids: "slot_ids ?d = slot_ids d" by (auto simp: slot_ids_def g(1) image_image)
  have maps: "map SlotID (map g xs) = map SlotID xs" "map slot_key (map g xs) = map slot_key xs" for xs
    using g by simp_all
  have "slots_ok ?d"
    using inv unfolding slots_ok_def by (simp add: inv_split slots_ok_def maps day del: map_map)
  moreover have "possible_ok ?d" "schedule_ok ?d"
    using inv unfolding possible_ok_def schedule_ok_def ids by (simp_all add: inv_split possible_ok_def schedule_ok_def)
  ultimately show ?thesis using inv by (simp add: inv_split)
qed

lemma inv_insert_slot:
  assumes inv: "event_inv d" and ins: "sql_insert_slot s d = Inr (v, d')"
  shows "event_inv d'" and "d' = d\<lparr>event_slots := event_slots d @ [s]\<rparr>"
proof -
  from ins show d': "d' = d\<lparr>event_slots := event_slots d @ [s]\<rparr>" by (auto simp: sql_insert_slot_def split: if_splits)
  have new: "SlotID s \<notin> slot_ids d" "slot_key s \<notin> slot_key ` set (event_slots d)" "SlotDay s \<in> day_ids d"
    using ins by (auto simp: sql_insert_slot_def split: if_splits)
  have ids: "slot_ids d' = insert (SlotID s) (slot_ids d)" by (simp add: d' slot_ids_def)
  have "slots_ok d'" using inv new by (simp add: d' inv_split slots_ok_def slot_ids_def)
  moreover have "possible_ok d'" "schedule_ok d'"
    using inv unfolding possible_ok_def schedule_ok_def ids
    by (simp_all add: d' inv_split possible_ok_def schedule_ok_def)
  ultimately show "event_inv d'" using inv by (simp add: d' inv_split)
qed

lemma inv_delete_slots:
  assumes inv: "event_inv d" and del: "sql_delete_slots P d = Inr (n, d')"
  shows "event_inv d'" and "d' = d\<lparr>event_slots := filter (\<lambda>s. \<not> P s) (event_slots d)\<rparr>"
proof -
  from del show d': "d' = d\<lparr>event_slots := filter (\<lambda>s. \<not> P s) (event_slots d)\<rparr>"
    by (auto simp: sql_delete_slots_def Let_def split: if_splits)
  have free: "\<forall>r \<in> set (event_schedule d). \<not> (\<exists>s \<in> set (event_slots d). P s \<and> SlotID s = ScheduledSlot r)"
    "\<forall>r \<in> set (event_discussions_possible_slots d). \<not> (\<exists>s \<in> set (event_slots d). P s \<and> SlotID s = PossibleSlotID r)"
    using del by (force simp: sql_delete_slots_def Let_def list_ex_iff split: if_splits)+
  have stay: "sid \<in> slot_ids d'" if "sid \<in> slot_ids d" "\<not> (\<exists>s \<in> set (event_slots d). P s \<and> SlotID s = sid)" for sid
    using that by (auto simp: slot_ids_def d')
  have "slots_ok d'" using inv by (simp add: d' inv_split slots_ok_def distinct_map_filterI)
  moreover have "possible_ok d'"
    using inv free stay unfolding possible_ok_def by (auto simp: inv_split possible_ok_def) (auto simp: d')
  moreover have "schedule_ok d'"
    using inv free stay unfolding schedule_ok_def by (auto simp: inv_split schedule_ok_def) (auto simp: d')
  ultimately show "event_inv d'" using inv by (simp add: d' inv_split)
qed

text \<open>A database without the slots of a day from an index on, and their schedule entries.\<close>

definition drop_slots :: "int \<Rightarrow> int \<Rightarrow> database \<Rightarrow> database" where
  "drop_slots i f d =
     d\<lparr>event_schedule := filter (\<lambda>r. \<not> (\<exists>s \<in> set (event_slots d). slots_from i f s \<and> SlotID s = ScheduledSlot r))
         (event_schedule d),
       event_slots := filter (\<lambda>s. \<not> slots_from i f s) (event_slots d)\<rparr>"

lemma wp_daySlotsDelete:
  assumes inv: "event_inv d"
    and post: "event_inv (drop_slots i f d) \<Longrightarrow> \<forall>s \<in> set (event_slots d). slots_from i f s \<longrightarrow> \<not> IsLocked s \<Longrightarrow>
      Q () (drop_slots i f d)"
  shows "wp (daySlotsDeleteTx i f) Q (\<lambda>_. True) d"
proof -
  let ?d1 = "d\<lparr>event_schedule := filter (\<lambda>r. \<not> list_ex (\<lambda>s. slots_from i f s \<and> SlotID s = ScheduledSlot r) (event_slots d))
         (event_schedule d)\<rparr>"
  have inv1: "event_inv ?d1" by (rule inv_delete_schedule [OF inv])
  have "event_inv d2 \<and> d2 = drop_slots i f d" if "sql_delete_slots (slots_from i f) ?d1 = Inr (n, d2)" for n d2
    using inv_delete_slots [OF inv1 that] by (simp add: drop_slots_def list_ex_iff)
  then have del: "case sql_delete_slots (slots_from i f) ?d1 of Inl x \<Rightarrow> True
      | Inr (v, d') \<Rightarrow> event_inv d' \<and> d' = drop_slots i f d"
    by (auto split: sum.splits)
  show ?thesis
  proof (cases "length (filter (\<lambda>s. slots_from i f s \<and> IsLocked s) (event_slots d)) > 0")
    case True
    then show ?thesis unfolding daySlotsDeleteTx_def by (auto intro!: tx_wp simp: sql_select_def)
  next
    case False
    then have "\<forall>s \<in> set (event_slots d). slots_from i f s \<longrightarrow> \<not> IsLocked s" by (simp add: filter_empty_conv)
    with del post False show ?thesis
      unfolding daySlotsDeleteTx_def
      by (auto intro!: tx_wp simp: sql_select_def sql_delete_schedule_def sql_write_def split: sum.splits)
  qed
qed

lemma inv_delete_day:
  assumes inv: "event_inv d" and free: "\<forall>s \<in> set (event_slots d). SlotDay s \<noteq> i"
  shows "event_inv (d\<lparr>event_days := filter (\<lambda>y. DayID y \<noteq> i) (event_days d)\<rparr>)" (is "event_inv ?d")
proof -
  have ids: "day_ids ?d = day_ids d - {i}" by (auto simp: day_ids_def)
  have "slots_ok ?d" using inv free unfolding slots_ok_def ids by (simp add: inv_split slots_ok_def)
  moreover have "days_ok ?d" "days_content ?d"
    using inv by (simp_all add: inv_split days_ok_def days_content_def distinct_map_filterI)
  ultimately show ?thesis using inv by (simp add: inv_split)
qed

definition drop_day :: "int \<Rightarrow> database \<Rightarrow> database" where
  "drop_day i d = (drop_slots i 1 d)\<lparr>event_days := filter (\<lambda>y. DayID y \<noteq> i) (event_days d)\<rparr>"

lemma sql_delete_day_eq:
  assumes "event_inv d"
  shows "case sql_delete_day i d of Inl _ \<Rightarrow> True
    | Inr (n, d') \<Rightarrow> n = (if i \<in> day_ids d then 1 else 0)
        \<and> (i \<in> day_ids d \<longrightarrow> (\<forall>s \<in> set (event_slots d). SlotDay s \<noteq> i))
        \<and> d' = d\<lparr>event_days := filter (\<lambda>y. DayID y \<noteq> i) (event_days d)\<rparr>"
proof -
  have "length (filter (\<lambda>y. DayID y = i) (event_days d)) = (if i \<in> day_ids d then 1 else 0)"
    using assms by (simp add: length_filter_key inv_split days_ok_def day_ids_def)
  moreover have "filter (\<lambda>y. DayID y = i) (event_days d) \<noteq> [] \<longleftrightarrow> i \<in> day_ids d"
    by (auto simp: filter_empty_conv day_ids_def)
  ultimately show ?thesis by (auto simp: sql_delete_day_def Let_def list_ex_iff)
qed

lemma wp_deleteDay:
  assumes inv: "event_inv d"
    and post: "event_inv (drop_day i d) \<Longrightarrow> i \<in> day_ids d \<Longrightarrow>
      \<forall>s \<in> set (event_slots d). slots_from i 1 s \<longrightarrow> \<not> IsLocked s \<Longrightarrow>
      \<forall>s \<in> set (event_slots d). SlotDay s = i \<longrightarrow> 1 \<le> SlotIDX s \<Longrightarrow> Q () (drop_day i d)"
  shows "wp (deleteDayTx i) Q (\<lambda>_. True) d"
  unfolding deleteDayTx_def
proof (rule wp_bind, rule wp_daySlotsDelete [OF inv])
  let ?d1 = "drop_slots i 1 d"
  assume inv1: "event_inv ?d1" and unlocked: "\<forall>s \<in> set (event_slots d). slots_from i 1 s \<longrightarrow> \<not> IsLocked s"
  have fr: "day_ids ?d1 = day_ids d" "event_days ?d1 = event_days d" by (simp_all add: drop_slots_def day_ids_def)
  have all: "(\<forall>s \<in> set (event_slots ?d1). SlotDay s \<noteq> i) \<longleftrightarrow> (\<forall>s \<in> set (event_slots d). SlotDay s = i \<longrightarrow> 1 \<le> SlotIDX s)"
    by (auto simp: drop_slots_def slots_from_def)
  have "event_inv (drop_day i d)" if "\<forall>s \<in> set (event_slots ?d1). SlotDay s \<noteq> i"
    using inv_delete_day [OF inv1 that] by (simp add: drop_day_def fr)
  with sql_delete_day_eq [OF inv1, of i] post unlocked all
  show "wp (tx_bind (tx_at ''Deleting day from event_days'' (eq_exec (sql_delete_day i))) (\<lambda>rcount.
      if rcount = 0 then tx_fail ErrDayNotFound else if rcount > 1 then tx_fail ErrInternal else tx_return ()))
      Q (\<lambda>_. True) ?d1"
    by (auto intro!: tx_wp simp: fr drop_day_def split: sum.splits if_splits)
qed

section \<open>The slots of one day\<close>

definition slot_matches :: "TimetableSlot \<Rightarrow> Slot \<Rightarrow> bool" where
  "slot_matches ts s \<longleftrightarrow> SlotTime s = ttTime ts \<and> IsBreak s = ttIsBreak ts"

text \<open>A slot keeps the identifier and the lock of the slot that was there before; a new one is unlocked.\<close>

definition slot_from_old :: "Slot set \<Rightarrow> Slot \<Rightarrow> bool" where
  "slot_from_old old s' \<longleftrightarrow>
     (\<forall>s \<in> old. SlotIDX s = SlotIDX s' \<longrightarrow> SlotID s' = SlotID s \<and> IsLocked s' = IsLocked s) \<and>
     ((\<forall>s \<in> old. SlotIDX s \<noteq> SlotIDX s') \<longrightarrow> \<not> IsLocked s')"

definition slots_only :: "database \<Rightarrow> database \<Rightarrow> bool" where
  "slots_only d d' \<longleftrightarrow> (\<exists>x. d' = d\<lparr>event_slots := x\<rparr>)"

lemma slots_only_update: "slots_only d d' \<Longrightarrow> slots_only d (d'\<lparr>event_slots := y\<rparr>)"
  by (auto simp: slots_only_def)

text \<open>The state after \<open>p\<close> slots of day \<open>i\<close>, which had the indices 1 to \<open>m\<close> in \<open>d\<close>.\<close>

definition day_progress :: "database \<Rightarrow> int \<Rightarrow> TimetableSlot list \<Rightarrow> int \<Rightarrow> nat \<Rightarrow> database \<Rightarrow> bool" where
  "day_progress d i xs m p d' \<longleftrightarrow>
     event_inv d' \<and> slots_only d d' \<and> (\<forall>k. k \<noteq> i \<longrightarrow> day_slots d' k = day_slots d k)
     \<and> SlotIDX ` day_slots d' i = {1..max (int p) m}
     \<and> (\<forall>s' \<in> day_slots d' i. slot_from_old (day_slots d i) s' \<and>
          (SlotIDX s' \<le> int p \<longrightarrow> slot_matches (xs ! nat (SlotIDX s' - 1)) s'))"

lemma day_progress_update:
  assumes prog: "day_progress d i xs m p d'" and m: "int p + 1 \<le> m"
  shows "wp (timetableSlotUpdateTx i (int p + 1) (xs ! p)) (\<lambda>_ d''. day_progress d i xs m (Suc p) d'') (\<lambda>_. True) d'"
proof -
  let ?g = "\<lambda>s. if slot_key s = (i, int p + 1) then s\<lparr>SlotTime := ttTime (xs ! p), IsBreak := ttIsBreak (xs ! p)\<rparr> else s"
  let ?d = "d'\<lparr>event_slots := map ?g (event_slots d')\<rparr>"
  have g: "SlotID (?g s) = SlotID s" "slot_key (?g s) = slot_key s" "SlotIDX (?g s) = SlotIDX s"
    "SlotDay (?g s) = SlotDay s" "IsLocked (?g s) = IsLocked s" for s by (simp_all add: slot_key_def)
  have sl: "day_slots ?d k = ?g ` day_slots d' k" for k using g(4) by (auto simp: day_slots_def)
  have other: "day_slots ?d k = day_slots d' k" if "k \<noteq> i" for k
  proof -
    have "?g s = s" if "s \<in> day_slots d' k" for s using that \<open>k \<noteq> i\<close> by (auto simp: day_slots_def slot_key_def)
    then show ?thesis unfolding sl by force
  qed
  have idx: "SlotIDX ` day_slots ?d i = SlotIDX ` day_slots d' i" unfolding sl image_image g(3) ..
  have old: "slot_from_old (day_slots d i) (?g s) \<longleftrightarrow> slot_from_old (day_slots d i) s" for s
    by (simp add: slot_from_old_def g)
  have match: "slot_matches (xs ! nat (SlotIDX (?g s) - 1)) (?g s)"
    if "s \<in> day_slots d' i" "SlotIDX s \<le> int (Suc p)" for s
  proof (cases "SlotIDX s = int p + 1")
    case True
    with that(1) have "slot_key s = (i, int p + 1)" by (simp add: slot_key_def day_slots_def)
    with True show ?thesis by (simp add: slot_matches_def)
  next
    case False
    with that have "SlotIDX s \<le> int p" "?g s = s" by (simp_all add: slot_key_def)
    with prog that(1) show ?thesis by (simp add: day_progress_def)
  qed
  have inv: "event_inv ?d" by (rule inv_update_slots) (use prog g(1,2) in \<open>simp_all add: day_progress_def\<close>)
  have "day_progress d i xs m (Suc p) ?d"
    unfolding day_progress_def
  proof (intro conjI ballI)
    show "slots_only d ?d" using prog by (intro slots_only_update) (simp add: day_progress_def)
    show "\<forall>k. k \<noteq> i \<longrightarrow> day_slots ?d k = day_slots d k" using other prog by (simp add: day_progress_def)
    show "SlotIDX ` day_slots ?d i = {1..max (int (Suc p)) m}" using idx prog m by (simp add: day_progress_def)
    fix s' assume "s' \<in> day_slots ?d i"
    then obtain s where s: "s \<in> day_slots d' i" "s' = ?g s" by (auto simp: sl)
    show "slot_from_old (day_slots d i) s'" using prog s(1) unfolding s(2) old by (simp add: day_progress_def)
    show "SlotIDX s' \<le> int (Suc p) \<longrightarrow> slot_matches (xs ! nat (SlotIDX s' - 1)) s'"
      using match [OF s(1)] unfolding s(2) g(3) by blast
  qed (rule inv)
  then show ?thesis
    unfolding timetableSlotUpdateTx_def by (auto intro!: tx_wp simp: sql_update_slot_def)
qed

lemma day_progress_add:
  assumes prog: "day_progress d i xs m p d'" and m: "m < int p + 1" and p: "p < length xs"
    and old: "SlotIDX ` day_slots d i = {1..m}"
  shows "wp (timetableSlotAddTx i (int p + 1) (xs ! p)) (\<lambda>_ d''. day_progress d i xs m (Suc p) d'') (\<lambda>_. True) d'"
proof -
  have "day_progress d i xs m (Suc p) d''"
    if ins: "sql_insert_slot s d' = Inr (v, d'')" and s: "SlotIDX s = int p + 1" "SlotDay s = i"
      "SlotTime s = ttTime (xs ! p)" "IsBreak s = ttIsBreak (xs ! p)" "\<not> IsLocked s" for s v d''
  proof -
    have inv: "event_inv d'" using prog by (simp add: day_progress_def)
    note ins' = inv_insert_slot [OF inv ins]
    have sl: "day_slots d'' k = (if k = i then insert s (day_slots d' i) else day_slots d' k)" for k
      by (auto simp: ins'(2) day_slots_def s(2))
    have mx: "max (int p) m = int p" "max (int (Suc p)) m = int p + 1" using m by simp_all
    have "\<forall>t \<in> day_slots d i. SlotIDX t \<le> m" using old by (metis atLeastAtMost_iff image_eqI)
    then have new: "slot_from_old (day_slots d i) s"
      using m s(1,5) unfolding slot_from_old_def by fastforce
    show ?thesis
      unfolding day_progress_def
    proof (intro conjI ballI)
      show "event_inv d''" by (rule ins'(1))
      show "slots_only d d''"
        unfolding ins'(2) using prog by (intro slots_only_update) (simp add: day_progress_def)
      show "\<forall>k. k \<noteq> i \<longrightarrow> day_slots d'' k = day_slots d k" using prog by (simp add: sl day_progress_def)
      show "SlotIDX ` day_slots d'' i = {1..max (int (Suc p)) m}"
        using prog s(1) unfolding mx(2) by (auto simp: sl day_progress_def mx(1))
      fix s' assume "s' \<in> day_slots d'' i"
      then have cases: "s' = s \<or> s' \<in> day_slots d' i" by (auto simp: sl)
      show "slot_from_old (day_slots d i) s'" using cases new prog by (auto simp: day_progress_def)
      have "SlotIDX s' \<le> int p" if "s' \<in> day_slots d' i"
      proof -
        have "SlotIDX s' \<in> SlotIDX ` day_slots d' i" using that by simp
        then show ?thesis using prog mx(1) by (simp add: day_progress_def)
      qed
      then show "SlotIDX s' \<le> int (Suc p) \<longrightarrow> slot_matches (xs ! nat (SlotIDX s' - 1)) s'"
        using cases s prog by (auto simp: day_progress_def slot_matches_def)
    qed
  qed
  then show ?thesis
    unfolding timetableSlotAddTx_def by (auto intro!: tx_wp split: sum.splits)
qed

lemma wp_day_slots:
  assumes start: "day_progress d i xs m 0 d" and m: "m \<le> int (length xs)" "0 \<le> m"
    and f: "\<And>p. p < length xs \<Longrightarrow> f (int p + 1, xs ! p) =
      (if int p + 1 \<le> m then timetableSlotUpdateTx i (int p + 1) (xs ! p) else timetableSlotAddTx i (int p + 1) (xs ! p))"
  shows "wp (tx_each f (numbered xs)) (\<lambda>_ d'. day_progress d i xs m (length xs) d') (\<lambda>_. True) d"
proof (rule wp_numbered [where J = "day_progress d i xs m"])
  show "day_progress d i xs m 0 d" by (rule start)
  fix p d' assume p: "p < length xs" "day_progress d i xs m p d'"
  have "SlotIDX ` day_slots d i = {1..m}" using start m(2) by (simp add: day_progress_def)
  with p show "wp (f (int p + 1, xs ! p)) (\<lambda>_ d''. day_progress d i xs m (Suc p) d'') (\<lambda>_. True) d'"
    by (simp add: f day_progress_update day_progress_add)
qed

section \<open>One day\<close>

definition day_done :: "Slot set \<Rightarrow> TimetableSlot list \<Rightarrow> Slot set \<Rightarrow> bool" where
  "day_done old xs new \<longleftrightarrow> SlotIDX ` new = {1..int (length xs)} \<and>
     (\<forall>s' \<in> new. slot_from_old old s' \<and> slot_matches (xs ! nat (SlotIDX s' - 1)) s')"

definition other_tables :: "database \<Rightarrow> database \<Rightarrow> bool" where
  "other_tables d d' \<longleftrightarrow> event_users d' = event_users d \<and> event_discussions d' = event_discussions d
     \<and> event_interest d' = event_interest d \<and> event_locations d' = event_locations d
     \<and> event_discussions_possible_slots d' = event_discussions_possible_slots d"

lemma other_tables_trans: "other_tables d d1 \<Longrightarrow> other_tables d1 d2 \<Longrightarrow> other_tables d d2"
  by (simp add: other_tables_def)

text \<open>What storing one day of a timetable does.\<close>

definition day_step :: "database \<Rightarrow> int \<Rightarrow> string \<Rightarrow> TimetableSlot list \<Rightarrow> database \<Rightarrow> bool" where
  "day_step d i name xs d' \<longleftrightarrow> event_inv d' \<and> other_tables d d' \<and> day_ids d' = insert i (day_ids d)
     \<and> (\<forall>y \<in> set (event_days d'). if DayID y = i then DayName y = name else y \<in> set (event_days d))
     \<and> (\<forall>k. k \<noteq> i \<longrightarrow> day_slots d' k = day_slots d k)
     \<and> day_done (day_slots d i) xs (day_slots d' i)
     \<and> (\<forall>s \<in> day_slots d i. IsLocked s \<longrightarrow> SlotIDX s \<le> int (length xs))
     \<and> event_schedule d' = filter (\<lambda>r. \<forall>s \<in> day_slots d i. SlotID s = ScheduledSlot r \<longrightarrow> SlotIDX s \<le> int (length xs))
         (event_schedule d)"

lemma slot_from_old_cut:
  assumes "slot_from_old {s \<in> old. SlotIDX s \<le> l} s'" and "SlotIDX s' \<le> l"
  shows "slot_from_old old s'"
  using assms by (auto simp: slot_from_old_def)

lemma day_progress_start:
  assumes "event_inv d" and "SlotIDX ` day_slots d i = {1..m}" and "0 \<le> m"
  shows "day_progress d i xs m 0 d"
proof -
  have same: "s = s'" if "s \<in> day_slots d i" "s' \<in> day_slots d i" "SlotIDX s = SlotIDX s'" for s s'
  proof -
    have "slot_key s = slot_key s'" using that by (simp add: day_slots_def slot_key_def)
    then show ?thesis using that assms(1)
      by (auto simp: day_slots_def inv_split slots_ok_def distinct_map dest: inj_onD)
  qed
  have "slot_from_old (day_slots d i) s'" if "s' \<in> day_slots d i" for s'
    unfolding slot_from_old_def using that same by blast
  moreover have "\<not> SlotIDX s' \<le> 0" if "s' \<in> day_slots d i" for s'
    using that assms(2) by (metis atLeastAtMost_iff imageI int_one_le_iff_zero_less not_le)
  ultimately show ?thesis
    using assms by (auto simp: day_progress_def slots_only_def intro: exI [of _ "event_slots d"])
qed

lemma sql_max_range:
  assumes "set xs = {1..n}" and "0 \<le> n"
  shows "sql_max xs = n"
proof (cases "n = 0")
  case True
  with assms show ?thesis by (simp add: sql_max_def)
next
  case False
  with assms have "1 \<le> n" by simp
  then have "Max {1..n} = n" by (intro Max_eqI) auto
  moreover have "xs \<noteq> []" using assms \<open>1 \<le> n\<close> by auto
  ultimately show ?thesis using assms(1) by (simp add: sql_max_def)
qed

lemma day_slots_frame [simp]:
  "day_slots (d\<lparr>event_days := x\<rparr>) i = day_slots d i" "day_slots (d\<lparr>event_schedule := y\<rparr>) i = day_slots d i"
  by (simp_all add: day_slots_def)

lemma inv_update_day:
  assumes inv: "event_inv d" and name: "name \<noteq> ''''"
  shows "event_inv (d\<lparr>event_days := map (\<lambda>x. if DayID x = i then x\<lparr>DayName := name\<rparr> else x) (event_days d)\<rparr>)"
    (is "event_inv ?d")
proof -
  let ?g = "\<lambda>x. x\<lparr>DayName := name\<rparr>"
  have ids: "day_ids ?d = day_ids d"
    unfolding day_ids_def using image_key_update [of "\<lambda>x. DayID x = i" DayID ?g] by (simp del: set_map)
  have "slots_ok ?d" using inv unfolding slots_ok_def ids by (simp add: inv_split slots_ok_def)
  moreover have "days_ok ?d" "days_content ?d"
    using inv name by (auto simp: inv_split days_ok_def days_content_def)
  ultimately show ?thesis using inv by (simp add: inv_split)
qed

lemma inv_insert_day:
  assumes inv: "event_inv d" and ins: "sql_insert_day y d = Inr (v, d')" and y: "1 \<le> DayID y" "DayName y \<noteq> ''''"
  shows "event_inv d'" and "d' = d\<lparr>event_days := event_days d @ [y]\<rparr>" and "DayID y \<notin> day_ids d"
proof -
  from ins show d': "d' = d\<lparr>event_days := event_days d @ [y]\<rparr>" and new: "DayID y \<notin> day_ids d"
    by (auto simp: sql_insert_day_def split: if_splits)
  have ids: "day_ids d' = insert (DayID y) (day_ids d)" by (simp add: d' day_ids_def)
  have "slots_ok d'" using inv unfolding slots_ok_def ids by (simp add: d' inv_split slots_ok_def)
  moreover have "days_ok d'" "days_content d'"
    using inv new y by (simp_all add: d' inv_split days_ok_def days_content_def day_ids_def)
  ultimately show "event_inv d'" using inv by (simp add: d' inv_split)
qed

text \<open>Once the slots are done, the day is.\<close>

lemma day_progress_done:
  assumes prog: "day_progress d2 i xs m (length xs) d'" and m: "m \<le> int (length xs)"
    and cut: "day_slots d2 i = {s \<in> day_slots d i. SlotIDX s \<le> int (length xs)}"
  shows "day_done (day_slots d i) xs (day_slots d' i)"
proof -
  have idx: "SlotIDX ` day_slots d' i = {1..int (length xs)}" using prog m by (simp add: day_progress_def)
  have "slot_from_old (day_slots d i) s' \<and> slot_matches (xs ! nat (SlotIDX s' - 1)) s'" if "s' \<in> day_slots d' i" for s'
  proof -
    have le: "SlotIDX s' \<le> int (length xs)" using that idx by (metis atLeastAtMost_iff imageI)
    have "slot_from_old {s \<in> day_slots d i. SlotIDX s \<le> int (length xs)} s'"
      using prog that by (simp add: day_progress_def cut)
    from slot_from_old_cut [OF this le] le prog that show ?thesis by (simp add: day_progress_def)
  qed
  with idx show ?thesis by (simp add: day_done_def)
qed

lemma day_progress_frame:
  assumes "day_progress d2 i xs m p d'"
  shows "event_inv d'" and "other_tables d2 d'" and "day_ids d' = day_ids d2" and "event_days d' = event_days d2"
    and "event_schedule d' = event_schedule d2" and "k \<noteq> i \<Longrightarrow> day_slots d' k = day_slots d2 k"
  using assms by (auto simp: day_progress_def slots_only_def other_tables_def day_ids_def)

lemma wp_timetableDayAdd:
  assumes inv: "event_inv d" and i: "1 \<le> i" and name: "name \<noteq> ''''" and none: "day_slots d i = {}"
  shows "wp (timetableDayAddTx \<lparr>DayID = i, DayName = name\<rparr> xs) (\<lambda>_ d'. day_step d i name xs d') (\<lambda>_. True) d"
proof -
  let ?y = "\<lparr>DayID = i, DayName = name\<rparr>"
  have slots: "wp (tx_each (\<lambda>(i1, slot). timetableSlotAddTx (DayID ?y) i1 slot) (numbered xs))
      (\<lambda>_ d'. day_step d i name xs d') (\<lambda>_. True) d1" if ins: "sql_insert_day ?y d = Inr (v, d1)" for v d1
  proof -
    note d1 = inv_insert_day [OF inv ins, simplified, OF i name]
    have none1: "day_slots d1 i = {}" using none by (simp add: d1(2))
    have start: "day_progress d1 i xs 0 0 d1" by (rule day_progress_start) (simp_all add: d1(1) none1)
    have "day_step d i name xs d'" if prog: "day_progress d1 i xs 0 (length xs) d'" for d'
    proof -
      note fr = day_progress_frame [OF prog]
      have "day_done (day_slots d i) xs (day_slots d' i)"
        by (rule day_progress_done [OF prog]) (simp_all add: none none1)
      moreover have "other_tables d d1" "event_schedule d1 = event_schedule d" "day_ids d1 = insert i (day_ids d)"
        "event_days d1 = event_days d @ [?y]" "\<And>k. day_slots d1 k = day_slots d k"
        by (simp_all add: d1(2) other_tables_def day_ids_def)
      moreover have "y \<in> set (event_days d) \<Longrightarrow> DayID y \<noteq> i" for y using d1(3) by (auto simp: day_ids_def)
      ultimately show ?thesis
        using fr none by (auto simp: day_step_def intro: other_tables_trans)
    qed
    then show ?thesis by (intro wp_mono [OF wp_day_slots [OF start]]) simp_all
  qed
  then show ?thesis
    unfolding timetableDayAddTx_def dayAddTx_def by (auto intro!: tx_wp split: sum.splits)
qed

lemma wp_timetableDayUpdate:
  assumes inv: "event_inv d" and i: "i \<in> day_ids d" and name: "name \<noteq> ''''"
    and idx: "SlotIDX ` day_slots d i = {1..m}" "0 \<le> m"
  shows "wp (timetableDayUpdateTx \<lparr>DayID = i, DayName = name\<rparr> xs) (\<lambda>_ d'. day_step d i name xs d') (\<lambda>_. True) d"
proof -
  let ?l = "int (length xs)"
  let ?d1 = "d\<lparr>event_days := map (\<lambda>x. if DayID x = i then x\<lparr>DayName := name\<rparr> else x) (event_days d)\<rparr>"
  have inv1: "event_inv ?d1" by (rule inv_update_day [OF inv name])
  have ids1: "day_ids ?d1 = day_ids d"
    unfolding day_ids_def using image_key_update [of "\<lambda>x. DayID x = i" DayID "\<lambda>x. x\<lparr>DayName := name\<rparr>"]
    by (simp del: set_map)
  have days1: "if DayID y = i then DayName y = name else y \<in> set (event_days d)" if "y \<in> set (event_days ?d1)" for y
    using that by auto
  have "set (map SlotIDX (filter (\<lambda>s. SlotDay s = i) (event_slots d))) = SlotIDX ` day_slots d i"
    by (simp add: day_slots_def)
  then have max: "sql_max (map SlotIDX (filter (\<lambda>s. SlotDay s = i) (event_slots d))) = m"
    using idx by (intro sql_max_range) simp_all
  let ?d2 = "if m > ?l then drop_slots i (?l + 1) ?d1 else ?d1"
  let ?unlocked = "\<forall>s \<in> day_slots d i. IsLocked s \<longrightarrow> SlotIDX s \<le> ?l"
  let ?f = "\<lambda>(slotIdx, slot). if slotIdx - 1 < m then timetableSlotUpdateTx i slotIdx slot
      else timetableSlotAddTx i slotIdx slot"
  have le: "SlotIDX s \<le> m" if "s \<in> day_slots d i" for s using that idx(1) by (metis atLeastAtMost_iff imageI)
  have cut: "day_slots ?d2 i = {s \<in> day_slots d i. SlotIDX s \<le> ?l}"
    using le by (force simp: drop_slots_def day_slots_def slots_from_def)
  have other: "day_slots ?d2 k = day_slots d k" if "k \<noteq> i" for k
    using that by (auto simp: drop_slots_def day_slots_def slots_from_def)
  have sched: "event_schedule ?d2 = filter (\<lambda>r. \<forall>s \<in> day_slots d i. SlotID s = ScheduledSlot r \<longrightarrow> SlotIDX s \<le> ?l) (event_schedule d)"
  proof (cases "m > ?l")
    case True
    then show ?thesis by (auto simp: drop_slots_def slots_from_def day_slots_def intro!: filter_cong)
  next
    case False
    then have "\<forall>s \<in> day_slots d i. SlotIDX s \<le> ?l" using le by force
    with False show ?thesis by (simp add: filter_True [symmetric])
  qed
  have idx2: "SlotIDX ` day_slots ?d2 i = {1..min m ?l}"
    unfolding cut using idx(1) by (auto simp: image_iff) (metis atLeastAtMost_iff imageE)
  have loop: "wp (tx_each ?f (numbered xs)) (\<lambda>_ d'. day_step d i name xs d') (\<lambda>_. True) ?d2"
    if inv2: "event_inv ?d2" and unlocked: ?unlocked
  proof -
    have start: "day_progress ?d2 i xs (min m ?l) 0 ?d2" by (rule day_progress_start [OF inv2 idx2]) (use idx in simp)
    have "day_step d i name xs d'" if prog: "day_progress ?d2 i xs (min m ?l) (length xs) d'" for d'
    proof -
      note fr = day_progress_frame [OF prog]
      have "day_done (day_slots d i) xs (day_slots d' i)" by (rule day_progress_done [OF prog _ cut]) simp
      moreover have d2: "other_tables d ?d2" "day_ids ?d2 = day_ids d" "event_days ?d2 = event_days ?d1"
        using ids1 by (auto simp: other_tables_def drop_slots_def day_ids_def)
      moreover have "other_tables d d'" by (rule other_tables_trans [OF d2(1) fr(2)])
      moreover have "day_ids d' = insert i (day_ids d)" using fr(3) d2(2) i by auto
      moreover have "\<forall>k. k \<noteq> i \<longrightarrow> day_slots d' k = day_slots d k" using fr(6) other by simp
      moreover have "\<forall>y \<in> set (event_days d'). if DayID y = i then DayName y = name else y \<in> set (event_days d)"
        using days1 fr(4) d2(3) by metis
      ultimately show ?thesis
        unfolding day_step_def using fr(1) unlocked fr(5) sched by (simp only: simp_thms)
    qed
    then show ?thesis
      by (intro wp_mono [OF wp_day_slots [OF start]]) (use idx in auto)
  qed
  have del: "wp (if m > ?l then daySlotsDeleteTx i (?l + 1) else tx_return ())
      (\<lambda>_ d'. wp (tx_each ?f (numbered xs)) (\<lambda>_ d'. day_step d i name xs d') (\<lambda>_. True) d') (\<lambda>_. True) ?d1"
  proof (cases "m > ?l")
    case True
    have "wp (daySlotsDeleteTx i (?l + 1))
      (\<lambda>_ d'. wp (tx_each ?f (numbered xs)) (\<lambda>_ d'. day_step d i name xs d') (\<lambda>_. True) d') (\<lambda>_. True) ?d1"
    proof (rule wp_daySlotsDelete [OF inv1])
      assume "event_inv (drop_slots i (?l + 1) ?d1)"
        "\<forall>s \<in> set (event_slots ?d1). slots_from i (?l + 1) s \<longrightarrow> \<not> IsLocked s"
      then have "event_inv ?d2" and ?unlocked
        using True by (auto simp: slots_from_def day_slots_def)
      from loop [OF this] True
      show "wp (tx_each ?f (numbered xs)) (\<lambda>_ d'. day_step d i name xs d') (\<lambda>_. True) (drop_slots i (?l + 1) ?d1)" by simp
    qed
    with True show ?thesis by simp
  next
    case False
    moreover from this have ?unlocked using le by force
    ultimately show ?thesis using loop inv1 by (auto intro!: wp_return)
  qed
  have max1: "sql_max (map SlotIDX (filter (\<lambda>s. SlotDay s = i) (event_slots ?d1))) = m" by (simp add: max)
  show ?thesis
    unfolding timetableDayUpdateTx_def dayUpdateTx_def getMaxSlotIdx_def Day.select_convs
    by (intro wp_bind wp_at wp_exec, simp only: sql_write_def sum.case prod.case, rule wp_bind, rule wp_exec,
        simp only: sql_select_def sum.case prod.case max1, rule wp_bind, rule del)
qed

section \<open>The whole timetable\<close>

text \<open>
  The days have the identifiers 1 to some number, and so have the slots of every day. \<open>TimetableSet\<close>
  and \<open>NewDay\<close> keep it that way; \<open>DeleteDay\<close> on a day in the middle does not.
\<close>

definition contiguous :: "database \<Rightarrow> bool" where
  "contiguous d \<longleftrightarrow> (\<exists>n \<ge> 0. day_ids d = {1..n}) \<and> (\<forall>i. \<exists>m \<ge> 0. SlotIDX ` day_slots d i = {1..m})"

text \<open>Whether a slot of the old timetable is left once the first \<open>k\<close> days of the new one are stored.\<close>

definition slot_kept :: "TimetableDay list \<Rightarrow> nat \<Rightarrow> Slot \<Rightarrow> bool" where
  "slot_kept ds k s \<longleftrightarrow> SlotDay s \<le> int (length ds) \<and>
     (SlotDay s \<le> int k \<longrightarrow> SlotIDX s \<le> int (length (ttSlots (ds ! nat (SlotDay s - 1)))))"

definition tt_progress :: "database \<Rightarrow> int \<Rightarrow> TimetableDay list \<Rightarrow> nat \<Rightarrow> database \<Rightarrow> bool" where
  "tt_progress d n ds k d' \<longleftrightarrow> event_inv d' \<and> other_tables d d'
     \<and> day_ids d' = {1..max (int k) (min n (int (length ds)))}
     \<and> (\<forall>y \<in> set (event_days d'). DayID y \<le> int k \<longrightarrow> DayName y = ttDayName (ds ! nat (DayID y - 1)))
     \<and> (\<forall>i > int k. day_slots d' i = (if i \<le> int (length ds) then day_slots d i else {}))
     \<and> (\<forall>i \<in> {1..int k}. day_done (day_slots d i) (ttSlots (ds ! nat (i - 1))) (day_slots d' i))
     \<and> event_schedule d' = filter (\<lambda>r. \<forall>s \<in> set (event_slots d). SlotID s = ScheduledSlot r \<longrightarrow> slot_kept ds k s)
         (event_schedule d)
     \<and> (\<forall>s \<in> set (event_slots d). IsLocked s \<longrightarrow> slot_kept ds k s)"

text \<open>The days above the new last one are deleted one after the other.\<close>

definition cut_days :: "int \<Rightarrow> int \<Rightarrow> database \<Rightarrow> database" where
  "cut_days l k d =
     d\<lparr>event_days := filter (\<lambda>y. \<not> (l < DayID y \<and> DayID y < k)) (event_days d),
       event_slots := filter (\<lambda>s. \<not> (l < SlotDay s \<and> SlotDay s < k)) (event_slots d),
       event_schedule := filter (\<lambda>r. \<forall>s \<in> set (event_slots d). SlotID s = ScheduledSlot r \<longrightarrow> \<not> (l < SlotDay s \<and> SlotDay s < k))
         (event_schedule d)\<rparr>"

lemma cut_days_start:
  assumes "k \<le> l + 1"
  shows "cut_days l k d = d"
proof -
  have none: "\<not> (l < x \<and> x < k)" for x :: int using assms by simp
  show ?thesis unfolding cut_days_def by (simp only: none filter_True simp_thms) simp
qed

lemma cut_days_step:
  assumes "l < k" and idx: "\<forall>s \<in> set (event_slots d). SlotDay s = k \<longrightarrow> 1 \<le> SlotIDX s"
  shows "drop_day k (cut_days l k d) = cut_days l (k + 1) d"
proof (rule database.equality)
  show "event_days (drop_day k (cut_days l k d)) = event_days (cut_days l (k + 1) d)"
    using assms(1) by (auto simp: drop_day_def cut_days_def intro!: filter_cong)
  show "event_slots (drop_day k (cut_days l k d)) = event_slots (cut_days l (k + 1) d)"
    using assms by (auto simp: drop_day_def drop_slots_def cut_days_def slots_from_def intro!: filter_cong)
  have "(\<forall>s \<in> set (event_slots d). SlotID s = x \<longrightarrow> \<not> (l < SlotDay s \<and> SlotDay s < k)) \<and>
      \<not> (\<exists>s \<in> set (filter (\<lambda>s. \<not> (l < SlotDay s \<and> SlotDay s < k)) (event_slots d)). slots_from k 1 s \<and> SlotID s = x)
      \<longleftrightarrow> (\<forall>s \<in> set (event_slots d). SlotID s = x \<longrightarrow> \<not> (l < SlotDay s \<and> SlotDay s < k + 1))"
    (is "?a \<and> \<not> ?b \<longleftrightarrow> ?c") for x
  proof -
    have lt: "y < k + 1 \<longleftrightarrow> y < k \<or> y = k" for y :: int by linarith
    have b: "?b \<longleftrightarrow> (\<exists>s \<in> set (event_slots d). SlotDay s = k \<and> SlotID s = x)"
      using idx unfolding slots_from_def by auto
    show ?thesis unfolding b lt using assms(1) by blast
  qed
  then show "event_schedule (drop_day k (cut_days l k d)) = event_schedule (cut_days l (k + 1) d)"
    by (auto simp: drop_day_def drop_slots_def cut_days_def intro!: filter_cong)
qed (simp_all add: drop_day_def drop_slots_def cut_days_def)

lemma wp_delete_days:
  assumes inv: "event_inv d" and cont: "contiguous d" and n: "day_ids d = {1..n}"
  shows "wp (tx_each deleteDayTx [l + 1..n])
    (\<lambda>_ d'. event_inv d' \<and> d' = cut_days l (n + 1) d \<and> (\<forall>s \<in> set (event_slots d). IsLocked s \<longrightarrow> SlotDay s \<le> l))
    (\<lambda>_. True) d"
proof -
  let ?J = "\<lambda>k d'. event_inv d' \<and> d' = cut_days l k d \<and> (\<forall>s \<in> set (event_slots d). IsLocked s \<longrightarrow> \<not> (l < SlotDay s \<and> SlotDay s < k))"
  have idx: "1 \<le> SlotIDX s" if "s \<in> set (event_slots d)" for s
  proof -
    obtain m where "SlotIDX ` day_slots d (SlotDay s) = {1..m}" using cont unfolding contiguous_def by blast
    moreover have "s \<in> day_slots d (SlotDay s)" using that by (simp add: day_slots_def)
    ultimately show ?thesis by (metis atLeastAtMost_iff imageI)
  qed
  have days: "SlotDay s \<le> n" if "s \<in> set (event_slots d)" for s
    using that inv n by (auto simp: inv_split slots_ok_def)
  have "wp (tx_each deleteDayTx [l + 1..n]) (\<lambda>_ d'. ?J (n + 1) d') (\<lambda>_. True) d" if l: "l \<le> n"
  proof (rule wp_upto [where J = ?J])
    show "?J (l + 1) d" using inv by (auto simp: cut_days_start)
    fix k d' assume k: "l + 1 \<le> k" "k \<le> n" and J: "?J k d'"
    show "wp (deleteDayTx k) (\<lambda>_ d''. ?J (k + 1) d'') (\<lambda>_. True) d'"
    proof (rule wp_deleteDay)
      show "event_inv d'" using J by blast
      assume i: "event_inv (drop_day k d')" and un: "\<forall>s \<in> set (event_slots d'). slots_from k 1 s \<longrightarrow> \<not> IsLocked s"
      have d': "d' = cut_days l k d" using J by blast
      have free: "\<not> IsLocked s" if s: "s \<in> set (event_slots d)" "SlotDay s = k" for s
      proof -
        have "s \<in> set (event_slots d')" "slots_from k 1 s"
          using s idx [OF s(1)] by (simp_all add: d' cut_days_def slots_from_def)
        with un show ?thesis by blast
      qed
      have "drop_day k d' = cut_days l (k + 1) d" unfolding d' using k idx by (intro cut_days_step) simp_all
      moreover have "\<forall>s \<in> set (event_slots d). IsLocked s \<longrightarrow> \<not> (l < SlotDay s \<and> SlotDay s < k + 1)"
        using J free by (metis zless_add1_eq)
      ultimately show "?J (k + 1) (drop_day k d')" using i by simp
    qed
  qed (use l in simp)
  moreover have "wp (tx_each deleteDayTx [l + 1..n]) (\<lambda>_ d'. ?J (n + 1) d') (\<lambda>_. True) d" if "n < l"
    using that inv by (auto simp: cut_days_start intro!: wp_return)
  ultimately have "wp (tx_each deleteDayTx [l + 1..n]) (\<lambda>_ d'. ?J (n + 1) d') (\<lambda>_. True) d" by linarith
  then show ?thesis using days by (elim wp_mono) force+
qed

lemma tt_progress_start:
  assumes inv: "event_inv d" "event_inv (cut_days l (n + 1) d)" and n: "day_ids d = {1..n}" and l: "l = int (length ds)"
    and locked: "\<forall>s \<in> set (event_slots d). IsLocked s \<longrightarrow> SlotDay s \<le> l"
  shows "tt_progress d n ds 0 (cut_days l (n + 1) d)"
proof -
  let ?d = "cut_days l (n + 1) d"
  have days: "1 \<le> SlotDay s \<and> SlotDay s \<le> n" if "s \<in> set (event_slots d)" for s
    using that inv(1) n by (auto simp: inv_split slots_ok_def)
  have kept: "slot_kept ds 0 s \<longleftrightarrow> SlotDay s \<le> l" if "s \<in> set (event_slots d)" for s
    using days [OF that] by (simp add: slot_kept_def l)
  have "day_ids ?d = {i \<in> day_ids d. \<not> (l < i \<and> i < n + 1)}" by (auto simp: day_ids_def cut_days_def)
  moreover have "(i \<in> {1..n} \<and> \<not> (l < i \<and> i < n + 1)) = (i \<in> {1..min n l})" for i
    unfolding atLeastAtMost_iff min_def by presburger
  ultimately have ids: "day_ids ?d = {1..min n l}" unfolding n by blast
  have "day_slots ?d i = (if i \<le> l then day_slots d i else {})" if "i > 0" for i
    using days by (force simp: day_slots_def cut_days_def)
  moreover have "event_schedule ?d
      = filter (\<lambda>r. \<forall>s \<in> set (event_slots d). SlotID s = ScheduledSlot r \<longrightarrow> slot_kept ds 0 s) (event_schedule d)"
  proof -
    have "(\<not> (l < SlotDay s \<and> SlotDay s < n + 1)) = slot_kept ds 0 s" if "s \<in> set (event_slots d)" for s
      using days [OF that] kept [OF that] by linarith
    then show ?thesis by (simp add: cut_days_def)
  qed
  moreover have "\<not> DayID y \<le> 0" if "y \<in> set (event_days ?d)" for y
  proof -
    have "DayID y \<in> day_ids ?d" using that by (simp add: day_ids_def)
    then show ?thesis by (simp add: ids)
  qed
  ultimately show ?thesis
    using inv(2) ids locked kept by (auto simp: tt_progress_def l other_tables_def cut_days_def)
qed

lemma slot_kept_Suc:
  "slot_kept ds (Suc k) s \<longleftrightarrow>
    slot_kept ds k s \<and> (SlotDay s = int k + 1 \<longrightarrow> SlotIDX s \<le> int (length (ttSlots (ds ! k))))"
  by (cases "SlotDay s = int k + 1") (auto simp: slot_kept_def)

text \<open>Storing day \<open>k + 1\<close> takes the timetable one day further.\<close>

lemma tt_progress_step:
  assumes prog: "tt_progress d n ds k d'" and k: "k < length ds"
    and step: "day_step d' (int k + 1) (ttDayName (ds ! k)) (ttSlots (ds ! k)) d''"
  shows "tt_progress d n ds (Suc k) d''"
proof -
  let ?i = "int k + 1" and ?L = "int (length (ttSlots (ds ! k)))"
  note P = prog [unfolded tt_progress_def] and S = step [unfolded day_step_def]
  have same: "day_slots d' ?i = day_slots d ?i" using P k by simp
  show ?thesis
    unfolding tt_progress_def
  proof (intro conjI)
    show "event_inv d''" using S by blast
    show "other_tables d d''" using P S other_tables_trans by blast
    have "day_ids d'' = insert ?i {1..max (int k) (min n (int (length ds)))}" using P S by simp
    moreover have "(i = ?i \<or> i \<in> {1..max (int k) j}) = (i \<in> {1..max (int (Suc k)) j})" if "j \<le> int (length ds)" for i j
      unfolding atLeastAtMost_iff max_def using k that by presburger
    ultimately show "day_ids d'' = {1..max (int (Suc k)) (min n (int (length ds)))}"
      by (simp add: set_eq_iff)
    show "\<forall>y \<in> set (event_days d''). DayID y \<le> int (Suc k) \<longrightarrow> DayName y = ttDayName (ds ! nat (DayID y - 1))"
    proof (intro ballI impI)
      fix y assume y: "y \<in> set (event_days d'')" "DayID y \<le> int (Suc k)"
      show "DayName y = ttDayName (ds ! nat (DayID y - 1))"
      proof (cases "DayID y = ?i")
        case True
        then show ?thesis using S y(1) by simp
      next
        case False
        then have "y \<in> set (event_days d')" "DayID y \<le> int k" using S y by auto
        then show ?thesis using P by simp
      qed
    qed
    show "\<forall>i > int (Suc k). day_slots d'' i = (if i \<le> int (length ds) then day_slots d i else {})" using P S by simp
    show "\<forall>i \<in> {1..int (Suc k)}. day_done (day_slots d i) (ttSlots (ds ! nat (i - 1))) (day_slots d'' i)"
    proof
      fix i assume i: "i \<in> {1..int (Suc k)}"
      show "day_done (day_slots d i) (ttSlots (ds ! nat (i - 1))) (day_slots d'' i)"
        using i P S same by (cases "i = ?i") simp_all
    qed
    have kept: "(\<forall>s \<in> set (event_slots d). SlotID s = x \<longrightarrow> slot_kept ds k s) \<and>
        (\<forall>s \<in> day_slots d ?i. SlotID s = x \<longrightarrow> SlotIDX s \<le> ?L)
        \<longleftrightarrow> (\<forall>s \<in> set (event_slots d). SlotID s = x \<longrightarrow> slot_kept ds (Suc k) s)" for x
      unfolding slot_kept_Suc day_slots_def by blast
    show "event_schedule d'' = filter (\<lambda>r. \<forall>s \<in> set (event_slots d). SlotID s = ScheduledSlot r \<longrightarrow> slot_kept ds (Suc k) s)
        (event_schedule d)"
      using P S same kept by (simp add: conj_commute)
    show "\<forall>s \<in> set (event_slots d). IsLocked s \<longrightarrow> slot_kept ds (Suc k) s"
    proof (intro ballI impI)
      fix s assume s: "s \<in> set (event_slots d)" "IsLocked s"
      have "SlotIDX s \<le> ?L" if "SlotDay s = ?i" using S s that by (simp add: same) (simp add: day_slots_def)
      then show "slot_kept ds (Suc k) s" using P s by (simp add: slot_kept_Suc)
    qed
  qed
qed

lemma wp_timetableSet_day:
  assumes cont: "contiguous d" and inv: "event_inv d" and n: "day_ids d = {1..n}"
    and prog: "tt_progress d n ds k d'" and k: "k < length ds"
  shows "wp (timetableSet_day (min n (int (length ds))) (int k + 1, ds ! k))
    (\<lambda>_ d''. tt_progress d n ds (Suc k) d'') (\<lambda>_. True) d'"
proof -
  let ?i = "int k + 1" and ?td = "ds ! k"
  let ?y = "\<lparr>DayID = ?i, DayName = ttDayName ?td\<rparr>"
  have inv': "event_inv d'" and ids: "day_ids d' = {1..max (int k) (min n (int (length ds)))}"
    and same: "day_slots d' ?i = day_slots d ?i" using prog k by (simp_all add: tt_progress_def)
  obtain m where m: "0 \<le> m" "SlotIDX ` day_slots d' ?i = {1..m}" using cont same unfolding contiguous_def by metis
  have update: "wp (timetableDayUpdateTx ?y (ttSlots ?td)) (\<lambda>_ d''. tt_progress d n ds (Suc k) d'') (\<lambda>_. True) d'"
    if "ttDayName ?td \<noteq> ''''" "?i \<le> min n (int (length ds))"
    by (intro wp_mono [OF wp_timetableDayUpdate [OF inv' _ that(1) m(2,1)]] tt_progress_step [OF prog k])
      (use that ids in auto)
  have "day_slots d' ?i = {}" if "n < ?i"
    unfolding same using that inv n by (force simp: inv_split slots_ok_def day_slots_def)
  then have add: "wp (timetableDayAddTx ?y (ttSlots ?td)) (\<lambda>_ d''. tt_progress d n ds (Suc k) d'') (\<lambda>_. True) d'"
    if "ttDayName ?td \<noteq> ''''" "n < ?i"
    by (intro wp_mono [OF wp_timetableDayAdd [OF inv' _ that(1)]] tt_progress_step [OF prog k]) (use that in auto)
  show ?thesis
    unfolding timetableSet_day_def using update add k
    by (auto intro!: tx_wp simp: Let_def checkDayParams_def split: option.splits)
qed

lemma sql_max_days: "day_ids d = {1..n} \<Longrightarrow> 0 \<le> n \<Longrightarrow> sql_max (map DayID (event_days d)) = n"
  by (rule sql_max_range) (simp_all add: day_ids_def)

lemma wp_timetableSet:
  assumes inv: "event_inv d" and cont: "contiguous d" and n: "day_ids d = {1..n}" "0 \<le> n"
  shows "wp (timetableSetTx tt) (\<lambda>_ d'. tt_progress d n (Days tt) (length (Days tt)) d') (\<lambda>_. True) d"
proof -
  let ?ds = "Days tt" and ?l = "int (length (Days tt))"
  have "wp (tx_each (timetableSet_day (min n ?l)) (numbered ?ds)) (\<lambda>_ d'. tt_progress d n ?ds (length ?ds) d') (\<lambda>_. True) d'"
    if "tt_progress d n ?ds 0 d'" for d'
    by (rule wp_numbered [where J = "tt_progress d n ?ds", OF that]) (rule wp_timetableSet_day [OF cont inv n(1)])
  moreover have "(if n > ?l then ?l else n) = min n ?l" by simp
  ultimately have "wp (tx_bind (tx_each deleteDayTx [?l + 1..n]) (\<lambda>_.
      tx_each (timetableSet_day (if n > ?l then ?l else n)) (numbered ?ds)))
      (\<lambda>_ d'. tt_progress d n ?ds (length ?ds) d') (\<lambda>_. True) d"
    by (intro wp_bind wp_mono [OF wp_delete_days [OF inv cont n(1)]]) (auto intro!: tt_progress_start inv n)
  then show ?thesis
    unfolding timetableSetTx_def getMaxDay_def
    by (intro wp_bind wp_exec, simp only: sql_select_def sum.case prod.case sql_max_days [OF n])
qed

text \<open>
  The timetable as the users see it: the days in order with their names, and for each the times of
  its slots in order with the mark of a break.
\<close>

definition stored_timetable :: "database \<Rightarrow> (string \<times> (gotime \<times> bool) list) list" where
  "stored_timetable d = map (\<lambda>y. (DayName y,
     map (\<lambda>s. (SlotTime s, IsBreak s)) (sort_key SlotIDX (filter (\<lambda>s. SlotDay s = DayID y) (event_slots d)))))
     (sort_key DayID (event_days d))"

definition timetable_plan :: "Timetable \<Rightarrow> (string \<times> (gotime \<times> bool) list) list" where
  "timetable_plan tt = map (\<lambda>td. (ttDayName td, map (\<lambda>ts. (ttTime ts, ttIsBreak ts)) (ttSlots td))) (Days tt)"

text \<open>Whether the place of a slot, its day and its index, exists in a timetable.\<close>

definition has_place :: "Timetable \<Rightarrow> Slot \<Rightarrow> bool" where
  "has_place tt s \<longleftrightarrow> SlotDay s \<le> int (length (Days tt)) \<and>
     SlotIDX s \<le> int (length (ttSlots (Days tt ! nat (SlotDay s - 1))))"

lemma map_sorted_range:
  fixes k :: "'a \<Rightarrow> int"
  assumes dist: "distinct (map k xs)" and range: "k ` set xs = {1..int (length ys)}"
    and fg: "\<And>x. x \<in> set xs \<Longrightarrow> f x = g (ys ! nat (k x - 1))"
  shows "map f (sort_key k xs) = map g ys"
proof -
  let ?s = "sort_key k xs"
  have "distinct (map k ?s)" using dist by (simp add: distinct_map)
  moreover have "set (map k ?s) = set [1..int (length ys)]" using range by simp
  ultimately have keys: "map k ?s = [1..int (length ys)]"
    by (intro sorted_distinct_set_unique) (simp_all add: sorted_sort_key)
  have len: "length ?s = length ys" using arg_cong [OF keys, of length] by simp
  show ?thesis
  proof (rule nth_equalityI)
    show "length (map f ?s) = length (map g ys)" using len by simp
  next
    fix p assume "p < length (map f ?s)"
    then have p: "p < length ?s" "p < length ys" using len by simp_all
    then have "k (?s ! p) = int p + 1" using arg_cong [OF keys, of "\<lambda>l. l ! p"] by simp
    moreover have "?s ! p \<in> set xs" using p(1) nth_mem [of p ?s] by simp
    ultimately have "f (?s ! p) = g (ys ! p)" using fg by force
    with p show "map f ?s ! p = map g ys ! p" by simp
  qed
qed

lemma distinct_day_slots:
  assumes "event_inv d"
  shows "distinct (map SlotIDX (filter (\<lambda>s. SlotDay s = i) (event_slots d)))"
proof -
  have "distinct (map slot_key (event_slots d))" using assms by (simp add: inv_split slots_ok_def)
  then have "inj_on slot_key (set (event_slots d))" "distinct (event_slots d)" by (simp_all add: distinct_map)
  then show ?thesis by (auto simp: distinct_map inj_on_def slot_key_def)
qed

lemma tt_progress_view:
  assumes prog: "tt_progress d n (Days tt) (length (Days tt)) d'"
  shows "stored_timetable d' = timetable_plan tt"
proof -
  note P = prog [unfolded tt_progress_def]
  let ?ds = "Days tt"
  have inv: "event_inv d'" using P by blast
  have ids: "day_ids d' = {1..int (length ?ds)}" using P by simp
  have slots: "map (\<lambda>s. (SlotTime s, IsBreak s)) (sort_key SlotIDX (filter (\<lambda>s. SlotDay s = i) (event_slots d')))
      = map (\<lambda>ts. (ttTime ts, ttIsBreak ts)) (ttSlots (?ds ! nat (i - 1)))" if i: "i \<in> {1..int (length ?ds)}" for i
  proof (rule map_sorted_range [OF distinct_day_slots [OF inv]])
    have "day_done (day_slots d i) (ttSlots (?ds ! nat (i - 1))) (day_slots d' i)" using P i by blast
    then have fin: "SlotIDX ` day_slots d' i = {1..int (length (ttSlots (?ds ! nat (i - 1))))}"
      "\<forall>s \<in> day_slots d' i. slot_matches (ttSlots (?ds ! nat (i - 1)) ! nat (SlotIDX s - 1)) s"
      by (simp_all add: day_done_def)
    then show "SlotIDX ` set (filter (\<lambda>s. SlotDay s = i) (event_slots d')) = {1..int (length (ttSlots (?ds ! nat (i - 1))))}"
      by (simp add: day_slots_def)
    fix s assume "s \<in> set (filter (\<lambda>s. SlotDay s = i) (event_slots d'))"
    then have "s \<in> day_slots d' i" by (simp add: day_slots_def)
    with fin show "(SlotTime s, IsBreak s) = (ttTime (ttSlots (?ds ! nat (i - 1)) ! nat (SlotIDX s - 1)),
        ttIsBreak (ttSlots (?ds ! nat (i - 1)) ! nat (SlotIDX s - 1)))"
      by (simp add: slot_matches_def)
  qed
  show ?thesis
    unfolding stored_timetable_def timetable_plan_def
  proof (rule map_sorted_range)
    show "distinct (map DayID (event_days d'))" using inv by (simp add: inv_split days_ok_def)
    show "DayID ` set (event_days d') = {1..int (length ?ds)}" using ids by (simp add: day_ids_def)
    fix y assume y: "y \<in> set (event_days d')"
    then have "DayID y \<in> {1..int (length ?ds)}" using ids by (auto simp: day_ids_def)
    moreover from this have "DayName y = ttDayName (?ds ! nat (DayID y - 1))" using P y by simp
    ultimately show "(DayName y, map (\<lambda>s. (SlotTime s, IsBreak s))
          (sort_key SlotIDX (filter (\<lambda>s. SlotDay s = DayID y) (event_slots d'))))
        = (ttDayName (?ds ! nat (DayID y - 1)), map (\<lambda>ts. (ttTime ts, ttIsBreak ts)) (ttSlots (?ds ! nat (DayID y - 1))))"
      using slots [of "DayID y"] by simp
  qed
qed

lemma tt_progress_contiguous:
  assumes prog: "tt_progress d n ds (length ds) d'"
  shows "contiguous d'"
proof -
  note P = prog [unfolded tt_progress_def]
  have "\<exists>m \<ge> 0. SlotIDX ` day_slots d' i = {1..m}" for i
  proof (cases "i \<in> {1..int (length ds)}")
    case True
    then have "day_done (day_slots d i) (ttSlots (ds ! nat (i - 1))) (day_slots d' i)" using P by blast
    then show ?thesis unfolding day_done_def by (metis of_nat_0_le_iff)
  next
    case False
    have "event_inv d'" "day_ids d' = {1..int (length ds)}" using P by simp_all
    then have "day_slots d' i = {}" using False by (auto simp: day_slots_def inv_split slots_ok_def)
    then show ?thesis by (intro exI [of _ 0]) simp
  qed
  moreover have "\<exists>j \<ge> 0. day_ids d' = {1..j}" using P by (intro exI [of _ "int (length ds)"]) simp
  ultimately show ?thesis unfolding contiguous_def by blast
qed

text \<open>Every slot whose place still exists is still there, with its identifier and its lock.\<close>

lemma tt_progress_survives:
  assumes prog: "tt_progress d n (Days tt) (length (Days tt)) d'" and inv: "event_inv d" and cont: "contiguous d"
    and s: "s \<in> set (event_slots d)" "has_place tt s"
  shows "\<exists>s' \<in> set (event_slots d'). SlotID s' = SlotID s \<and> slot_key s' = slot_key s \<and> IsLocked s' = IsLocked s"
proof -
  let ?i = "SlotDay s" and ?xs = "ttSlots (Days tt ! nat (SlotDay s - 1))"
  obtain m n' where m: "SlotIDX ` day_slots d ?i = {1..m}" and n': "day_ids d = {1..n'}"
    using cont unfolding contiguous_def by metis
  have in_day: "s \<in> day_slots d ?i" using s(1) by (simp add: day_slots_def)
  have "?i \<in> day_ids d" using s(1) inv by (auto simp: inv_split slots_ok_def)
  then have "1 \<le> ?i" by (simp add: n')
  moreover have "1 \<le> SlotIDX s" using in_day m by (metis atLeastAtMost_iff imageI)
  ultimately have range: "?i \<in> {1..int (length (Days tt))}" "SlotIDX s \<in> {1..int (length ?xs)}"
    using s(2) by (simp_all add: has_place_def)
  have fin: "day_done (day_slots d ?i) ?xs (day_slots d' ?i)"
    using prog range(1) unfolding tt_progress_def by blast
  then obtain s' where s': "s' \<in> day_slots d' ?i" "SlotIDX s' = SlotIDX s"
    using range(2) unfolding day_done_def by (metis imageE)
  then have "slot_from_old (day_slots d ?i) s'" using fin by (simp add: day_done_def)
  with in_day s'(2) have "SlotID s' = SlotID s" "IsLocked s' = IsLocked s" by (simp_all add: slot_from_old_def)
  with s' show ?thesis by (auto simp: day_slots_def slot_key_def)
qed

definition timetable_stored :: "Timetable \<Rightarrow> database \<Rightarrow> database \<Rightarrow> bool" where
  "timetable_stored tt d d' \<longleftrightarrow> event_inv d' \<and> contiguous d' \<and> other_tables d d'
     \<and> stored_timetable d' = timetable_plan tt
     \<and> (\<forall>s \<in> set (event_slots d). if has_place tt s
          then \<exists>s' \<in> set (event_slots d'). SlotID s' = SlotID s \<and> slot_key s' = slot_key s \<and> IsLocked s' = IsLocked s
          else \<not> IsLocked s)
     \<and> event_schedule d' = filter (\<lambda>r. \<forall>s \<in> set (event_slots d). SlotID s = ScheduledSlot r \<longrightarrow> has_place tt s)
         (event_schedule d)"

lemma has_place_kept:
  assumes "event_inv d" and "s \<in> set (event_slots d)"
  shows "slot_kept (Days tt) (length (Days tt)) s \<longleftrightarrow> has_place tt s"
  by (auto simp: slot_kept_def has_place_def)

interpretation timetable_set: tx_contract "timetableSetTx tt" "\<lambda>d. event_inv d \<and> contiguous d"
  "\<lambda>d _ d'. timetable_stored tt d d'" "\<lambda>_ _. True" for tt
proof unfold_locales
  fix d assume "event_inv d \<and> contiguous d"
  then have inv: "event_inv d" and cont: "contiguous d" by simp_all
  then obtain n where n: "day_ids d = {1..n}" "0 \<le> n" unfolding contiguous_def by blast
  have "timetable_stored tt d d'" if prog: "tt_progress d n (Days tt) (length (Days tt)) d'" for d'
    unfolding timetable_stored_def
  proof (intro conjI)
    note P = prog [unfolded tt_progress_def]
    show "event_inv d'" "other_tables d d'" using P by simp_all
    show "contiguous d'" by (rule tt_progress_contiguous [OF prog])
    show "stored_timetable d' = timetable_plan tt" by (rule tt_progress_view [OF prog])
    show "\<forall>s \<in> set (event_slots d). if has_place tt s
        then \<exists>s' \<in> set (event_slots d'). SlotID s' = SlotID s \<and> slot_key s' = slot_key s \<and> IsLocked s' = IsLocked s
        else \<not> IsLocked s"
      using P tt_progress_survives [OF prog inv cont] has_place_kept [OF inv] by auto
    show "event_schedule d' = filter (\<lambda>r. \<forall>s \<in> set (event_slots d). SlotID s = ScheduledSlot r \<longrightarrow> has_place tt s)
        (event_schedule d)"
      using P has_place_kept [OF inv] by simp
  qed
  then show "wp (timetableSetTx tt) (\<lambda>_ d'. timetable_stored tt d d') (\<lambda>_. True) d"
    by (intro wp_mono [OF wp_timetableSet [OF inv cont n]]) simp_all
qed

text \<open>
  C23: \<open>TimetableSet\<close> on a database whose days and slots are numbered without gaps stores exactly the
  timetable it is given: the days with their names and the slots with their times and breaks, in
  order. Every old slot whose place still exists keeps its identifier and its lock, no locked slot
  is lost, the schedule loses exactly the entries of the slots that are gone, and users,
  discussions, interest, locations and possible slots are not touched. When the call fails, the
  database is what it was.
\<close>

theorem TimetableSet_correct:
  assumes "event_inv (committed w)" and "contiguous (committed w)" and "TimetableSet tt w = (r, w')"
  shows "case r of Inl e \<Rightarrow> committed w' = committed w \<and> e \<noteq> NotReturned
    | Inr _ \<Rightarrow> timetable_stored tt (committed w) (committed w')"
proof -
  have run: "txLoop (timetableSetTx tt) w = (r, w')" using assms(3) by (simp add: TimetableSet_def)
  show ?thesis
    using timetable_set.success [of w tt _ w'] timetable_set.failure [of w tt _ w'] assms(1,2) run
    by (cases r) auto
qed

section \<open>Single days and locks\<close>

interpretation new_day: tx_contract "NewDay_body y" "\<lambda>d. event_inv d \<and> DayName y \<noteq> ''''"
  "\<lambda>d v d'. event_inv d' \<and> v = y\<lparr>DayID := sql_max (map DayID (event_days d)) + 1\<rparr> \<and> DayID v \<notin> day_ids d
     \<and> d' = d\<lparr>event_days := event_days d @ [v]\<rparr>"
  "\<lambda>_ _. False" for y
proof unfold_locales
  fix d assume pre: "event_inv d \<and> DayName y \<noteq> ''''"
  let ?y = "y\<lparr>DayID := sql_max (map DayID (event_days d)) + 1\<rparr>"
  have new: "DayID ?y \<notin> day_ids d" using sql_max_fresh [of "map DayID (event_days d)"] by (simp add: day_ids_def)
  have "\<forall>x \<in> set (map DayID (event_days d)). 1 \<le> x" using pre by (auto simp: inv_split days_content_def)
  from sql_max_nonneg [OF this] have ge: "1 \<le> DayID ?y" by simp
  have ins: "sql_insert_day ?y d = Inr ((), d\<lparr>event_days := event_days d @ [?y]\<rparr>)" using new by (simp add: sql_insert_day_def)
  have "event_inv (d\<lparr>event_days := event_days d @ [?y]\<rparr>)"
    using inv_insert_day [OF _ ins ge] pre by simp
  then show "wp (NewDay_body y) (\<lambda>v d'. event_inv d' \<and> v = ?y \<and> DayID v \<notin> day_ids d
      \<and> d' = d\<lparr>event_days := event_days d @ [v]\<rparr>) (\<lambda>_. False) d"
    unfolding NewDay_body_def getMaxDay_def dayAddTx_def Let_def using new
    by (auto intro!: tx_wp simp: sql_select_def ins)
qed

interpretation delete_day: tx_contract "deleteDayTx i" event_inv
  "\<lambda>d _ d'. event_inv d' \<and> i \<in> day_ids d \<and> d' = drop_day i d
     \<and> (\<forall>s \<in> set (event_slots d). SlotDay s = i \<longrightarrow> \<not> IsLocked s)"
  "\<lambda>_ _. True" for i
  by unfold_locales (rule wp_deleteDay, auto simp: slots_from_def)

interpretation set_locked: tx_contract "TimetableSetLockedSlots_body ps" event_inv
  "\<lambda>d _ d'. event_inv d' \<and> d' = lock_slots ps d" "\<lambda>_ _. False" for ps
proof unfold_locales
  fix d assume "event_inv d"
  then have "event_inv (lock_slots ps d)"
    unfolding lock_slots_def by (rule inv_update_slots) (simp_all add: slot_key_def)
  then show "wp (TimetableSetLockedSlots_body ps) (\<lambda>_ d'. event_inv d' \<and> d' = lock_slots ps d) (\<lambda>_. False) d"
    unfolding TimetableSetLockedSlots_body_def by (auto intro!: tx_wp simp: sql_write_def)
qed

interpretation get_locked: tx_contract "tx_at ''Getting locked slots'' (eq_exec sql_locked_slots)" "\<lambda>_. True"
  "\<lambda>d v d'. d' = d \<and> v = map (\<lambda>s. \<lparr>DisplaySlotID = SlotID s, DisplaySlotTime = SlotTime s,
     TimeDisplay = '''', Checked = IsLocked s\<rparr>) (work_slots d)" "\<lambda>_ _. False"
  by unfold_locales (auto intro!: tx_wp simp: sql_locked_slots_def sql_select_def)

lemma sort_key_map:
  assumes "\<And>x. k (f x) = k x"
  shows "sort_key k (map f xs) = map f (sort_key k xs)"
proof (induction xs)
  case (Cons x xs)
  have "insort_key k (f x) (map f ys) = map f (insort_key k x ys)" for ys
    by (induction ys) (simp_all add: assms)
  with Cons show ?case by simp
qed simp

lemma work_slots_lock:
  "work_slots (lock_slots ps d) = map (\<lambda>s. s\<lparr>IsLocked := SlotID s \<in> set ps\<rparr>) (work_slots d)"
proof -
  let ?g = "\<lambda>s. s\<lparr>IsLocked := SlotID s \<in> set ps\<rparr>"
  have "event_slots (lock_slots ps d) = map ?g (event_slots d)" by (auto simp: lock_slots_def)
  then have "work_slots (lock_slots ps d) = sort_key slot_key (map ?g (filter (\<lambda>s. \<not> IsBreak s) (event_slots d)))"
    by (simp add: work_slots_def filter_map o_def)
  also have "\<dots> = map ?g (work_slots d)" unfolding work_slots_def by (rule sort_key_map) (simp add: slot_key_def)
  finally show ?thesis .
qed

text \<open>
  The form for locked slots. After \<open>TimetableSetLockedSlots\<close> without engine faults, exactly the slots
  that were ticked are locked, in the whole timetable and whatever was locked before, nothing else
  has changed, and \<open>TimetableGetLockedSlots\<close> lists the working slots with just these ticked.
\<close>

theorem locked_slots_roundtrip:
  assumes "event_inv (committed w)" and "pending w = 0"
    and "TimetableSetLockedSlots ps w = (r, w1)" and "TimetableGetLockedSlots w1 = (ds, w2)"
  shows "r = Inr () \<and> committed w1 = lock_slots ps (committed w) \<and> committed w2 = committed w1
    \<and> {s \<in> set (event_slots (committed w1)). IsLocked s} = {s \<in> set (event_slots (committed w1)). SlotID s \<in> set ps}
    \<and> map DisplaySlotID ds = map SlotID (work_slots (committed w))
    \<and> map Checked ds = map (\<lambda>s. SlotID s \<in> set ps) (work_slots (committed w))"
proof -
  let ?d = "committed w"
  note o1 = set_locked.outcome [OF assms(1) assms(3) [unfolded TimetableSetLockedSlots_def]]
  then have s: "r = Inr ()" "committed w1 = lock_slots ps ?d" "pending w1 = 0"
    using assms(2) by (auto simp: tx_outcome_def split: sum.splits)
  obtain v w3 where g: "txLoop (tx_at ''Getting locked slots'' (eq_exec sql_locked_slots)) w1 = (v, w3)" by fastforce
  from get_locked.outcome [OF TrueI g] s(3) obtain x where x: "v = Inr x" "committed w3 = committed w1"
    "x = map (\<lambda>s. \<lparr>DisplaySlotID = SlotID s, DisplaySlotTime = SlotTime s, TimeDisplay = '''', Checked = IsLocked s\<rparr>)
      (work_slots (committed w1))"
    by (auto simp: tx_outcome_def split: sum.splits)
  then have "ds = x" "w2 = w3" using assms(4) g by (simp_all add: TimetableGetLockedSlots_def)
  moreover have "{s \<in> set (event_slots (lock_slots ps ?d)). IsLocked s} = {s \<in> set (event_slots (lock_slots ps ?d)). SlotID s \<in> set ps}"
    by (auto simp: lock_slots_def split: if_splits)
  ultimately show ?thesis using s x by (simp add: work_slots_lock o_def)
qed

theorem locked_slots_roundtrip_witness:
  "event_inv (committed sample_world) \<and> pending sample_world = 0 \<and>
   (\<exists>w1 w2 ds. TimetableSetLockedSlots [''slot_2''] sample_world = (Inr (), w1) \<and>
      TimetableGetLockedSlots w1 = (ds, w2) \<and> map Checked ds = [False, True])"
proof -
  obtain r w1 where x: "TimetableSetLockedSlots [''slot_2''] sample_world = (r, w1)" by fastforce
  obtain ds w2 where y: "TimetableGetLockedSlots w1 = (ds, w2)" by fastforce
  have pre: "event_inv (committed sample_world)" "pending sample_world = 0" by (simp_all add: sample_inv)
  have "map (\<lambda>s. SlotID s \<in> set [''slot_2'']) (work_slots sample_db) = [False, True]" by code_simp
  with locked_slots_roundtrip [OF pre x y] x y pre show ?thesis by simp
qed

text \<open>
  C27: Deleting a day. \<open>DeleteDay\<close> succeeds only on a day that exists and has no locked slot; it then
  removes the day, its slots and what was scheduled in them, and nothing else. Otherwise the
  database is unchanged.
\<close>

theorem DeleteDay_correct:
  assumes "event_inv (committed w)" and "DeleteDay i w = (r, w')"
  shows "event_inv (committed w') \<and>
    (case r of Inl e \<Rightarrow> committed w' = committed w \<and> e \<noteq> NotReturned
     | Inr _ \<Rightarrow> i \<in> day_ids (committed w) \<and> (\<forall>s \<in> day_slots (committed w) i. \<not> IsLocked s)
         \<and> day_ids (committed w') = day_ids (committed w) - {i}
         \<and> set (event_slots (committed w')) = {s \<in> set (event_slots (committed w)). SlotDay s \<noteq> i}
         \<and> set (event_schedule (committed w')) = {r \<in> set (event_schedule (committed w)). ScheduledSlot r \<notin> SlotID ` day_slots (committed w) i}
         \<and> other_tables (committed w) (committed w'))"
proof -
  note run = assms(2) [unfolded DeleteDay_def]
  show ?thesis
  proof (cases r)
    case (Inl e)
    with run have "txLoop (deleteDayTx i) w = (Inl e, w')" by simp
    from delete_day.failure(1,2) [OF assms(1) this] Inl assms(1) show ?thesis by simp
  next
    case (Inr v)
    with run have "txLoop (deleteDayTx i) w = (Inr v, w')" by simp
    from delete_day.success [OF assms(1) this]
    have post: "event_inv (committed w')" "i \<in> day_ids (committed w)" "committed w' = drop_day i (committed w)"
      "\<forall>s \<in> set (event_slots (committed w)). SlotDay s = i \<longrightarrow> \<not> IsLocked s" by blast+
    have none: "SlotDay s \<noteq> i" if "s \<in> set (event_slots (committed w'))" for s
    proof -
      have "SlotDay s \<in> day_ids (committed w')" using post(1) that by (auto simp: inv_split slots_ok_def)
      moreover have "i \<notin> day_ids (committed w')" by (auto simp: post(3) drop_day_def day_ids_def)
      ultimately show ?thesis by blast
    qed
    have idx: "1 \<le> SlotIDX s" if "s \<in> set (event_slots (committed w))" "SlotDay s = i" for s
      using none [of s] that by (auto simp: post(3) drop_day_def drop_slots_def slots_from_def)
    have "day_ids (committed w') = day_ids (committed w) - {i}"
      by (auto simp: post(3) drop_day_def day_ids_def drop_slots_def)
    moreover have "set (event_slots (committed w')) = {s \<in> set (event_slots (committed w)). SlotDay s \<noteq> i}"
      using idx by (auto simp: post(3) drop_day_def drop_slots_def slots_from_def)
    moreover have "set (event_schedule (committed w')) = {r \<in> set (event_schedule (committed w)). ScheduledSlot r \<notin> SlotID ` day_slots (committed w) i}"
      using idx by (force simp: post(3) drop_day_def drop_slots_def slots_from_def day_slots_def)
    moreover have "other_tables (committed w) (committed w')"
      by (simp add: post(3) drop_day_def drop_slots_def other_tables_def)
    ultimately show ?thesis using post(1,2,4) Inr by (simp add: day_slots_def)
  qed
qed

lemma sample_contiguous: "contiguous sample_db"
proof -
  have "SlotIDX ` day_slots sample_db i = {1..if i = 1 then 3 else 0}" for i
  proof -
    have "{1..3::int} = {1, 2, 3}" by auto
    moreover have "day_slots sample_db 1 = set (event_slots sample_db)" "i \<noteq> 1 \<Longrightarrow> day_slots sample_db i = {}"
      by (auto simp: day_slots_def sample_db_def)
    ultimately show ?thesis by (cases "i = 1") (simp_all add: sample_db_def)
  qed
  moreover have "day_ids sample_db = {1..1}" by (simp add: day_ids_def sample_db_def)
  moreover have "0 \<le> (if i = 1 then 3 else (0::int))" for i :: int by simp
  ultimately have "\<exists>m \<ge> 0. SlotIDX ` day_slots sample_db i = {1..m}" for i by blast
  moreover have "\<exists>n \<ge> 0. day_ids sample_db = {1..n}"
    using \<open>day_ids sample_db = {1..1}\<close> by (intro exI [of _ 1]) simp
  ultimately show ?thesis unfolding contiguous_def by blast
qed

text \<open>The sample without the restriction of a discussion to a slot of the day.\<close>

definition unrestricted_world :: world where
  "unrestricted_world = sample_world\<lparr>committed := sample_db\<lparr>event_discussions_possible_slots := []\<rparr>\<rparr>"

theorem DeleteDay_correct_witness:
  "event_inv (committed unrestricted_world) \<and>
   (\<exists>w'. DeleteDay 1 unrestricted_world = (Inr (), w') \<and> day_ids (committed w') = {}
      \<and> set (event_schedule (committed w')) = {})"
proof -
  have inv: "event_inv (committed unrestricted_world)"
    by (simp add: unrestricted_world_def inv_defs sample_defs interest_key_def slot_key_def schedule_key_def
        not_AllWhitespace_Cons IsSpace_def IsEmailAddress_no_at)
  have "fst (DeleteDay 1 unrestricted_world) = Inr ()" by code_simp
  then obtain w' where x: "DeleteDay 1 unrestricted_world = (Inr (), w')" by (metis prod.collapse)
  from DeleteDay_correct [OF inv x]
  have post: "day_ids (committed w') = day_ids (committed unrestricted_world) - {1}"
    "set (event_schedule (committed w')) = {r \<in> set (event_schedule (committed unrestricted_world)).
       ScheduledSlot r \<notin> SlotID ` day_slots (committed unrestricted_world) 1}" by simp_all
  have ids: "day_ids (committed unrestricted_world) = {1}"
    by (simp add: unrestricted_world_def day_ids_def sample_db_def)
  have "day_slots (committed unrestricted_world) 1 = set (event_slots (committed unrestricted_world))"
    by (auto simp: unrestricted_world_def day_slots_def sample_db_def)
  then have slot: "''slot_1'' \<in> SlotID ` day_slots (committed unrestricted_world) 1"
    by (simp add: unrestricted_world_def sample_db_def)
  have sched: "\<forall>r \<in> set (event_schedule (committed unrestricted_world)). ScheduledSlot r = ''slot_1''"
    by (simp add: unrestricted_world_def sample_db_def)
  have "day_ids (committed w') = {}" unfolding post(1) ids by simp
  moreover have "set (event_schedule (committed w')) = {}" unfolding post(2) using slot sched by simp
  ultimately show ?thesis using inv x by blast
qed

text \<open>
  A discussion that is restricted to a slot stands in the way of removing the slot: the entries
  of the schedule are deleted with the slots, those of the possible slots are not, and the foreign
  key makes the whole change fail. No slot of the day is locked here.
\<close>

theorem restriction_blocks_removal:
  "filter IsLocked (event_slots (committed sample_world)) = [] \<and>
   (\<exists>e w'. DeleteDay 1 sample_world = (Inl e, w') \<and> committed w' = committed sample_world) \<and>
   (\<exists>e w'. TimetableSet \<lparr>Days = []\<rparr> sample_world = (Inl e, w') \<and> committed w' = committed sample_world)"
proof -
  have inv: "event_inv (committed sample_world)" by (simp add: sample_inv)
  have "isl (fst (DeleteDay 1 sample_world))" by code_simp
  then obtain e w' where x: "DeleteDay 1 sample_world = (Inl e, w')" by (metis prod.collapse sum.collapse(1))
  have "isl (fst (TimetableSet \<lparr>Days = []\<rparr> sample_world))" by code_simp
  then obtain f w2 where y: "TimetableSet \<lparr>Days = []\<rparr> sample_world = (Inl f, w2)" by (metis prod.collapse sum.collapse(1))
  have "committed w' = committed sample_world" by (rule delete_day.failure(1) [OF inv x [unfolded DeleteDay_def]])
  moreover have "committed w2 = committed sample_world"
    using timetable_set.failure(1) [OF _ y [unfolded TimetableSet_def]] inv sample_contiguous by simp
  moreover have "filter IsLocked (event_slots (committed sample_world)) = []" by (simp add: sample_db_def)
  ultimately show ?thesis using x y by blast
qed

text \<open>
  Turning a working slot into a break with \<open>TimetableSet\<close> leaves the discussion scheduled in it
  where it is, in the break.
\<close>

definition break_timetable :: Timetable where
  "break_timetable = \<lparr>Days = [\<lparr>ttDayName = ''Monday'', ttIsFinal = False, ttSlots =
     map (\<lambda>t. \<lparr>ttTime = (t, 7200), ttTimeDisplay = '''', ttIsBreak = True, ttDiscussions = []\<rparr>)
       [1594044000, 1594045800, 1594047600]\<rparr>]\<rparr>"

theorem break_keeps_schedule:
  "\<exists>w' s r. TimetableSet break_timetable sample_world = (Inr (), w')
     \<and> s \<in> set (event_slots (committed w')) \<and> IsBreak s
     \<and> r \<in> set (event_schedule (committed w')) \<and> ScheduledSlot r = SlotID s"
proof -
  let ?x = "TimetableSet break_timetable sample_world"
  have "fst ?x = Inr () \<and> list_ex (\<lambda>s. IsBreak s \<and> list_ex (\<lambda>r. ScheduledSlot r = SlotID s) (event_schedule (committed (snd ?x))))
      (event_slots (committed (snd ?x)))" by code_simp
  moreover obtain w' where x: "?x = (Inr (), w')" using calculation by (metis prod.collapse)
  ultimately show ?thesis unfolding x list_ex_iff snd_conv by blast
qed

end
