(* ===== verification/Timetable_View.thy ===== *)
theory Timetable_View
  imports Timetables
begin

text \<open>
  Reading the timetable: \<open>GetTimetable\<close> of \<^verbatim>\<open>event/timetable.go\<close>, the days and slots with the
  discussions scheduled in each slot. Formatting a time and moving it to another zone are
  parameters.
\<close>

section \<open>Reading the timetable\<close>

text \<open>
  The query of one slot. Everybody who has an interest in a discussion of the slot attends the one
  they are most interested in (all of them, if there are several); a discussion is listed with
  its attendees and the sum of their interest, if it has any, most attendees first.
\<close>

definition slot_interest :: "int \<Rightarrow> int \<Rightarrow> database \<Rightarrow> (string \<times> string \<times> int \<times> Location) list" where
  "slot_interest dayid idx d = concat (map (\<lambda>i.
     concat (map (\<lambda>r.
       concat (map (\<lambda>s. map (\<lambda>l. (InterestUser i, InterestDiscussion i, InterestValue i, l))
           (filter (\<lambda>l. LocationID l = ScheduledLocation r) (event_locations d)))
         (filter (\<lambda>s. SlotID s = ScheduledSlot r \<and> SlotDay s = dayid \<and> SlotIDX s = idx) (event_slots d))))
       (filter (\<lambda>r. ScheduledDiscussion r = InterestDiscussion i) (event_schedule d))))
     (event_interest d))"

definition slot_attendance :: "int \<Rightarrow> int \<Rightarrow> database \<Rightarrow> (string \<times> string \<times> int \<times> Location) list" where
  "slot_attendance dayid idx d =
    (let rows = slot_interest dayid idx d
     in filter (\<lambda>(u, _, i, _). i = Max (set (map (\<lambda>(_, _, j, _). j) (filter (\<lambda>(v, _). v = u) rows)))) rows)"

definition slot_discussions :: "int \<Rightarrow> int \<Rightarrow> database \<Rightarrow> TimetableDiscussion list" where
  "slot_discussions dayid idx d =
    (let rows = slot_attendance dayid idx d;
         groups = sort (remdups (map (\<lambda>(_, did, _). did) rows))
     in sort_key (\<lambda>t. - int (Attendees t)) (concat (map (\<lambda>did.
          (let mine = filter (\<lambda>(_, x, _). x = did) rows; (_, _, _, l) = hd mine
           in map (\<lambda>x. \<lparr>ttDiscussionID = did, ttTitle = Title x, Attendees = length mine,
                  Score = sum_list (map (\<lambda>(_, _, i, _). i) mine),
                  ttLocationName = LocationName l, ttLocationURL = LocationURL l\<rparr>)
                (filter (\<lambda>x. DiscussionID x = did) (event_discussions d)))) groups)))"

text \<open>\<open>Format\<close> and \<open>In\<close> of the time package; the zone of \<open>In\<close> is given by its name.\<close>

record time_env =
  time_Format :: "string \<Rightarrow> gotime \<Rightarrow> string"
  time_In :: "string \<Rightarrow> gotime \<Rightarrow> gotime"

text \<open>The last loop of a day: a nil \<open>tzl\<close> is dereferenced as soon as there is a slot to format.\<close>

definition format_slots :: "time_env \<Rightarrow> string \<Rightarrow> string option \<Rightarrow> TimetableSlot list \<Rightarrow> error + TimetableSlot list" where
  "format_slots te tfmt tzl slots =
    (if tfmt = '''' \<or> slots = [] then Inr slots
     else (case tzl of
             None \<Rightarrow> Inl (Panic ''nil pointer dereference'')
           | Some l \<Rightarrow> Inr (map (\<lambda>ts. ts\<lparr>ttTimeDisplay :=
                 time_Format te tfmt (if l \<noteq> '''' then time_In te l (ttTime ts) else ttTime ts)\<rparr>) slots)))"

definition getTimetable_slot :: "int \<Rightarrow> int \<times> TimetableSlot \<Rightarrow> TimetableSlot tx" where
  "getTimetable_slot dayID its =
    (case its of (idx, ts) \<Rightarrow>
     tx_bind (tx_at ''Getting discussion info for slot'' (eq_exec (sql_select (slot_discussions dayID idx))))
       (\<lambda>ds. tx_return (ts\<lparr>ttDiscussions := ds\<rparr>)))"

definition getTimetable_day :: "time_env \<Rightarrow> string \<Rightarrow> string option \<Rightarrow> int \<times> string \<Rightarrow> TimetableDay tx" where
  "getTimetable_day te tfmt tzl iday =
    (case iday of (dayID, name) \<Rightarrow>
     tx_bind (tx_at ''Getting day finality'' (eq_exec (sql_select (\<lambda>d.
       length (filter (\<lambda>s. SlotDay s = dayID \<and> \<not> IsBreak s \<and> \<not> IsLocked s) (event_slots d)) = 0)))) (\<lambda>final.
     tx_bind (tx_at ''Getting slots for one day'' (eq_exec (sql_select (\<lambda>d.
       map (\<lambda>s. \<lparr>ttTime = SlotTime s, ttTimeDisplay = '''', ttIsBreak = IsBreak s, ttDiscussions = []\<rparr>)
         (sort_key SlotIDX (filter (\<lambda>s. SlotDay s = dayID) (event_slots d))))))) (\<lambda>slots.
     tx_bind (tx_map (getTimetable_slot dayID) (numbered slots)) (\<lambda>slots1.
     case format_slots te tfmt tzl slots1 of
       Inl err \<Rightarrow> tx_fail err
     | Inr slots2 \<Rightarrow> tx_return \<lparr>ttDayName = name, ttIsFinal = final, ttSlots = slots2\<rparr>))))"

definition GetTimetable_body :: "time_env \<Rightarrow> string \<Rightarrow> string option \<Rightarrow> Timetable tx" where
  "GetTimetable_body te tfmt tzl =
    tx_bind (tx_at ''Getting day list'' (eq_exec (sql_select (\<lambda>d. map DayName (sort_key DayID (event_days d)))))) (\<lambda>names.
    tx_bind (tx_map (getTimetable_day te tfmt tzl) (numbered names)) (\<lambda>days.
    tx_return \<lparr>Days = days\<rparr>))"

definition GetTimetable :: "time_env \<Rightarrow> string \<Rightarrow> string option \<Rightarrow> Timetable tx" where
  "GetTimetable te tfmt tzl = txLoop (GetTimetable_body te tfmt tzl)"

section \<open>What is read\<close>

text \<open>The pure content of the answer: what each day and each slot holds.\<close>

definition slot_display :: "time_env \<Rightarrow> string \<Rightarrow> string option \<Rightarrow> gotime \<Rightarrow> string" where
  "slot_display te tfmt tzl t =
    (if tfmt = '''' then '''' else
     case tzl of None \<Rightarrow> '''' | Some l \<Rightarrow> time_Format te tfmt (if l \<noteq> '''' then time_In te l t else t))"

definition view_slot :: "time_env \<Rightarrow> string \<Rightarrow> string option \<Rightarrow> database \<Rightarrow> int \<Rightarrow> int \<times> Slot \<Rightarrow> TimetableSlot" where
  "view_slot te tfmt tzl d dayid is = (case is of (idx, s) \<Rightarrow>
     \<lparr>ttTime = SlotTime s, ttTimeDisplay = slot_display te tfmt tzl (SlotTime s), ttIsBreak = IsBreak s,
      ttDiscussions = slot_discussions dayid idx d\<rparr>)"

definition view_day :: "time_env \<Rightarrow> string \<Rightarrow> string option \<Rightarrow> database \<Rightarrow> int \<times> string \<Rightarrow> TimetableDay" where
  "view_day te tfmt tzl d iday = (case iday of (dayid, name) \<Rightarrow>
     \<lparr>ttDayName = name, ttIsFinal = (\<forall>s \<in> day_slots d dayid. IsBreak s \<or> IsLocked s),
      ttSlots = map (view_slot te tfmt tzl d dayid)
        (numbered (sort_key SlotIDX (filter (\<lambda>s. SlotDay s = dayid) (event_slots d))))\<rparr>)"

lemma numbered_map: "numbered (map f xs) = map (\<lambda>(i, x). (i, f x)) (numbered xs)"
  by (simp add: numbered_def zip_map2)

lemma map_numbered_snd: "map (\<lambda>(i, x). f x) (numbered xs) = map f xs"
proof -
  have "map (\<lambda>(i, x). f x) (numbered xs) = map f (map snd (numbered xs))" by (simp add: case_prod_unfold)
  then show ?thesis by (simp add: numbered_def)
qed

lemma format_slots_display:
  assumes "tfmt = '''' \<or> tzl \<noteq> None" and "\<forall>ts \<in> set slots. ttTimeDisplay ts = ''''"
  shows "format_slots te tfmt tzl slots = Inr (map (\<lambda>ts. ts\<lparr>ttTimeDisplay := slot_display te tfmt tzl (ttTime ts)\<rparr>) slots)"
proof (cases "tfmt = ''''")
  case True
  have "ts\<lparr>ttTimeDisplay := ''''\<rparr> = ts" if "ts \<in> set slots" for ts using assms(2) that by (cases ts) force
  then have "map (\<lambda>ts. ts\<lparr>ttTimeDisplay := ''''\<rparr>) slots = slots" by (simp add: map_idI)
  then show ?thesis by (simp add: format_slots_def slot_display_def True)
next
  case False
  then show ?thesis using assms(1) by (auto simp: format_slots_def slot_display_def)
qed

lemma wp_getTimetable_day:
  assumes "tfmt = '''' \<or> tzl \<noteq> None"
  shows "wp (getTimetable_day te tfmt tzl (i, name)) (\<lambda>v d'. d' = d \<and> v = view_day te tfmt tzl d (i, name)) (\<lambda>_. False) d"
proof -
  let ?raw = "\<lambda>s. \<lparr>ttTime = SlotTime s, ttTimeDisplay = '''', ttIsBreak = IsBreak s, ttDiscussions = []\<rparr>"
  let ?ss = "sort_key SlotIDX (filter (\<lambda>s. SlotDay s = i) (event_slots d))"
  let ?g = "\<lambda>(idx, ts). ts\<lparr>ttDiscussions := slot_discussions i idx d\<rparr>"
  have fin: "filter (\<lambda>s. SlotDay s = i \<and> \<not> IsBreak s \<and> \<not> IsLocked s) (event_slots d) = []
      \<longleftrightarrow> (\<forall>s \<in> day_slots d i. IsBreak s \<or> IsLocked s)"
    by (auto simp: day_slots_def filter_empty_conv)
  have slots: "wp (tx_map (getTimetable_slot i) (numbered (map ?raw ?ss)))
      (\<lambda>vs d'. d' = d \<and> vs = map ?g (numbered (map ?raw ?ss))) (\<lambda>_. False) d"
    by (rule wp_tx_map_pure) (auto intro!: tx_wp simp: getTimetable_slot_def sql_select_def)
  have "format_slots te tfmt tzl (map ?g (numbered (map ?raw ?ss)))
      = Inr (map (\<lambda>ts. ts\<lparr>ttTimeDisplay := slot_display te tfmt tzl (ttTime ts)\<rparr>) (map ?g (numbered (map ?raw ?ss))))"
    by (rule format_slots_display [OF assms]) (auto simp: numbered_map)
  also have "\<dots> = Inr (map (view_slot te tfmt tzl d i) (numbered ?ss))"
    by (auto simp: numbered_map view_slot_def)
  finally have fmt: "format_slots te tfmt tzl (map ?g (numbered (map ?raw ?ss)))
      = Inr (map (view_slot te tfmt tzl d i) (numbered ?ss))" .
  show ?thesis
    unfolding getTimetable_day_def prod.case
    by (intro wp_bind wp_at wp_exec, simp only: sql_select_def sum.case prod.case, rule wp_bind, rule wp_at, rule wp_exec,
        simp only: sql_select_def sum.case prod.case, rule wp_bind, rule wp_mono [OF slots])
      (auto simp: fmt fin view_day_def intro!: wp_return)
qed

interpretation get_timetable: tx_contract "GetTimetable_body te tfmt tzl" "\<lambda>_. tfmt = '''' \<or> tzl \<noteq> None"
  "\<lambda>d tt d'. d' = d \<and> tt = \<lparr>Days = map (view_day te tfmt tzl d) (numbered (map DayName (sort_key DayID (event_days d))))\<rparr>"
  "\<lambda>_ _. False" for te tfmt tzl
proof unfold_locales
  fix d :: database assume fmt: "tfmt = '''' \<or> tzl \<noteq> None"
  let ?names = "map DayName (sort_key DayID (event_days d))"
  have days: "wp (tx_map (getTimetable_day te tfmt tzl) (numbered ?names))
      (\<lambda>vs d'. d' = d \<and> vs = map (view_day te tfmt tzl d) (numbered ?names)) (\<lambda>_. False) d"
  proof (rule wp_tx_map_pure)
    fix x show "wp (getTimetable_day te tfmt tzl x) (\<lambda>v d'. d' = d \<and> v = view_day te tfmt tzl d x) (\<lambda>_. False) d"
      using wp_getTimetable_day [OF fmt] by (cases x) simp
  qed
  show "wp (GetTimetable_body te tfmt tzl)
      (\<lambda>tt d'. d' = d \<and> tt = \<lparr>Days = map (view_day te tfmt tzl d) (numbered ?names)\<rparr>) (\<lambda>_. False) d"
    unfolding GetTimetable_body_def
    by (intro wp_bind wp_at wp_exec, simp only: sql_select_def sum.case prod.case, rule wp_bind, rule wp_mono [OF days])
      (auto intro!: wp_return)
qed

text \<open>Where the numbering has no gaps, the position of a row is its number.\<close>

lemma sorted_keys_range:
  fixes k :: "'a \<Rightarrow> int"
  assumes "distinct (map k xs)" and "k ` set xs = {1..n}"
  shows "map k (sort_key k xs) = [1..n]"
  using assms by (intro sorted_distinct_set_unique) (simp_all add: sorted_sort_key distinct_map)

lemma numbered_sorted:
  fixes k :: "'a \<Rightarrow> int"
  assumes "distinct (map k xs)" and "k ` set xs = {1..n}"
  shows "numbered (sort_key k xs) = map (\<lambda>x. (k x, x)) (sort_key k xs)"
proof -
  let ?s = "sort_key k xs"
  note keys = sorted_keys_range [OF assms]
  have "k (?s ! p) = int p + 1" if "p < length ?s" for p
  proof -
    have "p < length [1..n]" using that arg_cong [OF keys, of length] by simp
    then show ?thesis using that arg_cong [OF keys, of "\<lambda>l. l ! p"] by simp
  qed
  then have "map (\<lambda>i. int i + 1) [0..<length ?s] = map k ?s" by (intro nth_equalityI) simp_all
  then show ?thesis by (simp add: numbered_def zip_map1 zip_same_conv_map)
qed

lemma contiguous_days:
  assumes "event_inv d" and "contiguous d"
  shows "numbered (sort_key DayID (event_days d)) = map (\<lambda>y. (DayID y, y)) (sort_key DayID (event_days d))"
proof -
  obtain n where "day_ids d = {1..n}" using assms(2) unfolding contiguous_def by blast
  then show ?thesis using assms(1) by (intro numbered_sorted [of _ _ n]) (simp_all add: inv_split days_ok_def day_ids_def)
qed

lemma contiguous_slots:
  assumes "event_inv d" and "contiguous d"
  shows "numbered (sort_key SlotIDX (filter (\<lambda>s. SlotDay s = i) (event_slots d)))
    = map (\<lambda>s. (SlotIDX s, s)) (sort_key SlotIDX (filter (\<lambda>s. SlotDay s = i) (event_slots d)))"
proof -
  obtain m where "SlotIDX ` day_slots d i = {1..m}" using assms(2) unfolding contiguous_def by blast
  then show ?thesis
    by (intro numbered_sorted [of _ _ m] distinct_day_slots [OF assms(1)]) (simp add: day_slots_def)
qed

text \<open>The answer, row by row: what every day and every slot of the database becomes.\<close>

definition timetable_answer :: "time_env \<Rightarrow> string \<Rightarrow> string option \<Rightarrow> database \<Rightarrow> Timetable" where
  "timetable_answer te tfmt tzl d = \<lparr>Days = map (\<lambda>y.
     \<lparr>ttDayName = DayName y,
      ttIsFinal = (\<forall>s \<in> day_slots d (DayID y). IsBreak s \<or> IsLocked s),
      ttSlots = map (\<lambda>s. \<lparr>ttTime = SlotTime s, ttTimeDisplay = slot_display te tfmt tzl (SlotTime s),
          ttIsBreak = IsBreak s, ttDiscussions = slot_discussions (SlotDay s) (SlotIDX s) d\<rparr>)
        (sort_key SlotIDX (filter (\<lambda>s. SlotDay s = DayID y) (event_slots d)))\<rparr>)
     (sort_key DayID (event_days d))\<rparr>"

lemma view_timetable:
  assumes "event_inv d" and "contiguous d"
  shows "\<lparr>Days = map (view_day te tfmt tzl d) (numbered (map DayName (sort_key DayID (event_days d))))\<rparr>
    = timetable_answer te tfmt tzl d"
  unfolding timetable_answer_def
  by (simp add: numbered_map contiguous_days [OF assms] view_day_def contiguous_slots [OF assms] view_slot_def)

lemma plan_of_answer: "timetable_plan (timetable_answer te tfmt tzl d) = stored_timetable d"
  by (simp add: timetable_plan_def timetable_answer_def stored_timetable_def o_def)

section \<open>Who attends what\<close>

text \<open>The location where a discussion takes place in the slot with index \<open>j\<close> of day \<open>i\<close>.\<close>

definition placed_at :: "database \<Rightarrow> int \<Rightarrow> int \<Rightarrow> string \<Rightarrow> Location option" where
  "placed_at d i j did =
    (case find (\<lambda>r. ScheduledDiscussion r = did) (event_schedule d) of
       None \<Rightarrow> None
     | Some r \<Rightarrow>
         (case find (\<lambda>s. SlotID s = ScheduledSlot r) (event_slots d) of
            None \<Rightarrow> None
          | Some s \<Rightarrow> if slot_key s = (i, j) then find (\<lambda>l. LocationID l = ScheduledLocation r) (event_locations d) else None))"

text \<open>An entry of interest wins when its user is interested in no other discussion of the slot more.\<close>

definition favourite :: "database \<Rightarrow> int \<Rightarrow> int \<Rightarrow> Interest \<Rightarrow> bool" where
  "favourite d i j x \<longleftrightarrow> placed_at d i j (InterestDiscussion x) \<noteq> None \<and>
     (\<forall>y \<in> set (event_interest d). InterestUser y = InterestUser x \<and> placed_at d i j (InterestDiscussion y) \<noteq> None
        \<longrightarrow> InterestValue y \<le> InterestValue x)"

definition attending :: "database \<Rightarrow> int \<Rightarrow> int \<Rightarrow> string \<Rightarrow> Interest set" where
  "attending d i j did = {x \<in> set (event_interest d). InterestDiscussion x = did \<and> favourite d i j x}"

lemma slot_interest_eq:
  assumes inv: "event_inv d" and once: "distinct (map ScheduledDiscussion (event_schedule d))"
  shows "slot_interest i j d =
    map (\<lambda>x. (InterestUser x, InterestDiscussion x, InterestValue x, the (placed_at d i j (InterestDiscussion x))))
      (filter (\<lambda>x. placed_at d i j (InterestDiscussion x) \<noteq> None) (event_interest d))"
proof -
  have dist: "distinct (map SlotID (event_slots d))" "distinct (map LocationID (event_locations d))"
    using inv by (simp_all add: inv_split slots_ok_def locations_ok_def)
  have slots: "filter (\<lambda>s. SlotID s = x \<and> SlotDay s = i \<and> SlotIDX s = j) (event_slots d) =
      (case find (\<lambda>s. SlotID s = x) (event_slots d) of None \<Rightarrow> [] | Some s \<Rightarrow> if slot_key s = (i, j) then [s] else [])" for x
  proof -
    have "filter (\<lambda>s. SlotID s = x \<and> SlotDay s = i \<and> SlotIDX s = j) (event_slots d)
        = filter (\<lambda>s. slot_key s = (i, j)) (filter (\<lambda>s. SlotID s = x) (event_slots d))"
      by (auto simp: slot_key_def conj_ac intro!: filter_cong)
    then show ?thesis unfolding filter_key_find [OF dist(1)] by (simp split: option.split)
  qed
  have row: "concat (map (\<lambda>r.
       concat (map (\<lambda>s. map (\<lambda>l. (InterestUser x, InterestDiscussion x, InterestValue x, l))
           (filter (\<lambda>l. LocationID l = ScheduledLocation r) (event_locations d)))
         (filter (\<lambda>s. SlotID s = ScheduledSlot r \<and> SlotDay s = i \<and> SlotIDX s = j) (event_slots d))))
       (filter (\<lambda>r. ScheduledDiscussion r = InterestDiscussion x) (event_schedule d)))
    = (case placed_at d i j (InterestDiscussion x) of None \<Rightarrow> []
       | Some l \<Rightarrow> [(InterestUser x, InterestDiscussion x, InterestValue x, l)])" for x
    unfolding filter_key_find [OF once] slots placed_at_def filter_key_find [OF dist(2)]
    by (simp split: option.split)
  have "concat (map (\<lambda>x. case placed_at d i j (InterestDiscussion x) of None \<Rightarrow> []
       | Some l \<Rightarrow> [(InterestUser x, InterestDiscussion x, InterestValue x, l)]) xs)
    = map (\<lambda>x. (InterestUser x, InterestDiscussion x, InterestValue x, the (placed_at d i j (InterestDiscussion x))))
      (filter (\<lambda>x. placed_at d i j (InterestDiscussion x) \<noteq> None) xs)" for xs
    by (induction xs) (auto split: option.splits)
  then show ?thesis unfolding slot_interest_def row .
qed

lemma slot_attendance_eq:
  assumes inv: "event_inv d" and once: "distinct (map ScheduledDiscussion (event_schedule d))"
  shows "slot_attendance i j d =
    map (\<lambda>x. (InterestUser x, InterestDiscussion x, InterestValue x, the (placed_at d i j (InterestDiscussion x))))
      (filter (favourite d i j) (event_interest d))"
proof -
  let ?row = "\<lambda>x. (InterestUser x, InterestDiscussion x, InterestValue x, the (placed_at d i j (InterestDiscussion x)))"
  let ?here = "filter (\<lambda>x. placed_at d i j (InterestDiscussion x) \<noteq> None) (event_interest d)"
  let ?max = "\<lambda>u. Max (set (map (\<lambda>(_, _, k, _). k) (filter (\<lambda>(v, _). v = u) (map ?row ?here))))"
  have set: "set (map (\<lambda>(_, _, k, _). k) (filter (\<lambda>(v, _). v = u) (map ?row ?here)))
      = InterestValue ` {y \<in> set ?here. InterestUser y = u}" for u
    by (force simp: filter_map)
  have "InterestValue x = ?max (InterestUser x) \<longleftrightarrow> (\<forall>y \<in> set ?here. InterestUser y = InterestUser x \<longrightarrow> InterestValue y \<le> InterestValue x)"
    if "x \<in> set ?here" for x
  proof -
    let ?A = "{y \<in> set ?here. InterestUser y = InterestUser x}"
    have A: "finite ?A" "x \<in> ?A" using that by simp_all
    have "InterestValue x = Max (InterestValue ` ?A) \<longleftrightarrow> (\<forall>v \<in> InterestValue ` ?A. v \<le> InterestValue x)"
      using A eq_Max_iff [of "InterestValue ` ?A" "InterestValue x"] by auto
    then show ?thesis unfolding set by auto
  qed
  then have "filter (\<lambda>x. InterestValue x = ?max (InterestUser x)) ?here = filter (favourite d i j) ?here"
    by (intro filter_cong) (auto simp: favourite_def)
  also have "\<dots> = filter (favourite d i j) (event_interest d)" by (auto simp: favourite_def intro!: filter_cong)
  finally have fav: "filter (\<lambda>x. InterestValue x = ?max (InterestUser x)) ?here = filter (favourite d i j) (event_interest d)" .
  have "slot_attendance i j d = map ?row (filter (\<lambda>x. InterestValue x = ?max (InterestUser x)) ?here)"
    unfolding slot_attendance_def slot_interest_eq [OF assms] Let_def filter_map by (simp add: o_def)
  then show ?thesis unfolding fav .
qed

definition slot_entry :: "database \<Rightarrow> int \<Rightarrow> int \<Rightarrow> string \<Rightarrow> TimetableDiscussion" where
  "slot_entry d i j did =
    \<lparr>ttDiscussionID = did, ttTitle = Title (the (discussion_of d did)), Attendees = card (attending d i j did),
     Score = sum InterestValue (attending d i j did),
     ttLocationName = LocationName (the (placed_at d i j did)), ttLocationURL = LocationURL (the (placed_at d i j did))\<rparr>"

lemma slot_discussions_eq:
  assumes inv: "event_inv d" and once: "distinct (map ScheduledDiscussion (event_schedule d))"
  shows "slot_discussions i j d = sort_key (\<lambda>t. - int (Attendees t))
    (map (slot_entry d i j) (sort (remdups (map InterestDiscussion (filter (favourite d i j) (event_interest d))))))"
proof -
  let ?row = "\<lambda>x. (InterestUser x, InterestDiscussion x, InterestValue x, the (placed_at d i j (InterestDiscussion x)))"
  let ?att = "filter (favourite d i j) (event_interest d)"
  let ?mine = "\<lambda>did. filter (\<lambda>x. InterestDiscussion x = did) ?att"
  let ?make = "\<lambda>did. (let mine = filter (\<lambda>(_, x, _). x = did) (map ?row ?att); (_, _, _, l) = hd mine
           in map (\<lambda>x. \<lparr>ttDiscussionID = did, ttTitle = Title x, Attendees = length mine,
                  Score = sum_list (map (\<lambda>(_, _, i, _). i) mine),
                  ttLocationName = LocationName l, ttLocationURL = LocationURL l\<rparr>)
                (filter (\<lambda>x. DiscussionID x = did) (event_discussions d)))"
  have dist: "distinct (event_interest d)" "distinct (map DiscussionID (event_discussions d))"
    using inv by (simp_all add: inv_split interest_ok_def discussions_ok_def distinct_map)
  have "?make did = [slot_entry d i j did]" if did: "did \<in> InterestDiscussion ` set ?att" for did
  proof -
    have set: "set (?mine did) = attending d i j did" by (auto simp: attending_def)
    have "distinct (?mine did)" using dist(1) by simp
    from distinct_card [OF this] sum_list_distinct_conv_sum_set [OF this, of InterestValue]
    have card: "length (?mine did) = card (attending d i j did)"
      "sum_list (map InterestValue (?mine did)) = sum InterestValue (attending d i j did)"
      by (simp_all only: set)
    have mine: "filter (\<lambda>(_, x, _). x = did) (map ?row ?att) = map ?row (?mine did)" by (simp add: filter_map o_def)
    have ne: "?mine did \<noteq> []" using did set by (auto simp: filter_empty_conv)
    then have "InterestDiscussion (hd (?mine did)) = did" using list.set_sel(1) [OF ne] by simp
    then have hd: "hd (map ?row (?mine did)) = (InterestUser (hd (?mine did)), did, InterestValue (hd (?mine did)), the (placed_at d i j did))"
      using ne by (simp add: hd_map)
    have "did \<in> discussion_ids d" using did inv by (auto simp: inv_split interest_ok_def)
    then obtain x where "discussion_of d did = Some x" by (metis discussion_of_None not_Some_eq)
    then have x: "filter (\<lambda>x. DiscussionID x = did) (event_discussions d) = [x]" "x = the (discussion_of d did)"
      unfolding filter_key_find [OF dist(2)] by (simp_all add: discussion_of_def)
    have vals: "map (\<lambda>(_, _, i, _). i) (map ?row (?mine did)) = map InterestValue (?mine did)" by simp
    show ?thesis unfolding Let_def mine hd prod.case x(1) vals slot_entry_def length_map card x(2) [symmetric] by simp
  qed
  then have make: "map ?make (sort (remdups (map InterestDiscussion ?att)))
      = map (\<lambda>did. [slot_entry d i j did]) (sort (remdups (map InterestDiscussion ?att)))"
    by (intro map_cong) simp_all
  have groups: "map (\<lambda>(_, did, _). did) (map ?row ?att) = map InterestDiscussion ?att" by simp
  show ?thesis
    unfolding slot_discussions_def slot_attendance_eq [OF assms] Let_def groups make [unfolded Let_def]
    by simp
qed

text \<open>
  C25: What the timetable shows for a slot, when every discussion is scheduled at most once. The
  discussions listed are those of the slot that somebody attends, each once, those with most
  attendees first. A user attends the discussion of the slot they are most interested in. Each
  entry has the title, the place, the number of attendees and the sum of their interest.
\<close>

theorem slot_discussions_correct:
  assumes "event_inv d" and "distinct (map ScheduledDiscussion (event_schedule d))"
  shows "sorted_wrt (\<lambda>t t'. Attendees t' \<le> Attendees t) (slot_discussions i j d)
    \<and> distinct (map ttDiscussionID (slot_discussions i j d))
    \<and> ttDiscussionID ` set (slot_discussions i j d) = {did. attending d i j did \<noteq> {}}
    \<and> (\<forall>t \<in> set (slot_discussions i j d). t = slot_entry d i j (ttDiscussionID t)
         \<and> discussion_of d (ttDiscussionID t) \<noteq> None \<and> placed_at d i j (ttDiscussionID t) \<noteq> None)"
proof -
  let ?dids = "sort (remdups (map InterestDiscussion (filter (favourite d i j) (event_interest d))))"
  note eq = slot_discussions_eq [OF assms, of i j]
  have id: "ttDiscussionID (slot_entry d i j x) = x" for x by (simp add: slot_entry_def)
  then have ids: "map ttDiscussionID (map (slot_entry d i j) ?dids) = ?dids" by (simp add: map_idI)
  have set: "set (slot_discussions i j d) = slot_entry d i j ` set ?dids" unfolding eq by simp
  have "sorted (map (\<lambda>t. - int (Attendees t)) (slot_discussions i j d))" unfolding eq by (rule sorted_sort_key)
  then have "sorted_wrt (\<lambda>t t'. Attendees t' \<le> Attendees t) (slot_discussions i j d)" by (simp add: sorted_map)
  moreover have "distinct (map ttDiscussionID (slot_discussions i j d))"
  proof -
    have "distinct (map ttDiscussionID (map (slot_entry d i j) ?dids))" unfolding ids by simp
    then show ?thesis unfolding eq by (simp only: distinct_map distinct_sort set_sort)
  qed
  moreover have members: "set ?dids = {did. attending d i j did \<noteq> {}}" by (auto simp: attending_def)
  then have "ttDiscussionID ` set (slot_discussions i j d) = {did. attending d i j did \<noteq> {}}"
    unfolding set by (simp add: image_image id)
  moreover have "\<forall>t \<in> set (slot_discussions i j d). t = slot_entry d i j (ttDiscussionID t)
      \<and> discussion_of d (ttDiscussionID t) \<noteq> None \<and> placed_at d i j (ttDiscussionID t) \<noteq> None"
  proof
    fix t assume "t \<in> set (slot_discussions i j d)"
    then obtain did where t: "t = slot_entry d i j did" "attending d i j did \<noteq> {}" unfolding set members by blast
    then obtain x where x: "x \<in> set (event_interest d)" "InterestDiscussion x = did" "favourite d i j x"
      by (auto simp: attending_def)
    have "did \<in> discussion_ids d" using x assms(1) by (auto simp: inv_split interest_ok_def)
    then show "t = slot_entry d i j (ttDiscussionID t)
      \<and> discussion_of d (ttDiscussionID t) \<noteq> None \<and> placed_at d i j (ttDiscussionID t) \<noteq> None"
      using x(2,3) unfolding t(1) id by (auto simp: discussion_of_None favourite_def)
  qed
  ultimately show ?thesis by blast
qed

text \<open>In the sample, both interested users attend the only discussion of the first slot.\<close>

theorem slot_discussions_correct_witness:
  "ttDiscussionID ` set (slot_discussions 1 1 sample_db) = {''disc_1''}
    \<and> Attendees (slot_entry sample_db 1 1 ''disc_1'') = 2"
proof -
  have once: "distinct (map ScheduledDiscussion (event_schedule sample_db))" by (simp add: sample_db_def)
  have only: "did = ''disc_1''" if "attending sample_db 1 1 did \<noteq> {}" for did
    using that by (auto simp: attending_def favourite_def placed_at_def sample_db_def slot_key_def)
  have mine: "attending sample_db 1 1 ''disc_1'' =
      {\<lparr>InterestUser = ''usr_a'', InterestDiscussion = ''disc_1'', InterestValue = 100\<rparr>,
       \<lparr>InterestUser = ''usr_b'', InterestDiscussion = ''disc_1'', InterestValue = 50\<rparr>}"
    by (auto simp: attending_def favourite_def placed_at_def sample_db_def slot_key_def)
  then have att: "{did. attending sample_db 1 1 did \<noteq> {}} = {''disc_1''}" using only by blast
  have "Attendees (slot_entry sample_db 1 1 ''disc_1'') = 2" by (simp add: slot_entry_def mine)
  then show ?thesis using slot_discussions_correct [OF sample_inv once, of 1 1] att by simp
qed

section \<open>Setting and reading\<close>

text \<open>
  C26: \<open>GetTimetable\<close> on a database whose days and slots are numbered without gaps returns every day
  with its name, whether all its working slots are locked, and its slots in order, each with its
  time, the formatted time in the requested zone and the discussions of that slot. It changes
  nothing, and without engine faults it does return.
\<close>

theorem GetTimetable_correct:
  assumes "event_inv (committed w)" and "contiguous (committed w)" and "tfmt = '''' \<or> tzl \<noteq> None"
    and "GetTimetable te tfmt tzl w = (r, w')"
  shows "committed w' = committed w \<and>
    (case r of Inl e \<Rightarrow> pending w \<noteq> 0 \<and> e \<noteq> NotReturned
     | Inr tt \<Rightarrow> tt = timetable_answer te tfmt tzl (committed w))"
proof -
  have run: "txLoop (GetTimetable_body te tfmt tzl) w = (r, w')" using assms(4) by (simp add: GetTimetable_def)
  show ?thesis
  proof (cases r)
    case (Inl e)
    with run have "txLoop (GetTimetable_body te tfmt tzl) w = (Inl e, w')" by simp
    from get_timetable.failure [OF assms(3) this] Inl show ?thesis by auto
  next
    case (Inr tt)
    with run have "txLoop (GetTimetable_body te tfmt tzl) w = (Inr tt, w')" by simp
    from get_timetable.success [OF assms(3) this] Inr show ?thesis unfolding view_timetable [OF assms(1,2)] by simp
  qed
qed

definition plain_env :: time_env where
  "plain_env = \<lparr>time_Format = (\<lambda>_ _. ''12:00''), time_In = (\<lambda>_ t. t)\<rparr>"

theorem GetTimetable_correct_witness:
  "event_inv (committed sample_world) \<and> contiguous (committed sample_world) \<and>
   (\<exists>w'. GetTimetable plain_env ''15:04'' (Some '''') sample_world
      = (Inr (timetable_answer plain_env ''15:04'' (Some '''') sample_db), w') \<and> committed w' = sample_db)"
proof -
  obtain r w' where x: "GetTimetable plain_env ''15:04'' (Some '''') sample_world = (r, w')" by fastforce
  have pre: "event_inv (committed sample_world)" "contiguous (committed sample_world)"
    by (simp_all add: sample_inv sample_contiguous)
  from GetTimetable_correct [OF pre _ x] x pre show ?thesis by (cases r) simp_all
qed


definition sample_timetable :: Timetable where
  "sample_timetable = \<lparr>Days =
     [\<lparr>ttDayName = ''Tuesday'', ttIsFinal = False, ttSlots =
        [\<lparr>ttTime = (1594130400, 7200), ttTimeDisplay = '''', ttIsBreak = False, ttDiscussions = []\<rparr>,
         \<lparr>ttTime = (1594132200, 7200), ttTimeDisplay = '''', ttIsBreak = False, ttDiscussions = []\<rparr>]\<rparr>,
      \<lparr>ttDayName = ''Wednesday'', ttIsFinal = False, ttSlots =
        [\<lparr>ttTime = (1594216800, 7200), ttTimeDisplay = '''', ttIsBreak = True, ttDiscussions = []\<rparr>]\<rparr>]\<rparr>"

lemma sample_set:
  obtains w' where "TimetableSet sample_timetable sample_world = (Inr (), w')" and "pending w' = 0"
proof -
  have "(case TimetableSet sample_timetable sample_world of (r, w') \<Rightarrow> r = Inr () \<and> pending w' = 0)" by code_simp
  then show ?thesis by (auto intro: that split: prod.splits)
qed

theorem TimetableSet_correct_witness:
  "event_inv (committed sample_world) \<and> contiguous (committed sample_world) \<and>
   (\<exists>w'. TimetableSet sample_timetable sample_world = (Inr (), w') \<and>
      stored_timetable (committed w') = timetable_plan sample_timetable)"
proof -
  obtain w' where x: "TimetableSet sample_timetable sample_world = (Inr (), w')" by (rule sample_set)
  have pre: "event_inv (committed sample_world)" "contiguous (committed sample_world)"
    by (simp_all add: sample_inv sample_contiguous)
  from TimetableSet_correct [OF pre x] x pre show ?thesis by (simp add: timetable_stored_def)
qed


text \<open>One scheduled discussion, of a user who is not verified.\<close>

definition scheduled_db :: database where
  "scheduled_db = sample_db\<lparr>event_users := [sample_bob], event_discussions := [sample_disc2],
     event_interest := [\<lparr>InterestUser = ''usr_b'', InterestDiscussion = ''disc_2'', InterestValue = 100\<rparr>],
     event_slots := [\<lparr>SlotID = ''slot_1'', SlotIDX = 1, SlotDay = 1, SlotTime = (1594044000, 7200),
       IsBreak = False, IsLocked = False\<rparr>],
     event_discussions_possible_slots := [],
     event_schedule := [\<lparr>ScheduledDiscussion = ''disc_2'', ScheduledSlot = ''slot_1'', ScheduledLocation = 1\<rparr>]\<rparr>"

lemma scheduled_inv: "event_inv scheduled_db"
  by (simp add: scheduled_db_def inv_defs sample_defs interest_key_def slot_key_def schedule_key_def
      not_AllWhitespace_Cons IsSpace_def IsEmailAddress_no_at)

definition scheduled_world :: world where
  "scheduled_world = sample_world\<lparr>committed := scheduled_db\<rparr>"


end
