(* ===== verification/Locations.thy ===== *)
theory Locations
  imports Discussions
begin

text \<open>
  Locations: \<^verbatim>\<open>event/location.go\<close>. \<open>DeleteLocation\<close> opens a transaction but runs its delete on the
  database handle, outside that transaction; the model does the same.
\<close>

definition checkLocationParams :: "Location \<Rightarrow> error option" where
  "checkLocationParams l =
    (if LocationName l = '''' then Some errLocationNoName
     else if Capacity l < 1 then Some errLocationInvalidCapacity
     else None)"

definition sql_insert_location :: "Location \<Rightarrow> unit stmt" where
  "sql_insert_location l d =
    (if LocationID l \<in> location_ids d then Inl (Constraint code_PrimaryKey)
     else Inr ((), d\<lparr>event_locations := event_locations d @ [l]\<rparr>))"

definition NewLocation_body :: "Location \<Rightarrow> Location tx" where
  "NewLocation_body l =
    tx_bind (tx_at ''Getting  max locationid''
      (eq_exec (sql_select (\<lambda>d. sql_max (map LocationID (event_locations d)))))) (\<lambda>maxlocid.
    let l1 = l\<lparr>LocationID := maxlocid + 1\<rparr> in
    tx_bind (tx_at ''Inserting location'' (eq_exec (sql_insert_location l1))) (\<lambda>_.
    tx_return l1))"

definition NewLocation :: "Location \<Rightarrow> Location tx" where
  "NewLocation l =
    (case checkLocationParams l of
       Some err \<Rightarrow> tx_fail err
     | None \<Rightarrow> txLoop (NewLocation_body l))"

definition LocationFindById :: "int \<Rightarrow> Location option tx" where
  "LocationFindById lid =
     db_loop (sql_opt (sql_get (\<lambda>d. filter (\<lambda>l. LocationID l = lid) (event_locations d))))"

text \<open>Deleting fails while the schedule refers to the location.\<close>

definition sql_delete_location :: "int \<Rightarrow> nat stmt" where
  "sql_delete_location lid d =
    (let gone = filter (\<lambda>l. LocationID l = lid) (event_locations d)
     in if gone \<noteq> [] \<and> list_ex (\<lambda>r. ScheduledLocation r = lid) (event_schedule d)
        then Inl (Constraint code_ForeignKey)
        else Inr (length gone, d\<lparr>event_locations := filter (\<lambda>l. LocationID l \<noteq> lid) (event_locations d)\<rparr>))"

definition DeleteLocation_body :: "int \<Rightarrow> unit tx" where
  "DeleteLocation_body lid =
    tx_bind (tx_at ''Deleting location from event_locations'' (db_exec (sql_delete_location lid))) (\<lambda>rcount.
    if rcount = 0 then tx_fail ErrLocationNotFound
    else if rcount > 1 then tx_fail ErrInternal
    else tx_return ())"

definition DeleteLocation :: "int \<Rightarrow> unit tx" where
  "DeleteLocation lid = txLoop (DeleteLocation_body lid)"

definition sql_update_location :: "Location \<Rightarrow> unit stmt" where
  "sql_update_location l = sql_write (\<lambda>d. d\<lparr>event_locations :=
     map (\<lambda>x. if LocationID x = LocationID l
              then x\<lparr>LocationName := LocationName l, LocationURL := LocationURL l,
                      IsPlace := IsPlace l, Capacity := Capacity l\<rparr>
              else x) (event_locations d)\<rparr>)"

definition LocationUpdate :: "Location \<Rightarrow> unit tx" where
  "LocationUpdate l =
    (case checkLocationParams l of
       Some err \<Rightarrow> tx_fail err
     | None \<Rightarrow> txLoop (eq_exec (sql_update_location l)))"

definition LocationGetAll :: "Location list tx" where
  "LocationGetAll = db_loop (sql_select (\<lambda>d. sort_key LocationID (event_locations d)))"

declare sql_insert_location_def [sql_defs] sql_delete_location_def [sql_defs]
  sql_update_location_def [sql_defs]

section \<open>Contracts\<close>

definition location_of :: "database \<Rightarrow> int \<Rightarrow> Location option" where
  "location_of d lid = find (\<lambda>l. LocationID l = lid) (event_locations d)"

lemma inv_insert_location:
  assumes "event_inv d" and "LocationID l \<notin> location_ids d" and "1 \<le> LocationID l"
    and "checkLocationParams l = None"
  shows "event_inv (d\<lparr>event_locations := event_locations d @ [l]\<rparr>)" (is "event_inv ?d")
proof -
  have ids: "location_ids ?d = insert (LocationID l) (location_ids d)" by (simp add: location_ids_def)
  have "locations_ok ?d" "locations_content ?d"
    using assms by (auto simp: inv_split locations_ok_def locations_content_def location_ids_def
        checkLocationParams_def split: if_splits)
  moreover have "schedule_ok ?d"
    using assms(1) unfolding schedule_ok_def ids by (simp add: inv_split schedule_ok_def)
  ultimately show ?thesis using assms(1) by (simp add: inv_split)
qed

lemma next_location_fresh:
  assumes "event_inv d"
  shows "sql_max (map LocationID (event_locations d)) + 1 \<notin> location_ids d"
    and "1 \<le> sql_max (map LocationID (event_locations d)) + 1"
proof -
  show "sql_max (map LocationID (event_locations d)) + 1 \<notin> location_ids d"
    using sql_max_fresh [of "map LocationID (event_locations d)"] by (simp add: location_ids_def)
  show "1 \<le> sql_max (map LocationID (event_locations d)) + 1"
    using sql_max_nonneg [of "map LocationID (event_locations d)"] assms
    by (simp add: inv_split locations_content_def)
qed

interpretation new_location: tx_contract "NewLocation_body l"
  "\<lambda>d. event_inv d \<and> checkLocationParams l = None"
  "\<lambda>d l' d'. event_inv d' \<and> d' = d\<lparr>event_locations := event_locations d @ [l']\<rparr>
     \<and> l' = l\<lparr>LocationID := sql_max (map LocationID (event_locations d)) + 1\<rparr>"
  "\<lambda>d e. False" for l
proof unfold_locales
  fix d assume pre: "event_inv d \<and> checkLocationParams l = None"
  let ?l = "l\<lparr>LocationID := sql_max (map LocationID (event_locations d)) + 1\<rparr>"
  have "checkLocationParams ?l = None" using pre by (simp add: checkLocationParams_def split: if_splits)
  then have "event_inv (d\<lparr>event_locations := event_locations d @ [?l]\<rparr>)"
    using pre next_location_fresh [of d] by (intro inv_insert_location) simp_all
  then show "wp (NewLocation_body l) (\<lambda>l' d'. event_inv d' \<and> d' = d\<lparr>event_locations := event_locations d @ [l']\<rparr>
      \<and> l' = ?l) (\<lambda>e. False) d"
    unfolding NewLocation_body_def Let_def
    using next_location_fresh(1) [of d] pre
    by (auto intro!: tx_wp simp: sql_select_def sql_insert_location_def)
qed

interpretation update_location: stmt_contract "sql_update_location l"
  "\<lambda>d. event_inv d \<and> checkLocationParams l = None"
  "\<lambda>d _ d'. event_inv d' \<and> d' = d\<lparr>event_locations := event_locations d'\<rparr> \<and>
     (\<forall>lid. location_of d' lid =
        (if lid = LocationID l then map_option (\<lambda>_. l) (location_of d lid) else location_of d lid))"
  "\<lambda>d e. False" for l
proof unfold_locales
  fix d assume pre: "event_inv d \<and> checkLocationParams l = None"
  let ?g = "\<lambda>x. x\<lparr>LocationName := LocationName l, LocationURL := LocationURL l,
      IsPlace := IsPlace l, Capacity := Capacity l\<rparr>"
  let ?d = "d\<lparr>event_locations := map (\<lambda>x. if LocationID x = LocationID l then ?g x else x) (event_locations d)\<rparr>"
  have ids: "location_ids ?d = location_ids d"
    unfolding location_ids_def using image_key_update [of "\<lambda>x. LocationID x = LocationID l" LocationID ?g]
    by (simp del: set_map)
  have "locations_ok ?d" "locations_content ?d"
    using pre by (auto simp: inv_split locations_ok_def locations_content_def checkLocationParams_def
        split: if_splits)
  moreover have "schedule_ok ?d"
    using pre unfolding schedule_ok_def ids by (simp add: inv_split schedule_ok_def)
  ultimately have "event_inv ?d" using pre by (simp add: inv_split)
  moreover have "location_of ?d lid =
      (if lid = LocationID l then map_option (\<lambda>_. l) (location_of d lid) else location_of d lid)" for lid
    using find_map_update [of LocationID ?g lid "LocationID l" "event_locations d"]
    by (auto simp: location_of_def option.map_ident_strong dest!: find_key_Some
        intro!: option.map_cong Location.equality split: if_splits)
  ultimately show "case sql_update_location l d of Inl x \<Rightarrow> False
    | Inr (v, d') \<Rightarrow> event_inv d' \<and> d' = d\<lparr>event_locations := event_locations d'\<rparr> \<and>
      (\<forall>lid. location_of d' lid =
        (if lid = LocationID l then map_option (\<lambda>_. l) (location_of d lid) else location_of d lid))"
    by (simp add: sql_update_location_def sql_write_def)
qed

section \<open>A body that leaves its transaction\<close>

text \<open>
  The contract of \<open>txLoop\<close> needs a body that works on the transaction. For one that writes through
  the handle, an invariant of every write is an invariant of the loop.
\<close>

lemma txRounds_invariant:
  assumes body: "\<And>w r w'. I (committed w) \<Longrightarrow> working w = None \<Longrightarrow> txFunc w = (r, w') \<Longrightarrow>
      I (committed w') \<and> working w' = None"
    and "I (committed w)" and "txRounds fuel start cnt txFunc w = (r, w')"
  shows "I (committed w')"
  using assms(2,3)
proof (induction fuel arbitrary: cnt w)
  case (Suc fuel)
  obtain slow w1 where s: "slow_start start (cnt + 1) w = (slow, w1)" by fastforce
  note c1 = slow_start_frame(1) [OF s]
  show ?case
  proof (cases slow)
    case True
    with Suc.prems s c1 show ?thesis by (auto simp: time_Now_def)
  next
    case False
    obtain r2 w2 where b: "tx_Beginx w1 = (r2, w2)" by fastforce
    then have c2: "committed w2 = committed w" "r2 = Inr () \<Longrightarrow> working w2 = None"
      using c1 by (auto simp: tx_Beginx_def next_fault_frame split: prod.splits option.splits)
    show ?thesis
    proof (cases r2)
      case (Inl e)
      have "I (committed w2)" using Suc.prems(1) c2(1) by simp
      with Suc.prems(2) Suc.IH [of w2 "cnt + 1"] s False b Inl show ?thesis by (auto split: if_splits)
    next
      case (Inr u)
      obtain r3 w3 where x: "txFunc w2 = (r3, w3)" by fastforce
      have c3: "I (committed w3) \<and> working w3 = None"
        using body [OF _ _ x] c2 Inr Suc.prems(1) by simp
      obtain r4 w4 where k: "tx_Commit w3 = (r4, w4)" by fastforce
      then have "I (committed w4)" using c3
        by (auto simp: tx_Commit_def next_fault_frame db_view_def split: prod.splits option.splits)
      with Suc.prems(2) Suc.IH [of "tx_Rollback w3" "cnt + 1"] Suc.IH [of "tx_Rollback w4" "cnt + 1"]
        s False b Inr x k c3
      show ?thesis by (auto split: if_splits sum.splits)
    qed
  qed
qed simp

lemma txLoop_invariant:
  assumes "\<And>w r w'. I (committed w) \<Longrightarrow> working w = None \<Longrightarrow> txFunc w = (r, w') \<Longrightarrow>
      I (committed w') \<and> working w' = None"
    and "I (committed w)" and "txLoop txFunc w = (r, w')"
  shows "I (committed w')"
proof -
  obtain t w1 where n: "time_Now w = (t, w1)" by fastforce
  obtain r2 w2 where a: "txRounds (Suc (pending w)) t 0 txFunc (w1\<lparr>working := None\<rparr>) = (r2, w2)" by fastforce
  have "I (committed (w1\<lparr>working := None\<rparr>))" using assms(2) n by (auto simp: time_Now_def)
  from txRounds_invariant [where I = I, OF assms(1) this a] assms(3) n a show ?thesis
    by (auto simp: txLoop_def)
qed

text \<open>Without faults the loop runs its body once.\<close>

lemma next_fault_quiet:
  assumes "pending v = 0"
  obtains w1 where "next_fault v = (None, w1)" "committed w1 = committed v" "working w1 = working v"
    "db_view w1 = db_view v" "pending w1 = 0"
proof -
  obtain f w1 where f: "next_fault v = (f, w1)" by fastforce
  then have "f = None" using next_fault_Some_pending assms by (cases f) fastforce+
  with f that next_fault_frame [OF f] next_fault_None_pending assms show ?thesis by metis
qed

lemma txLoop_quiet:
  assumes quiet: "pending w = 0" and run: "txLoop txFunc w = (r, w')"
    and body: "\<And>w1. committed w1 = committed w \<Longrightarrow> pending w1 = 0 \<Longrightarrow> working w1 = None \<Longrightarrow>
      \<exists>w2. txFunc w1 = (r0, w2) \<and> committed w2 = d2 \<and> working w2 = None \<and> pending w2 = 0"
    and err: "\<And>e. r0 = Inl e \<Longrightarrow> \<not> shouldRetry e"
  shows "r = r0 \<and> committed w' = d2"
proof -
  obtain t w1 where n: "time_Now w = (t, w1)" by fastforce
  let ?w1 = "w1\<lparr>working := None\<rparr>"
  have fr: "committed ?w1 = committed w" "pending ?w1 = 0" using n quiet by (auto simp: time_Now_def)
  obtain b0 where b0: "next_fault ?w1 = (None, b0)" "committed b0 = committed ?w1" "pending b0 = 0"
    by (rule next_fault_quiet [OF fr(2)])
  define b where "b = b0\<lparr>working := None\<rparr>"
  have b: "tx_Beginx ?w1 = (Inr (), b)" "committed b = committed w" "pending b = 0" "working b = None"
    using b0 fr(1) by (simp_all add: tx_Beginx_def b_def)
  from body [OF b(2,3,4)] obtain w2 where w2: "txFunc b = (r0, w2)" "committed w2 = d2" "working w2 = None"
    "pending w2 = 0" by blast
  obtain w20 where "next_fault w2 = (None, w20)" "db_view w20 = db_view w2"
    by (rule next_fault_quiet [OF w2(4)])
  then obtain w3 where w3: "tx_Commit w2 = (Inr (), w3)" "committed w3 = d2"
    using w2(2,3) by (simp add: tx_Commit_def db_view_def)
  have s: "slow_start t (Suc 0) ?w1 = (False, ?w1)" by (simp add: slow_start_def minTxRetries_def)
  show ?thesis
    using run n s b w2 w3 err quiet by (cases r0) (auto simp: txLoop_def Let_def)
qed

lemma DeleteLocation_body_step:
  assumes "next_fault v = (None, w1)"
  shows "DeleteLocation_body lid v =
    (case sql_delete_location lid (committed w1) of
       Inl x \<Rightarrow> (Inl (ErrorfAt ''Deleting location from event_locations'' (of_stmt_error x)), w1)
     | Inr (n, d') \<Rightarrow>
         (if n = 0 then Inl ErrLocationNotFound else if n > 1 then Inl ErrInternal else Inr (),
          w1\<lparr>committed := d'\<rparr>))"
  using assms
  by (auto simp: DeleteLocation_body_def tx_bind_def tx_at_def db_exec_def tx_fail_def tx_return_def
      errOrRetry_def split: sum.splits)

lemma inv_delete_location:
  assumes inv: "event_inv d" and "sql_delete_location lid d = Inr (n, d')"
  shows "event_inv d'"
proof -
  let ?d = "d\<lparr>event_locations := filter (\<lambda>l. LocationID l \<noteq> lid) (event_locations d)\<rparr>"
  have d': "d' = ?d" and free: "lid \<in> location_ids d \<Longrightarrow> \<forall>r \<in> set (event_schedule d). ScheduledLocation r \<noteq> lid"
    using assms(2) by (auto simp: sql_delete_location_def Let_def list_ex_iff location_ids_def
        filter_empty_conv split: if_splits)
  have ids: "location_ids ?d = location_ids d - {lid}" by (auto simp: location_ids_def)
  have "\<forall>r \<in> set (event_schedule d). ScheduledLocation r \<in> location_ids d - {lid}"
    using inv free by (auto simp: inv_split schedule_ok_def)
  then have "schedule_ok ?d" using inv unfolding schedule_ok_def ids by (simp add: inv_split schedule_ok_def)
  moreover have "locations_ok ?d" "locations_content ?d"
    using inv by (simp_all add: inv_split locations_ok_def locations_content_def distinct_map_filterI)
  ultimately show ?thesis using inv by (simp add: d' inv_split)
qed

lemma DeleteLocation_body_keeps:
  assumes "event_inv (committed w)" and "working w = None" and "DeleteLocation_body lid w = (r, w')"
  shows "event_inv (committed w') \<and> working w' = None"
proof -
  obtain f w1 where f: "next_fault w = (f, w1)" by fastforce
  note fr = next_fault_frame(1,2) [OF f]
  show ?thesis
  proof (cases f)
    case (Some e)
    with f assms fr show ?thesis
      by (simp add: DeleteLocation_body_def tx_bind_def tx_at_def db_exec_def)
  next
    case None
    with DeleteLocation_body_step [of w w1 lid] f assms fr inv_delete_location [of "committed w" lid]
    show ?thesis by (cases "sql_delete_location lid (committed w)") auto
  qed
qed

section \<open>Properties\<close>

text \<open>
  Adding a location either appends it under the identifier one above the highest in use, which
  is positive and new, and changes nothing else, or fails and changes nothing; without engine
  faults it fails only for an empty name or a capacity below one.
\<close>
theorem NewLocation_correct:
  assumes "event_inv (committed w)" and "NewLocation l w = (r, w')"
  shows "event_inv (committed w') \<and>
    (case r of
       Inr l' \<Rightarrow> LocationID l' \<notin> location_ids (committed w)
         \<and> (\<forall>x \<in> location_ids (committed w). x < LocationID l') \<and> 1 \<le> LocationID l'
         \<and> l' = l\<lparr>LocationID := LocationID l'\<rparr>
         \<and> committed w' = (committed w)\<lparr>event_locations := event_locations (committed w) @ [l']\<rparr>
     | Inl e \<Rightarrow> committed w' = committed w
         \<and> (pending w = 0 \<longrightarrow> (e = errLocationNoName \<and> LocationName l = '''') \<or>
              (e = errLocationInvalidCapacity \<and> Capacity l < 1)))"
proof (cases "checkLocationParams l")
  case (Some e)
  with assms show ?thesis by (auto simp: NewLocation_def tx_fail_def checkLocationParams_def split: if_splits)
next
  case None
  with assms(2) have run: "txLoop (NewLocation_body l) w = (r, w')" by (simp add: NewLocation_def)
  have "x < sql_max (map LocationID (event_locations (committed w))) + 1" if "x \<in> location_ids (committed w)" for x
    using that sql_max_ge [of x "map LocationID (event_locations (committed w))"]
    by (simp add: location_ids_def zle_iff_zadd)
  with new_location.outcome [OF _ run] next_location_fresh [OF assms(1)] assms(1) None show ?thesis
    by (cases r) (auto simp: tx_outcome_def)
qed

theorem NewLocation_correct_witness:
  "event_inv (committed busy_world) \<and>
   (\<exists>l' w'. NewLocation (zero_location\<lparr>LocationName := ''Hall'', Capacity := 5\<rparr>) busy_world = (Inr l', w')
      \<and> 1 \<le> LocationID l' \<and> committed w' = sample_db\<lparr>event_locations := event_locations sample_db @ [l']\<rparr>)"
proof -
  let ?x = "NewLocation (zero_location\<lparr>LocationName := ''Hall'', Capacity := 5\<rparr>) busy_world"
  have "\<not> isl (fst ?x)" by code_simp
  then obtain l' w' where x: "?x = (Inr l', w')" by (metis prod.collapse sum.collapse(2))
  have inv: "event_inv (committed busy_world)" by (simp add: sample_inv)
  from NewLocation_correct [OF inv x] x inv show ?thesis by auto
qed

text \<open>
  C22: Deleting a location keeps the integrity of the database under every sequence of engine
  faults. Without faults it deletes exactly that location, or reports that it does not exist, or
  fails because the schedule uses it, and then nothing changes.
\<close>
theorem DeleteLocation_correct:
  assumes inv: "event_inv (committed w)" and run: "DeleteLocation lid w = (r, w')"
  shows "event_inv (committed w') \<and>
    (pending w = 0 \<longrightarrow>
      (case r of
         Inr _ \<Rightarrow> lid \<in> location_ids (committed w)
           \<and> (\<forall>x \<in> set (event_schedule (committed w)). ScheduledLocation x \<noteq> lid)
           \<and> committed w' = (committed w)\<lparr>event_locations :=
                filter (\<lambda>l. LocationID l \<noteq> lid) (event_locations (committed w))\<rparr>
       | Inl e \<Rightarrow> committed w' = committed w \<and>
           ((e = ErrLocationNotFound \<and> lid \<notin> location_ids (committed w)) \<or>
            (\<exists>x \<in> set (event_schedule (committed w)). ScheduledLocation x = lid))))"
proof
  show "event_inv (committed w')"
    using DeleteLocation_body_keeps inv run [unfolded DeleteLocation_def] by (rule txLoop_invariant)
next
  let ?d = "committed w"
  let ?d' = "?d\<lparr>event_locations := filter (\<lambda>l. LocationID l \<noteq> lid) (event_locations ?d)\<rparr>"
  let ?used = "\<exists>x \<in> set (event_schedule ?d). ScheduledLocation x = lid"
  have cnt: "length (filter (\<lambda>l. LocationID l = lid) (event_locations ?d)) = (if lid \<in> location_ids ?d then 1 else 0)"
    using inv by (simp add: length_filter_key inv_split locations_ok_def location_ids_def)
  have ne: "filter (\<lambda>l. LocationID l = lid) (event_locations ?d) \<noteq> [] \<longleftrightarrow> lid \<in> location_ids ?d"
    by (auto simp: filter_empty_conv location_ids_def)
  have none: "lid \<notin> location_ids ?d \<Longrightarrow> ?d' = ?d"
    by (auto simp: location_ids_def intro!: database.equality filter_True)
  let ?r = "if lid \<notin> location_ids ?d then Inl ErrLocationNotFound
    else if ?used then Inl (ErrorfAt ''Deleting location from event_locations'' (of_stmt_error (Constraint code_ForeignKey)))
    else Inr ()"
  have del: "sql_delete_location lid ?d = (if lid \<in> location_ids ?d \<and> ?used then Inl (Constraint code_ForeignKey)
      else Inr (if lid \<in> location_ids ?d then 1 else 0, ?d'))"
    unfolding sql_delete_location_def Let_def ne cnt list_ex_iff by simp
  show "pending w = 0 \<longrightarrow> (case r of
         Inr _ \<Rightarrow> lid \<in> location_ids ?d \<and> (\<forall>x \<in> set (event_schedule ?d). ScheduledLocation x \<noteq> lid) \<and> committed w' = ?d'
       | Inl e \<Rightarrow> committed w' = ?d \<and> ((e = ErrLocationNotFound \<and> lid \<notin> location_ids ?d) \<or> ?used))"
  proof
    assume p: "pending w = 0"
    have "r = ?r \<and> committed w' = (if isl ?r then ?d else ?d')"
      using p run [unfolded DeleteLocation_def]
    proof (rule txLoop_quiet)
      fix v :: world assume v: "committed v = ?d" "pending v = 0" "working v = None"
      obtain w1 where w1: "next_fault v = (None, w1)" "committed w1 = ?d" "working w1 = None" "pending w1 = 0"
        using v by (rule_tac next_fault_quiet [OF v(2)]) simp
      consider "lid \<notin> location_ids ?d" | "lid \<in> location_ids ?d" "?used" | "lid \<in> location_ids ?d" "\<not> ?used"
        by blast
      then show "\<exists>w2. DeleteLocation_body lid v = (?r, w2) \<and> committed w2 = (if isl ?r then ?d else ?d')
          \<and> working w2 = None \<and> pending w2 = 0"
        by cases (simp_all add: DeleteLocation_body_step [OF w1(1)] w1 del none del: of_stmt_error.simps)
    qed (auto split: if_splits)
    then show "case r of
         Inr _ \<Rightarrow> lid \<in> location_ids ?d \<and> (\<forall>x \<in> set (event_schedule ?d). ScheduledLocation x \<noteq> lid) \<and> committed w' = ?d'
       | Inl e \<Rightarrow> committed w' = ?d \<and> ((e = ErrLocationNotFound \<and> lid \<notin> location_ids ?d) \<or> ?used)"
      by (auto split: if_splits)
  qed
qed

theorem DeleteLocation_correct_witness:
  "event_inv (committed sample_world) \<and>
   (\<exists>w'. DeleteLocation 2 sample_world = (Inr (), w') \<and> event_inv (committed w')
      \<and> map LocationID (event_locations (committed w')) = [1])"
proof -
  let ?x = "DeleteLocation 2 sample_world"
  have "fst ?x = Inr ()" by code_simp
  then obtain w' where x: "?x = (Inr (), w')" by (metis prod.collapse)
  have inv: "event_inv (committed sample_world)" by (simp add: sample_inv)
  from DeleteLocation_correct [OF inv x] x inv show ?thesis by (auto simp: sample_db_def)
qed

text \<open>The engine is busy when the (empty) transaction around the delete commits.\<close>

definition busy_commit_world :: world where
  "busy_commit_world = sample_world\<lparr>faults := [None, None, Some (SqliteError 5 5)]\<rparr>"

text \<open>
  \<open>DeleteLocation\<close> is not atomic. Because its delete runs outside the transaction, a retry that
  a busy commit triggers reports a missing location for the very location it has just deleted.
\<close>
theorem DeleteLocation_not_atomic:
  "fst (DeleteLocation 2 busy_commit_world) = Inl ErrLocationNotFound \<and>
   map LocationID (event_locations (committed busy_commit_world)) = [1, 2] \<and>
   map LocationID (event_locations (committed (snd (DeleteLocation 2 busy_commit_world)))) = [1]"
  by code_simp

text \<open>
  Updating a location changes the fields of that location and of no other, keeps its
  identifier, and touches no other table; for an empty name or a capacity below one it fails and
  changes nothing. A location that does not exist is not reported.
\<close>
theorem LocationUpdate_correct:
  assumes "event_inv (committed w)" and "LocationUpdate l w = (r, w')"
  shows "event_inv (committed w') \<and>
    committed w' = (committed w)\<lparr>event_locations := event_locations (committed w')\<rparr> \<and>
    (case r of
       Inr _ \<Rightarrow> (\<forall>lid. location_of (committed w') lid =
         (if lid = LocationID l then map_option (\<lambda>_. l) (location_of (committed w) lid)
          else location_of (committed w) lid))
     | Inl e \<Rightarrow> committed w' = committed w \<and> (pending w = 0 \<longrightarrow> checkLocationParams l = Some e))"
proof (cases "checkLocationParams l")
  case (Some e)
  with assms show ?thesis by (auto simp: LocationUpdate_def tx_fail_def)
next
  case None
  with assms(2) have "txLoop (eq_exec (sql_update_location l)) w = (r, w')" by (simp add: LocationUpdate_def)
  from update_location.outcome [OF _ this] assms(1) None show ?thesis
    by (cases r) (auto simp: tx_outcome_def)
qed

theorem LocationUpdate_correct_witness:
  "event_inv (committed busy_world) \<and>
   (\<exists>w'. LocationUpdate (zero_location\<lparr>LocationID := 2, LocationName := ''Hall'', Capacity := 5\<rparr>) busy_world = (Inr (), w')
      \<and> location_of (committed w') 2 = Some (zero_location\<lparr>LocationID := 2, LocationName := ''Hall'', Capacity := 5\<rparr>))"
proof -
  let ?l = "zero_location\<lparr>LocationID := 2, LocationName := ''Hall'', Capacity := 5\<rparr>"
  let ?x = "LocationUpdate ?l busy_world"
  have "fst ?x = Inr ()" by code_simp
  then obtain w' where x: "?x = (Inr (), w')" by (metis prod.collapse)
  have inv: "event_inv (committed busy_world)" by (simp add: sample_inv)
  from LocationUpdate_correct [OF inv x] have "location_of (committed w') 2 = Some ?l"
    by (auto simp: location_of_def sample_db_def zero_location_def)
  with x inv show ?thesis by blast
qed

end
