(* ===== verification/Reading.thy ===== *)
theory Reading
  imports Timetable_View Locations
begin

text \<open>
  Calls that change nothing. \<open>same_view\<close> relates two worlds with the same committed database and the
  same view of the open transaction, if there is one; \<open>only_reads\<close> is the calls that go from a world
  to such a one, whatever the engine does. It composes, also under \<open>txLoop\<close>, and holds of all the
  queries of the event package.
\<close>

named_theorems reads \<open>calls that change nothing\<close>

definition same_view :: "world \<Rightarrow> world \<Rightarrow> bool" where
  "same_view w w' \<longleftrightarrow> committed w' = committed w \<and> db_view w' = db_view w \<and> pending w' \<le> pending w
     \<and> clock w' = clock w \<and> entropy w' = entropy w"

lemma same_view_refl [simp, intro]: "same_view w w"
  by (simp add: same_view_def)

lemma same_view_trans: "same_view w w1 \<Longrightarrow> same_view w1 w2 \<Longrightarrow> same_view w w2"
  by (auto simp: same_view_def)

definition only_reads :: "(world \<Rightarrow> 'a \<times> world) \<Rightarrow> bool" where
  "only_reads f \<longleftrightarrow> (\<forall>w r w'. f w = (r, w') \<longrightarrow> same_view w w')"

lemma only_readsI: "(\<And>w r w'. f w = (r, w') \<Longrightarrow> same_view w w') \<Longrightarrow> only_reads f"
  by (simp add: only_reads_def)

lemma only_readsD: "only_reads f \<Longrightarrow> f w = (r, w') \<Longrightarrow> same_view w w'"
  by (simp add: only_reads_def)

lemma next_fault_same: "next_fault w = (e, w') \<Longrightarrow> same_view w w'"
  using next_fault_frame [of w e w'] next_fault_Some_pending [of w] next_fault_None_pending [of w w']
  by (cases e) (auto simp: same_view_def)

lemma time_Now_same: "time_Now w = (t, w') \<Longrightarrow> same_view w w'"
  by (auto simp: time_Now_def same_view_def)

lemma reads_return [reads]: "only_reads (tx_return v)"
  by (rule only_readsI) (simp add: tx_return_def)

lemma reads_fail [reads]: "only_reads (tx_fail e)"
  by (rule only_readsI) (simp add: tx_fail_def)

lemma reads_bind [reads]:
  assumes "only_reads m" and "\<And>v. only_reads (f v)"
  shows "only_reads (tx_bind m f)"
proof (rule only_readsI)
  fix w r w' assume run: "tx_bind m f w = (r, w')"
  obtain r1 w1 where m: "m w = (r1, w1)" by fastforce
  note s = only_readsD [OF assms(1) m]
  show "same_view w w'"
  proof (cases r1)
    case (Inl e)
    with run m s show ?thesis by (simp add: tx_bind_def)
  next
    case (Inr v)
    with run m have "f v w1 = (r, w')" by (simp add: tx_bind_def)
    with s assms(2) show ?thesis by (meson only_readsD same_view_trans)
  qed
qed

lemma reads_at [reads]: "only_reads m \<Longrightarrow> only_reads (tx_at c m)"
  by (auto simp: only_reads_def tx_at_def split: prod.splits sum.splits)

text \<open>A statement that only reads.\<close>

definition read_stmt :: "'a stmt \<Rightarrow> bool" where
  "read_stmt s \<longleftrightarrow> (\<forall>d v d'. s d = Inr (v, d') \<longrightarrow> d' = d)"

lemma read_select [reads]: "read_stmt (sql_select q)"
  by (simp add: read_stmt_def sql_select_def)

lemma read_get [reads]: "read_stmt (sql_get q)"
  by (auto simp: read_stmt_def sql_get_def split: list.splits)

lemma read_opt [reads]: "read_stmt s \<Longrightarrow> read_stmt (sql_opt s)"
  by (auto simp: read_stmt_def sql_opt_def split: sum.splits stmt_error.splits)

lemma reads_eq_exec [reads]:
  assumes "read_stmt s"
  shows "only_reads (eq_exec s)"
proof (rule only_readsI)
  fix w r w' assume run: "eq_exec s w = (r, w')"
  obtain e w1 where f: "next_fault w = (e, w1)" by fastforce
  have "same_view w1 (w1\<lparr>working := Some (db_view w1)\<rparr>)" by (simp add: same_view_def)
  then show "same_view w w'"
    using run f next_fault_same [OF f] assms
    by (auto simp: eq_exec_def read_stmt_def split: option.splits sum.splits intro: same_view_trans)
qed

lemma reads_db_exec [reads]:
  assumes "read_stmt s"
  shows "only_reads (db_exec s)"
proof (rule only_readsI)
  fix w r w' assume run: "db_exec s w = (r, w')"
  obtain e w1 where f: "next_fault w = (e, w1)" by fastforce
  have same: "w1\<lparr>committed := b\<rparr> = w1" if "s (committed w1) = Inr (a, b)" for a b
  proof -
    have "b = committed w1" using assms that by (simp add: read_stmt_def)
    then show ?thesis by simp
  qed
  show "same_view w w'"
    using run f next_fault_same [OF f] by (auto simp: db_exec_def same split: option.splits sum.splits)
qed

lemma reads_db_loop [reads]:
  assumes "read_stmt s"
  shows "only_reads (db_loop s)"
proof (rule only_readsI)
  fix w r w' assume "db_loop s w = (r, w')"
  then show "same_view w w'"
    using assms
  proof (induction s w arbitrary: r w' rule: db_loop.induct)
    case (1 s w)
    obtain r1 w1 where x: "db_exec s w = (r1, w1)" by fastforce
    have s: "same_view w w1" by (rule only_readsD [OF reads_db_exec [OF 1(3)] x])
    show ?case
    proof (cases "\<exists>e. r1 = Inl e \<and> shouldRetry e")
      case True
      then obtain e where e: "r1 = Inl e" "shouldRetry e" by blast
      then have "db_loop s w1 = (r, w')" using 1(2) x by (simp add: db_loop.simps [of s w])
      from 1(1) [OF x [symmetric, unfolded e(1)] refl e(2) this 1(3)] s show ?thesis by (rule same_view_trans [rotated])
    next
      case False
      then have "w' = w1" using 1(2) x by (auto simp: db_loop.simps [of s w] split: sum.splits)
      with s show ?thesis by simp
    qed
  qed
qed

section \<open>Transactions that only read\<close>

lemma same_view_committed: "same_view w w' \<Longrightarrow> working w' = None \<Longrightarrow> same_view w (w'\<lparr>working := None\<rparr>)"
  by (auto simp: same_view_def db_view_def)

text \<open>What a transaction that only reads leaves of the world: everything but its own snapshot.\<close>

definition same_committed :: "world \<Rightarrow> world \<Rightarrow> bool" where
  "same_committed w w' \<longleftrightarrow> committed w' = committed w \<and> pending w' \<le> pending w
     \<and> clock w' = clock w \<and> entropy w' = entropy w"

lemma same_committed_refl [simp]: "same_committed w w"
  by (simp add: same_committed_def)

lemma same_committed_trans: "same_committed w w1 \<Longrightarrow> same_committed w1 w2 \<Longrightarrow> same_committed w w2"
  by (auto simp: same_committed_def)

lemma same_view_same_committed: "same_view w w' \<Longrightarrow> same_committed w w'"
  by (simp add: same_view_def same_committed_def)

lemma slow_start_same: "slow_start start n w = (b, w') \<Longrightarrow> same_view w w'"
  by (auto simp: slow_start_def time_Now_def same_view_def split: if_splits)

lemma tx_Beginx_same:
  assumes "tx_Beginx w = (r, w')"
  shows "same_committed w w'" and "r = Inr () \<Longrightarrow> db_view w' = committed w"
proof -
  obtain e w1 where f: "next_fault w = (e, w1)" by fastforce
  show "same_committed w w'" "r = Inr () \<Longrightarrow> db_view w' = committed w"
    using assms f same_view_same_committed [OF next_fault_same [OF f]]
    by (auto simp: tx_Beginx_def same_committed_def split: option.splits)
qed

lemma tx_Rollback_same: "same_committed w (tx_Rollback w)"
  by (simp add: tx_Rollback_def same_committed_def)

lemma tx_Commit_same:
  assumes "tx_Commit w = (r, w')" and "db_view w = committed w"
  shows "same_committed w w'"
proof -
  obtain e w1 where f: "next_fault w = (e, w1)" by fastforce
  note s = next_fault_same [OF f]
  show ?thesis using assms f s by (auto simp: tx_Commit_def same_committed_def same_view_def split: option.splits)
qed

text \<open>The stages of one round, for a body that goes from \<open>w2\<close> to \<open>w3\<close> and only reads.\<close>

lemma round_same:
  assumes sl: "slow_start start n w = (slow, w1)" and bg: "tx_Beginx w1 = (b, w2)" and sv: "same_view w2 w3"
    and cm: "tx_Commit w3 = (c, w4)"
  shows "same_committed w w1" and "same_committed w w2" and "same_committed w (tx_Rollback w3)"
    and "b = Inr () \<Longrightarrow> same_committed w w4" and "b = Inr () \<Longrightarrow> same_committed w (tx_Rollback w4)"
proof -
  show s1: "same_committed w w1" by (rule same_view_same_committed [OF slow_start_same [OF sl]])
  show s2: "same_committed w w2" using s1 tx_Beginx_same(1) [OF bg] by (rule same_committed_trans)
  have s3: "same_committed w w3" using s2 same_view_same_committed [OF sv] by (rule same_committed_trans)
  show "same_committed w (tx_Rollback w3)" using s3 tx_Rollback_same by (rule same_committed_trans)
  show s4: "same_committed w w4" if "b = Inr ()"
  proof -
    have "db_view w3 = committed w3" using sv tx_Beginx_same [OF bg] that by (simp add: same_view_def same_committed_def)
    with s3 tx_Commit_same [OF cm] show ?thesis by (blast intro: same_committed_trans)
  qed
  show "same_committed w (tx_Rollback w4)" if "b = Inr ()" using s4 [OF that] tx_Rollback_same by (rule same_committed_trans)
qed

lemma reads_txRounds:
  assumes "only_reads f" and "txRounds fuel start cnt f w = (r, w')"
  shows "same_committed w w'"
  using assms(2)
proof (induction fuel arbitrary: cnt w)
  case (Suc fuel)
  obtain slow w1 where sl: "slow_start start (cnt + 1) w = (slow, w1)" by fastforce
  obtain b w2 where bg: "tx_Beginx w1 = (b, w2)" by fastforce
  obtain x w3 where fx: "f w2 = (x, w3)" by fastforce
  obtain c w4 where cm: "tx_Commit w3 = (c, w4)" by fastforce
  note s = round_same [OF sl bg only_readsD [OF assms(1) fx] cm]
  show ?case
  proof (cases slow)
    case True
    then show ?thesis using Suc.prems sl s(1) by (auto simp: Let_def time_Now_def same_committed_def)
  next
    case False
    then show ?thesis
      using Suc.prems sl bg fx cm s Suc.IH
      by (auto simp: Let_def split: sum.splits if_splits intro: same_committed_trans)
  qed
qed simp

lemma same_committed_view: "same_committed w w' \<Longrightarrow> same_view w (w'\<lparr>working := working w\<rparr>)"
  by (auto simp: same_view_def same_committed_def db_view_def split: option.split)

lemma reads_txLoop [reads]:
  assumes "only_reads f"
  shows "only_reads (txLoop f)"
proof (rule only_readsI)
  fix w r w' assume run: "txLoop f w = (r, w')"
  obtain t w1 where n: "time_Now w = (t, w1)" by fastforce
  obtain x w2 where a: "txRounds (Suc (pending w)) t 0 f (w1\<lparr>working := None\<rparr>) = (x, w2)" by fastforce
  have "same_committed w w2"
    using reads_txRounds [OF assms a] same_view_same_committed [OF time_Now_same [OF n]] by (simp add: same_committed_def)
  moreover have "w' = w2\<lparr>working := working w\<rparr>" using run n a by (simp add: txLoop_def Let_def del: txRounds.simps)
  ultimately show "same_view w w'" using same_committed_view by simp
qed

lemma reads_tx_map [reads]: "(\<And>x. only_reads (f x)) \<Longrightarrow> only_reads (tx_map f xs)"
  by (induction xs) (simp_all add: reads)

section \<open>The queries\<close>

lemma read_get_user [reads]: "read_stmt (sql_get_user tz q)"
  by (auto simp: read_stmt_def sql_get_user_def split: sum.splits list.splits)

lemma read_userGetTx [reads]: "read_stmt (userGetTx tz uid)"
  unfolding userGetTx_def by (rule reads)

lemma reads_UserFind [reads]: "only_reads (UserFind tz uid)"
  unfolding UserFind_def UserFind_body_def by (intro reads)

lemma reads_UserFindByUsername [reads]: "only_reads (UserFindByUsername tz name)"
  unfolding UserFindByUsername_def by (intro reads)

lemma reads_UserGetAll [reads]: "only_reads (UserGetAll tz)"
proof -
  have "read_stmt (userGetAllTx tz)" by (auto simp: read_stmt_def userGetAllTx_def split: sum.splits)
  then show ?thesis unfolding UserGetAll_def by (intro reads)
qed

lemma reads_GetLocationTZ [reads]: "only_reads (GetLocationTZ tz u)"
  unfolding GetLocationTZ_def by (intro reads)

lemma reads_GetInterest [reads]: "only_reads (GetInterest u d)"
  unfolding GetInterest_def GetInterest_body_def userGetInterestTx_def by (intro reads)

lemma read_possible [reads]: "read_stmt (discussionGetPossibleSlotsTx did)"
  unfolding discussionGetPossibleSlotsTx_def by (intro reads)

lemma reads_findFull:
  assumes "\<And>s :: DisplaySlot list stmt. read_stmt s \<Longrightarrow> only_reads (q s)"
  shows "only_reads (discussionFindByIdFullTx tz q did)"
  unfolding discussionFindByIdFullTx_def discussionFindByIdFull_body_def
  by (intro reads assms) (auto intro!: reads assms split: option.splits)

lemma reads_DiscussionFindByIdFull [reads]: "only_reads (DiscussionFindByIdFull tz did)"
  unfolding DiscussionFindByIdFull_def by (intro reads_findFull reads)

lemma reads_outer_exec [reads]: "only_reads (outer_exec d0 s)"
proof (rule only_readsI)
  fix w r w' assume run: "outer_exec d0 s w = (r, w')"
  obtain e w1 where f: "next_fault w = (e, w1)" by fastforce
  then have "w' = w1" using run by (auto simp: outer_exec_def split: option.splits sum.splits)
  with next_fault_same [OF f] show "same_view w w'" by simp
qed

lemma reads_LocationGetAll [reads]: "only_reads LocationGetAll"
  unfolding LocationGetAll_def by (intro reads)

lemma reads_GetLockedSlots [reads]: "only_reads TimetableGetLockedSlots"
proof -
  have "only_reads (txLoop (tx_at ''Getting locked slots'' (eq_exec sql_locked_slots)))"
    unfolding sql_locked_slots_def by (intro reads)
  then show ?thesis by (auto simp: only_reads_def TimetableGetLockedSlots_def split: prod.splits sum.splits)
qed

lemma reads_GetTimetable [reads]: "only_reads (GetTimetable te tfmt tzl)"
  unfolding GetTimetable_def GetTimetable_body_def
proof (intro reads)
  fix x show "only_reads (getTimetable_day te tfmt tzl x)"
    unfolding getTimetable_day_def
    by (cases x) (auto intro!: reads simp: getTimetable_slot_def split: sum.splits prod.splits)
qed

end
