(* ===== verification/Display.thy ===== *)
theory Display
  imports Reading
begin

text \<open>
  What the pages show of users and discussions: \<^verbatim>\<open>display.go\<close>, and \<open>ProcessText\<close> of \<^verbatim>\<open>template.go\<close>.
  Markdown rendering and sanitising are third-party functions and parameters, like the formatting
  of times. A nil user, somebody who is not logged in, is \<open>None\<close>. Errors of the calls made here are
  logged and dropped; the value beside such an error is taken to be Go's zero value.
\<close>

section \<open>Text\<close>

record display_env =
  denv_tz :: tz_env
  denv_time :: time_env
  DefaultLocationTZ :: string
  blackfriday_Run :: "string \<Rightarrow> string"
  sanitizer_SanitizeBytes :: "string \<Rightarrow> string"

fun replace_crlf :: "string \<Rightarrow> string" where
  "replace_crlf [] = []"
| "replace_crlf [c] = [c]"
| "replace_crlf (c # c' # cs) =
    (if c = CHR 0x0D \<and> c' = CHR 0x0A then CHR 0x0A # replace_crlf cs else c # replace_crlf (c' # cs))"

definition ProcessText :: "display_env \<Rightarrow> string \<Rightarrow> string" where
  "ProcessText env input = sanitizer_SanitizeBytes env (blackfriday_Run env (replace_crlf input))"

section \<open>Discussions\<close>

record DiscussionDisplay =
  ddFull :: DiscussionFull
  DescriptionRaw :: string
  DescriptionHTML :: string
  TitleDisplay :: string
  ddIsUser :: bool
  ddMayEdit :: bool
  ddIsAdmin :: bool
  ddTimeDisplay :: string
  ddInterest :: int
  AllUsers :: "User list"

definition slotTimeFormat :: string where "slotTimeFormat = ''Mon 3:04 PM 2 Jan -0700''"

definition SlotsSetTimeDisplay :: "time_env \<Rightarrow> DisplaySlot list \<Rightarrow> string \<Rightarrow> DisplaySlot list" where
  "SlotsSetTimeDisplay te slots fmt =
     map (\<lambda>s. s\<lparr>TimeDisplay := time_Format te fmt (DisplaySlotTime s)\<rparr>) slots"

definition or_zero :: "'a \<Rightarrow> (error + 'a) \<times> world \<Rightarrow> 'a \<times> world" where
  "or_zero z rw = (case rw of (Inl _, w) \<Rightarrow> (z, w) | (Inr v, w) \<Rightarrow> (v, w))"

text \<open>What an admin gets in addition: the list of all users and the formatted slots.\<close>

definition with_admin_data :: "display_env \<Rightarrow> DiscussionDisplay \<Rightarrow> world \<Rightarrow> DiscussionDisplay \<times> world" where
  "with_admin_data env dd w =
    (let (users, w1) = or_zero [] (UserGetAll (denv_tz env) w)
     in (dd\<lparr>ddIsAdmin := True, AllUsers := users,
            ddFull := (ddFull dd)\<lparr>PossibleSlots := SlotsSetTimeDisplay (denv_time env) (PossibleSlots (ddFull dd)) slotTimeFormat\<rparr>\<rparr>, w1))"

definition without_slots :: "DiscussionDisplay \<Rightarrow> DiscussionDisplay" where
  "without_slots dd = dd\<lparr>ddFull := (ddFull dd)\<lparr>PossibleSlots := []\<rparr>\<rparr>"

definition blank_display :: "DiscussionFull \<Rightarrow> DiscussionDisplay" where
  "blank_display df = \<lparr>ddFull = df, DescriptionRaw = '''', DescriptionHTML = '''', TitleDisplay = '''',
     ddIsUser = False, ddMayEdit = False, ddIsAdmin = False, ddTimeDisplay = '''', ddInterest = 0, AllUsers = []\<rparr>"

definition DiscussionGetDisplayRetry :: "display_env \<Rightarrow> DiscussionFull \<Rightarrow> User option \<Rightarrow> world \<Rightarrow> DiscussionDisplay \<times> world" where
  "DiscussionGetDisplayRetry env df cur w =
    (let dd = (blank_display df)\<lparr>DescriptionRaw := Description (TheDiscussion df)\<rparr>
     in if (case cur of None \<Rightarrow> False | Some u \<Rightarrow> IsAdmin u) then with_admin_data env dd w
        else (without_slots dd, w))"

text \<open>Who is not shown the current text: anybody but admins and the owner, unless it is public.\<close>

definition must_moderate :: "Discussion \<Rightarrow> User option \<Rightarrow> bool" where
  "must_moderate d cur \<longleftrightarrow> \<not> IsPublic d \<and>
     (case cur of None \<Rightarrow> True | Some u \<Rightarrow> \<not> IsAdmin u \<and> UserID u \<noteq> Owner d)"

definition display_text :: "display_env \<Rightarrow> DiscussionFull \<Rightarrow> bool \<Rightarrow> DiscussionDisplay" where
  "display_text env df showMain =
    (let d = TheDiscussion df;
         dd = (if showMain
               then (blank_display df)\<lparr>TitleDisplay := Title d, DescriptionRaw := Description d\<rparr>
               else (blank_display (df\<lparr>TheDiscussion := d\<lparr>Title := ApprovedTitle d\<rparr>\<rparr>))\<lparr>DescriptionRaw := ApprovedDescription d\<rparr>)
     in dd\<lparr>DescriptionHTML := ProcessText env (DescriptionRaw dd)\<rparr>)"

definition display_time :: "display_env \<Rightarrow> User option \<Rightarrow> DiscussionDisplay \<Rightarrow> DiscussionDisplay" where
  "display_time env cur dd =
    (let t = DiscussionTime (ddFull dd)
     in if fst t = fst zero_time then dd
        else (let (t1, l) = (case cur of
                      None \<Rightarrow> (t, DefaultLocationTZ env)
                    | Some u \<Rightarrow> (time_In (denv_time env) (UserLocation u) t, UserLocation u))
              in dd\<lparr>ddTimeDisplay := time_Format (denv_time env) slotTimeFormat t1 @ '' ('' @ l @ '')''\<rparr>))"

definition DiscussionGetDisplay :: "display_env \<Rightarrow> DiscussionFull \<Rightarrow> User option \<Rightarrow> world \<Rightarrow> DiscussionDisplay option \<times> world" where
  "DiscussionGetDisplay env df cur w =
    (let d = TheDiscussion df
     in if must_moderate d cur \<and> ApprovedTitle d = '''' then (None, w)
        else
          (let dd = display_time env cur (display_text env df (\<not> must_moderate d cur))
           in case cur of
                None \<Rightarrow> (Some dd, w)
              | Some u \<Rightarrow>
                  (let (dd1, w1) = (if Username u \<noteq> AdminUsername
                                    then (let (i, w1) = or_zero 0 (GetInterest u d w) in (dd\<lparr>ddIsUser := True, ddInterest := i\<rparr>, w1))
                                    else (dd, w));
                       dd2 = dd1\<lparr>ddMayEdit := MayEditDiscussion u d\<rparr>
                   in if IsAdmin u then (let (dd3, w2) = with_admin_data env dd2 w1 in (Some dd3, w2))
                      else (Some (without_slots dd2), w1))))"

section \<open>Lists\<close>

text \<open>
  The callbacks of the iterators append to a slice outside the transaction. When the transaction
  is retried, the slice keeps what it has. \<open>acc_rounds\<close> and \<open>acc_loop\<close> are \<open>txLoop\<close> with such a slice.
\<close>

type_synonym 'a acc = "'a list \<Rightarrow> world \<Rightarrow> (error + unit) \<times> 'a list \<times> world"

fun acc_rounds :: "nat \<Rightarrow> int \<Rightarrow> nat \<Rightarrow> 'a acc \<Rightarrow> 'a acc" where
  "acc_rounds 0 start cnt f xs w = (Inl NotReturned, xs, w)"
| "acc_rounds (Suc fuel) start cnt f xs w =
    (let cnt1 = cnt + 1;
         (slow, w1) = slow_start start cnt1 w
     in if slow
        then (let (t, w2) = time_Now w1 in (Inl (Errorf ''Internal error: Transaction taking too long''), xs, w2))
        else
          (case tx_Beginx w1 of
             (Inl err, w2) \<Rightarrow>
               if shouldRetry err then acc_rounds fuel start cnt1 f xs w2
               else (Inl (ErrorfAt ''Starting transaction'' err), xs, w2)
           | (Inr _, w2) \<Rightarrow>
               (case f xs w2 of
                  (Inl err, ys, w3) \<Rightarrow>
                    if shouldRetry err then acc_rounds fuel start cnt1 f ys (tx_Rollback w3)
                    else (Inl err, ys, tx_Rollback w3)
                | (Inr v, ys, w3) \<Rightarrow>
                    (case tx_Commit w3 of
                       (Inl err, w4) \<Rightarrow>
                         if shouldRetry err then acc_rounds fuel start cnt1 f ys (tx_Rollback w4)
                         else (Inl (ErrorfAt ''Commiting transaction'' err), ys, tx_Rollback w4)
                     | (Inr _, w4) \<Rightarrow> (Inr v, ys, w4)))))"

definition acc_loop :: "'a acc \<Rightarrow> 'a acc" where
  "acc_loop f xs w =
    (let (start, w1) = time_Now w;
         (r, ys, w2) = acc_rounds (Suc (pending w)) start 0 f xs (w1\<lparr>working := None\<rparr>)
     in (r, ys, w2\<lparr>working := working w\<rparr>))"

fun acc_each :: "('b \<Rightarrow> 'a acc) \<Rightarrow> 'b list \<Rightarrow> 'a acc" where
  "acc_each f [] ys w = (Inr (), ys, w)"
| "acc_each f (x # xs) ys w =
    (case f x ys w of (Inl e, ys', w') \<Rightarrow> (Inl e, ys', w') | (Inr _, ys', w') \<Rightarrow> acc_each f xs ys' w')"

text \<open>The callback; \<open>d\<close> is not nil where the query only yields identifiers of discussions.\<close>

definition append_display :: "display_env \<Rightarrow> User option \<Rightarrow> DiscussionFull option \<Rightarrow> DiscussionDisplay acc" where
  "append_display env cur d ys w =
    (case d of
       None \<Rightarrow> (Inl (Panic ''nil pointer dereference''), ys, w)
     | Some df \<Rightarrow>
         (case DiscussionGetDisplay env df cur w of
            (None, w1) \<Rightarrow> (Inr (), ys, w1)
          | (Some dd, w1) \<Rightarrow> (Inr (), ys @ [dd], w1)))"

definition iterate_displays :: "display_env \<Rightarrow> User option \<Rightarrow> (database \<Rightarrow> string list) \<Rightarrow> DiscussionDisplay acc" where
  "iterate_displays env cur query = acc_loop (\<lambda>ys w.
    case tx_at ''Getting list of discussions to process'' (eq_exec (sql_select query)) w of
      (Inl e, w1) \<Rightarrow> (Inl e, ys, w1)
    | (Inr dids, w1) \<Rightarrow>
        acc_each (\<lambda>did ys w2.
          case discussionFindByIdFullTx (denv_tz env) (outer_exec (db_view w2)) did w2 of
            (Inl e, w3) \<Rightarrow> (Inl e, ys, w3)
          | (Inr d, w3) \<Rightarrow> append_display env cur d ys w3) dids ys w1)"

definition DiscussionGetListUser :: "display_env \<Rightarrow> User \<Rightarrow> User option \<Rightarrow> world \<Rightarrow> DiscussionDisplay list \<times> world" where
  "DiscussionGetListUser env u cur w =
    snd (iterate_displays env cur
      (\<lambda>d. sort (map DiscussionID (filter (\<lambda>x. Owner x = UserID u) (event_discussions d)))) [] w)"

definition DiscussionGetList :: "display_env \<Rightarrow> User option \<Rightarrow> world \<Rightarrow> DiscussionDisplay list \<times> world" where
  "DiscussionGetList env cur w =
    snd (iterate_displays env cur (\<lambda>d. sort (map DiscussionID (event_discussions d))) [] w)"

section \<open>Users\<close>

record UserProfile =
  pfRealName :: string
  pfEmail :: string
  pfCompany :: string
  pfDescription :: string

record UserDisplay =
  udUserID :: string
  udUsername :: string
  udIsAdmin :: bool
  udIsVerified :: bool
  udMayEdit :: bool
  DefaultLocationName :: string
  Profile :: UserProfile
  udDescription :: string
  udList :: "DiscussionDisplay list"

definition UserGetDisplay :: "display_env \<Rightarrow> User \<Rightarrow> User option \<Rightarrow> world \<Rightarrow> UserDisplay \<times> world" where
  "UserGetDisplay env u cur w =
    (let ud = \<lparr>udUserID = UserID u, udUsername = Username u, udIsAdmin = False, udIsVerified = IsVerified u,
               udMayEdit = False, DefaultLocationName = '''',
               Profile = \<lparr>pfRealName = '''', pfEmail = '''', pfCompany = '''', pfDescription = ''''\<rparr>,
               udDescription = '''', udList = []\<rparr>;
         ud1 = (case cur of
                  None \<Rightarrow> ud
                | Some c \<Rightarrow> ud\<lparr>udMayEdit := MayEditUser c u, udIsAdmin := IsAdmin c,
                    Profile := \<lparr>pfRealName = RealName u, pfEmail = Email u, pfCompany = Company u,
                                pfDescription = UserDescription u\<rparr>,
                    DefaultLocationName := UserLocation u,
                    udDescription := ProcessText env (UserDescription u)\<rparr>);
         (ds, w1) = DiscussionGetListUser env u cur w
     in (ud1\<lparr>udList := ds\<rparr>, w1))"

text \<open>
  The callback of \<open>UserGetUsersDisplay\<close> appends to a slice too; \<open>UserIterate\<close> only starts over when
  no callback has run. \<open>collect_rows\<close> is its row loop with the slice.
\<close>

fun collect_rows :: "display_env \<Rightarrow> User option \<Rightarrow> User list \<Rightarrow> nat \<Rightarrow> UserDisplay list \<Rightarrow> world
    \<Rightarrow> (error + sqlite_error option \<times> nat) \<times> UserDisplay list \<times> world" where
  "collect_rows env cur [] processed ys w = (case next_fault w of (e, w1) \<Rightarrow> (Inr (e, processed), ys, w1))"
| "collect_rows env cur (row # rows) processed ys w =
    (case next_fault w of
       (Some e, w1) \<Rightarrow> (Inr (Some e, processed), ys, w1)
     | (None, w1) \<Rightarrow>
         (case scan_user (denv_tz env) row of
            Inl x \<Rightarrow> (Inl (of_stmt_error x), ys, w1)
          | Inr u \<Rightarrow>
              if Username u \<noteq> AdminUsername
              then (let (ud, w2) = UserGetDisplay env u cur w1
                    in collect_rows env cur rows (Suc processed) (ys @ [ud]) w2)
              else collect_rows env cur rows (Suc processed) ys w1))"

lemma collect_rows_ge: "collect_rows env cur rows n ys w = (Inr (e, m), zs, w') \<Longrightarrow> n \<le> m"
proof (induction rows arbitrary: n ys w)
  case (Cons row rows)
  then show ?case by (auto simp: Let_def split: prod.splits option.splits sum.splits if_splits dest: Suc_leD)
qed (auto split: prod.splits)

lemma collect_rows_none_processed:
  assumes "collect_rows env cur rows n ys w = (Inr (Some e, n), zs, w')"
  shows "pending w' < pending w"
proof (cases rows)
  case Nil
  with assms show ?thesis by (auto split: prod.splits dest: next_fault_Some_pending)
next
  case (Cons row rows')
  with assms show ?thesis
    by (auto simp: Let_def split: prod.splits option.splits sum.splits if_splits dest: next_fault_Some_pending collect_rows_ge)
qed

function users_display :: "display_env \<Rightarrow> User option \<Rightarrow> UserDisplay list \<Rightarrow> world \<Rightarrow> UserDisplay list \<times> world" where
  "users_display env cur ys w =
    (case db_exec (sql_select (\<lambda>d. sort_key UserID (event_users d))) w of
       (Inl err, w1) \<Rightarrow> if shouldRetry err then users_display env cur ys w1 else (ys, w1)
     | (Inr rows, w1) \<Rightarrow>
         (case collect_rows env cur rows 0 ys w1 of
            (Inl err, zs, w2) \<Rightarrow> (zs, w2)
          | (Inr (None, processed), zs, w2) \<Rightarrow> (zs, w2)
          | (Inr (Some e, processed), zs, w2) \<Rightarrow>
              if shouldRetry (Sqlite e) \<and> processed = 0 then users_display env cur zs w2 else (zs, w2)))"
  by pat_completeness auto
termination
  by (relation "measure (\<lambda>(env, cur, ys, w). pending w)")
    (auto dest: db_exec_retry_pending [OF sym] collect_rows_none_processed [OF sym]
      db_exec_pending [OF sym] less_le_trans)

declare users_display.simps [simp del]

definition UserGetUsersDisplay :: "display_env \<Rightarrow> User option \<Rightarrow> world \<Rightarrow> UserDisplay list \<times> world" where
  "UserGetUsersDisplay env cur w = users_display env cur [] w"

section \<open>Displaying changes nothing\<close>

lemma reads_or_zero [reads]: "only_reads m \<Longrightarrow> only_reads (\<lambda>w. or_zero z (m w))"
  by (auto simp: only_reads_def or_zero_def split: prod.splits sum.splits)

lemma reads_admin_data: "with_admin_data env dd w = (dd', w') \<Longrightarrow> same_view w w'"
  using only_readsD [OF reads_or_zero [OF reads_UserGetAll]]
  by (fastforce simp: with_admin_data_def Let_def split: prod.splits)

lemma reads_DisplayRetry [reads]: "only_reads (DiscussionGetDisplayRetry env df cur)"
  by (rule only_readsI) (auto simp: DiscussionGetDisplayRetry_def Let_def dest: reads_admin_data split: if_splits)

lemma reads_Display [reads]: "only_reads (DiscussionGetDisplay env df cur)"
proof (rule only_readsI)
  fix w r w' assume run: "DiscussionGetDisplay env df cur w = (r, w')"
  have int: "or_zero 0 (GetInterest u d w) = (i, w1) \<Longrightarrow> same_view w w1" for u d i w1
    using only_readsD [OF reads_or_zero [OF reads_GetInterest]] by blast
  show "same_view w w'"
    using run by (auto simp: DiscussionGetDisplay_def Let_def dest!: int reads_admin_data
        split: if_splits option.splits prod.splits intro: same_view_trans)
qed

definition acc_reads :: "'a acc \<Rightarrow> bool" where
  "acc_reads f \<longleftrightarrow> (\<forall>xs w r ys w'. f xs w = (r, ys, w') \<longrightarrow> same_view w w')"

lemma acc_readsD: "acc_reads f \<Longrightarrow> f xs w = (r, ys, w') \<Longrightarrow> same_view w w'"
  by (simp add: acc_reads_def)

lemma acc_rounds_same:
  assumes "acc_rounds fuel start cnt f xs w = (r, ys, w')" and "acc_reads f"
  shows "same_committed w w'"
  using assms(1)
proof (induction fuel arbitrary: cnt xs w)
  case (Suc fuel)
  obtain slow w1 where sl: "slow_start start (cnt + 1) w = (slow, w1)" by fastforce
  obtain b w2 where bg: "tx_Beginx w1 = (b, w2)" by fastforce
  obtain x zs w3 where fx: "f xs w2 = (x, zs, w3)" by (metis surj_pair)
  obtain c w4 where cm: "tx_Commit w3 = (c, w4)" by fastforce
  note s = round_same [OF sl bg acc_readsD [OF assms(2) fx] cm]
  show ?case
  proof (cases slow)
    case True
    then show ?thesis using Suc.prems sl s(1) by (auto simp: Let_def time_Now_def same_committed_def)
  next
    case False
    then show ?thesis
      using Suc.prems sl bg fx cm s Suc.IH
      by (auto simp: Let_def split: sum.splits if_splits intro: same_committed_trans)
  qed
qed simp

lemma acc_reads_loop:
  assumes "acc_reads f"
  shows "acc_reads (acc_loop f)"
  unfolding acc_reads_def
proof (intro allI impI)
  fix xs w r ys w' assume run: "acc_loop f xs w = (r, ys, w')"
  obtain t w1 where n: "time_Now w = (t, w1)" by fastforce
  obtain x zs w2 where a: "acc_rounds (Suc (pending w)) t 0 f xs (w1\<lparr>working := None\<rparr>) = (x, zs, w2)" by (metis surj_pair)
  have "same_committed w w2"
    using acc_rounds_same [OF a assms] same_view_same_committed [OF time_Now_same [OF n]] by (simp add: same_committed_def)
  moreover have "w' = w2\<lparr>working := working w\<rparr>" using run n a by (simp add: acc_loop_def Let_def del: acc_rounds.simps)
  ultimately show "same_view w w'" using same_committed_view by simp
qed

lemma acc_reads_each:
  assumes "\<And>x. acc_reads (f x)"
  shows "acc_reads (acc_each f xs)"
  unfolding acc_reads_def
proof (intro allI impI)
  fix ys w r zs w' assume "acc_each f xs ys w = (r, zs, w')"
  then show "same_view w w'"
  proof (induction xs arbitrary: ys w)
    case (Cons x xs)
    obtain r1 ys1 w1 where x: "f x ys w = (r1, ys1, w1)" by (metis surj_pair)
    have s: "same_view w w1" by (rule acc_readsD [OF assms x])
    with Cons x show ?case by (cases r1) (auto intro: same_view_trans)
  qed simp
qed

lemma reads_iterate: "acc_reads (iterate_displays env cur query)"
  unfolding iterate_displays_def
proof (rule acc_reads_loop, unfold acc_reads_def, intro allI impI)
  fix xs w r ys w'
  let ?each = "acc_each (\<lambda>did ys w2.
          case discussionFindByIdFullTx (denv_tz env) (outer_exec (db_view w2)) did w2 of
            (Inl e, w3) \<Rightarrow> (Inl e, ys, w3)
          | (Inr d, w3) \<Rightarrow> append_display env cur d ys w3)"
  have app: "append_display env cur d ys w = (r, zs, w') \<Longrightarrow> same_view w w'" for d ys w r zs w'
    using only_readsD [OF reads_Display] by (fastforce simp: append_display_def split: option.splits prod.splits)
  have find: "discussionFindByIdFullTx (denv_tz env) (outer_exec d0) did w = (r, w') \<Longrightarrow> same_view w w'" for d0 did w r w'
    by (rule only_readsD [OF reads_findFull]) (rule reads_outer_exec)
  have each: "acc_reads (?each dids)" for dids
    by (rule acc_reads_each) (auto simp: acc_reads_def dest!: find split: prod.splits sum.splits intro: same_view_trans app)
  have q: "only_reads (tx_at ''Getting list of discussions to process'' (eq_exec (sql_select query)))" by (intro reads)
  assume "(case tx_at ''Getting list of discussions to process'' (eq_exec (sql_select query)) w of
      (Inl e, w1) \<Rightarrow> (Inl e, xs, w1) | (Inr dids, w1) \<Rightarrow> ?each dids xs w1) = (r, ys, w')"
  then show "same_view w w'"
    using only_readsD [OF q] acc_readsD [OF each] by (fastforce split: prod.splits sum.splits intro: same_view_trans)
qed

lemma reads_GetListUser [reads]: "only_reads (DiscussionGetListUser env u cur)"
  by (rule only_readsI) (metis DiscussionGetListUser_def acc_readsD reads_iterate surj_pair snd_conv)

lemma reads_GetList [reads]: "only_reads (DiscussionGetList env cur)"
  by (rule only_readsI) (metis DiscussionGetList_def acc_readsD reads_iterate surj_pair snd_conv)

lemma reads_UserGetDisplay [reads]: "only_reads (UserGetDisplay env u cur)"
  using only_readsD [OF reads_GetListUser]
  by (intro only_readsI) (fastforce simp: UserGetDisplay_def Let_def split: prod.splits)

lemma collect_rows_same: "collect_rows env cur rows n ys w = (r, zs, w') \<Longrightarrow> same_view w w'"
proof (induction rows arbitrary: n ys w)
  case Nil
  then show ?case by (auto split: prod.splits dest: next_fault_same)
next
  case (Cons row rows)
  obtain f w1 where f: "next_fault w = (f, w1)" by fastforce
  have s: "same_view w w1" by (rule next_fault_same [OF f])
  have d: "UserGetDisplay env u cur w1 = (ud, w2) \<Longrightarrow> same_view w w2" for u ud w2
    using only_readsD [OF reads_UserGetDisplay] same_view_trans [OF s] by blast
  show ?case
    using Cons.prems f s by (auto simp: Let_def split: option.splits sum.splits prod.splits if_splits
        dest!: d Cons.IH intro: same_view_trans)
qed

lemma users_display_same: "users_display env cur ys w = (r, w') \<Longrightarrow> same_view w w'"
proof (induction env cur ys w rule: users_display.induct)
  case (1 env cur ys w)
  obtain x w1 where x: "db_exec (sql_select (\<lambda>d. sort_key UserID (event_users d))) w = (x, w1)" by fastforce
  have q: "only_reads (db_exec (sql_select (\<lambda>d. sort_key UserID (event_users d))))" by (intro reads)
  have s: "same_view w w1" by (rule only_readsD [OF q x])
  show ?case
  proof (cases x)
    case (Inl err)
    with 1 x s show ?thesis by (auto simp: users_display.simps [of _ _ _ w] split: if_splits intro: same_view_trans)
  next
    case (Inr rows)
    obtain y zs w2 where y: "collect_rows env cur rows 0 ys w1 = (y, zs, w2)" by (metis surj_pair)
    have "same_view w w2" using s collect_rows_same [OF y] same_view_trans by blast
    with 1 x Inr y show ?thesis
      by (auto simp: users_display.simps [of _ _ _ w] split: sum.splits prod.splits option.splits if_splits intro: same_view_trans)
  qed
qed

lemma reads_UsersDisplay [reads]: "only_reads (UserGetUsersDisplay env cur)"
  by (rule only_readsI) (auto simp: UserGetUsersDisplay_def dest: users_display_same)

section \<open>Moderation\<close>

text \<open>
  The display of a moderated discussion as a function of what was approved: a stranger's page is
  computed from the approved title and description, whatever the current ones are.
\<close>

definition approved_face :: "DiscussionFull \<Rightarrow> DiscussionFull" where
  "approved_face df = df\<lparr>TheDiscussion := (TheDiscussion df)\<lparr>Title := ApprovedTitle (TheDiscussion df),
     Description := ''''\<rparr>\<rparr>"

definition hide_embedded :: "DiscussionDisplay \<Rightarrow> DiscussionDisplay" where
  "hide_embedded dd = dd\<lparr>ddFull := (ddFull dd)\<lparr>TheDiscussion := (TheDiscussion (ddFull dd))\<lparr>Description := ''''\<rparr>\<rparr>\<rparr>"

lemma moderated_text:
  "hide_embedded (display_text env df False) = display_text env (approved_face df) False"
  by (simp add: display_text_def hide_embedded_def approved_face_def blank_display_def Let_def)

lemma hide_time: "hide_embedded (display_time env cur dd) = display_time env cur (hide_embedded dd)"
  by (simp add: display_time_def hide_embedded_def Let_def split: option.splits)

lemma hide_without_slots: "hide_embedded (without_slots dd) = without_slots (hide_embedded dd)"
  by (simp add: hide_embedded_def without_slots_def)

lemma hide_user:
  "hide_embedded (dd\<lparr>ddIsUser := a, ddInterest := i\<rparr>) = (hide_embedded dd)\<lparr>ddIsUser := a, ddInterest := i\<rparr>"
  "hide_embedded (dd\<lparr>ddMayEdit := b\<rparr>) = (hide_embedded dd)\<lparr>ddMayEdit := b\<rparr>"
  by (simp_all add: hide_embedded_def)

lemma approved_face_fields [simp]:
  "ApprovedTitle (TheDiscussion (approved_face df)) = ApprovedTitle (TheDiscussion df)"
  "must_moderate (TheDiscussion (approved_face df)) cur = must_moderate (TheDiscussion df) cur"
  "GetInterest u (TheDiscussion (approved_face df)) = GetInterest u (TheDiscussion df)"
  "MayEditDiscussion u (TheDiscussion (approved_face df)) = MayEditDiscussion u (TheDiscussion df)"
  by (auto simp: approved_face_def must_moderate_def GetInterest_def GetInterest_body_def MayEditDiscussion_def fun_eq_iff
      split: option.splits)

lemma moderated_display:
  assumes "must_moderate (TheDiscussion df) cur"
  shows "map_prod (map_option hide_embedded) id (DiscussionGetDisplay env df cur w)
       = DiscussionGetDisplay env (approved_face df) cur w"
proof (cases cur)
  case None
  with assms show ?thesis by (simp add: DiscussionGetDisplay_def Let_def hide_time moderated_text)
next
  case (Some u)
  with assms have "\<not> IsAdmin u" by (simp add: must_moderate_def)
  with assms Some show ?thesis
    by (simp add: DiscussionGetDisplay_def Let_def hide_time moderated_text hide_without_slots hide_user split: prod.splits)
qed

lemma display_time_text [simp]:
  "DescriptionRaw (display_time env cur dd) = DescriptionRaw dd"
  "DescriptionHTML (display_time env cur dd) = DescriptionHTML dd"
  "TitleDisplay (display_time env cur dd) = TitleDisplay dd"
  "ddFull (display_time env cur dd) = ddFull dd"
  "ddIsAdmin (display_time env cur dd) = ddIsAdmin dd"
  "ddMayEdit (display_time env cur dd) = ddMayEdit dd"
  "AllUsers (display_time env cur dd) = AllUsers dd"
  by (auto simp: display_time_def Let_def split: option.splits)

lemma moderated_fields:
  assumes "must_moderate (TheDiscussion df) cur"
  shows "case fst (DiscussionGetDisplay env df cur w) of
           None \<Rightarrow> ApprovedTitle (TheDiscussion df) = ''''
         | Some dd \<Rightarrow> ApprovedTitle (TheDiscussion df) \<noteq> ''''
             \<and> Title (TheDiscussion (ddFull dd)) = ApprovedTitle (TheDiscussion df) \<and> TitleDisplay dd = ''''
             \<and> DescriptionRaw dd = ApprovedDescription (TheDiscussion df)
             \<and> DescriptionHTML dd = ProcessText env (ApprovedDescription (TheDiscussion df))
             \<and> \<not> ddMayEdit dd \<and> \<not> ddIsAdmin dd \<and> AllUsers dd = []
             \<and> (cur = None \<or> PossibleSlots (ddFull dd) = [])"
  using assms
  by (cases cur) (auto simp: must_moderate_def DiscussionGetDisplay_def Let_def display_text_def blank_display_def
      without_slots_def MayEditDiscussion_def split: prod.splits)

text \<open>
  C32: moderation holds on the pages. Somebody who is neither an admin nor the owner is shown nothing
  of a discussion that is not public and was never approved; of one that was approved, the title, the
  description and its HTML shown are the approved ones, there is no list of users and, unless nobody
  is logged in, no list of slots and no permission to edit. And it is not only these fields: two
  versions \<open>df\<close> and \<open>df'\<close> of the discussion with the same approved text give the same display, up to
  the embedded raw description that no page prints.
\<close>

theorem DiscussionGetDisplay_moderated:
  assumes "\<not> IsPublic (TheDiscussion df)"
    and "\<And>u. cur = Some u \<Longrightarrow> \<not> IsAdmin u \<and> UserID u \<noteq> Owner (TheDiscussion df)"
    and "approved_face df' = approved_face df"
  shows "(case fst (DiscussionGetDisplay env df cur w) of
           None \<Rightarrow> ApprovedTitle (TheDiscussion df) = ''''
         | Some dd \<Rightarrow> ApprovedTitle (TheDiscussion df) \<noteq> ''''
             \<and> Title (TheDiscussion (ddFull dd)) = ApprovedTitle (TheDiscussion df) \<and> TitleDisplay dd = ''''
             \<and> DescriptionRaw dd = ApprovedDescription (TheDiscussion df)
             \<and> DescriptionHTML dd = ProcessText env (ApprovedDescription (TheDiscussion df))
             \<and> \<not> ddMayEdit dd \<and> \<not> ddIsAdmin dd \<and> AllUsers dd = []
             \<and> (cur = None \<or> PossibleSlots (ddFull dd) = []))
       \<and> map_option hide_embedded (fst (DiscussionGetDisplay env df cur w))
         = map_option hide_embedded (fst (DiscussionGetDisplay env df' cur w))"
proof -
  have m: "must_moderate (TheDiscussion df) cur" using assms(1,2) by (cases cur) (auto simp: must_moderate_def)
  have "must_moderate (TheDiscussion df') cur" using m assms(3) by (metis approved_face_fields(2))
  from moderated_display [OF this] moderated_display [OF m] assms(3)
  have "map_option hide_embedded (fst (DiscussionGetDisplay env df cur w))
       = map_option hide_embedded (fst (DiscussionGetDisplay env df' cur w))"
    by (metis fst_map_prod)
  with moderated_fields [OF m] show ?thesis by (intro conjI)
qed

definition sample_denv :: display_env where
  "sample_denv = \<lparr>denv_tz = \<lparr>tz_known = (\<lambda>_. True), defaultLocation = ''Europe/Berlin''\<rparr>, denv_time = plain_env,
     DefaultLocationTZ = ''Europe/Berlin'', blackfriday_Run = (\<lambda>s. ''<p>'' @ s @ ''</p>''),
     sanitizer_SanitizeBytes = (\<lambda>s. s)\<rparr>"

text \<open>Bob has edited his approved discussion; the edit waits for approval while Alice looks at it.\<close>

definition sample_full :: "string \<Rightarrow> string \<Rightarrow> DiscussionFull" where
  "sample_full title description =
    \<lparr>TheDiscussion = sample_disc2\<lparr>Title := title, Description := description, IsPublic := False\<rparr>,
     OwnerInfo = sample_bob, DiscussionLocation = zero_location, DiscussionTime = zero_time, IsFinal = False, PossibleSlots = []\<rparr>"

theorem DiscussionGetDisplay_moderated_witness:
  "(\<exists>dd :: DiscussionDisplay.
      fst (DiscussionGetDisplay sample_denv (sample_full ''Spam'' ''Buy'') (Some sample_alice) sample_world) = Some dd
      \<and> Title (TheDiscussion (ddFull dd)) = ''Schedulers'' \<and> DescriptionRaw dd = ''Design session''
      \<and> DescriptionHTML dd = ''<p>Design session</p>'')
   \<and> map_option hide_embedded (fst (DiscussionGetDisplay sample_denv (sample_full ''Spam'' ''Buy'') (Some sample_alice) sample_world))
     = map_option hide_embedded (fst (DiscussionGetDisplay sample_denv (sample_full ''Spam again'' ''Sell'') (Some sample_alice) sample_world))"
proof -
  let ?df = "sample_full ''Spam'' ''Buy''"
  have pre: "\<not> IsPublic (TheDiscussion ?df)" "\<And>u. Some sample_alice = Some u \<Longrightarrow> \<not> IsAdmin u \<and> UserID u \<noteq> Owner (TheDiscussion ?df)"
    by (simp_all add: sample_full_def sample_defs)
  have face: "approved_face (sample_full ''Spam again'' ''Sell'') = approved_face ?df"
    by (simp add: approved_face_def sample_full_def)
  have vals: "ApprovedTitle (TheDiscussion ?df) = ''Schedulers''" "ApprovedDescription (TheDiscussion ?df) = ''Design session''"
    by (simp_all add: sample_full_def sample_defs)
  have html: "ProcessText sample_denv ''Design session'' = ''<p>Design session</p>''" by code_simp
  from DiscussionGetDisplay_moderated [of ?df "Some sample_alice", OF pre face, of sample_denv sample_world]
  show ?thesis by (auto simp: vals html split: option.splits)
qed

end
