(* ===== verification/User_Removal.thy ===== *)
theory User_Removal
  imports Discussions
begin

text \<open>
  Deleting a user, \<open>DeleteUser\<close> of \<^verbatim>\<open>event/user.go\<close>: the rows that refer to the user are deleted
  in an order in which no foreign key is ever violated.
\<close>

text \<open>\<open>discussionid in (select discussionid from event_discussions where owner = ?)\<close>\<close>

definition owned_by :: "string \<Rightarrow> database \<Rightarrow> string \<Rightarrow> bool" where
  "owned_by uid d did = list_ex (\<lambda>x. Owner x = uid \<and> DiscussionID x = did) (event_discussions d)"

definition sql_delete_user :: "string \<Rightarrow> nat stmt" where
  "sql_delete_user uid d =
    (let gone = filter (\<lambda>u. UserID u = uid) (event_users d)
     in if gone \<noteq> [] \<and> (list_ex (\<lambda>r. InterestUser r = uid) (event_interest d)
           \<or> list_ex (\<lambda>x. Owner x = uid) (event_discussions d))
        then Inl (Constraint code_ForeignKey)
        else Inr (length gone, d\<lparr>event_users := filter (\<lambda>u. UserID u \<noteq> uid) (event_users d)\<rparr>))"

definition DeleteUser_body :: "string \<Rightarrow> unit tx" where
  "DeleteUser_body uid =
    tx_bind (tx_at ''Deleting discussion from event_interest''
      (eq_exec (sql_delete_interest (\<lambda>r. InterestUser r = uid)))) (\<lambda>_.
    tx_bind (tx_at ''Deleting interest in discussions owned by user''
      (eq_exec (\<lambda>d. sql_delete_interest (\<lambda>r. owned_by uid d (InterestDiscussion r)) d))) (\<lambda>_.
    tx_bind (tx_at ''Deleting all discussions for user'' (deleteDiscussionCommon (owned_by uid))) (\<lambda>_.
    tx_bind (tx_at ''Deleting record for user'' (eq_exec (sql_delete_user uid))) (\<lambda>rcount.
    if rcount = 0 then tx_fail ErrUserNotFound
    else if rcount > 1 then tx_fail ErrInternal
    else tx_return ()))))"

definition DeleteUser :: "string \<Rightarrow> unit tx" where
  "DeleteUser uid = txLoop (DeleteUser_body uid)"

declare sql_delete_user_def [sql_defs]

section \<open>Without a user\<close>

text \<open>A database without one user, the discussions of that user, and all that refers to either.\<close>

definition drop_user :: "string \<Rightarrow> database \<Rightarrow> database" where
  "drop_user uid d =
     d\<lparr>event_users := filter (\<lambda>u. UserID u \<noteq> uid) (event_users d),
       event_discussions := filter (\<lambda>x. Owner x \<noteq> uid) (event_discussions d),
       event_interest := filter (\<lambda>r. InterestUser r \<noteq> uid \<and> \<not> owned_by uid d (InterestDiscussion r)) (event_interest d),
       event_discussions_possible_slots :=
         filter (\<lambda>r. \<not> owned_by uid d (PossibleDiscussion r)) (event_discussions_possible_slots d),
       event_schedule := filter (\<lambda>r. \<not> owned_by uid d (ScheduledDiscussion r)) (event_schedule d)\<rparr>"

lemma owned_by_frame [simp]:
  "owned_by uid (d\<lparr>event_interest := x\<rparr>) = owned_by uid d"
  "owned_by uid (d\<lparr>event_discussions_possible_slots := y\<rparr>) = owned_by uid d"
  "owned_by uid (d\<lparr>event_schedule := z\<rparr>) = owned_by uid d"
  by (simp_all add: owned_by_def fun_eq_iff)

lemma owned_by_row:
  assumes "event_inv d" and "x \<in> set (event_discussions d)"
  shows "owned_by uid d (DiscussionID x) \<longleftrightarrow> Owner x = uid"
proof -
  have "y = x" if "y \<in> set (event_discussions d)" "DiscussionID y = DiscussionID x" for y
    using assms that by (auto simp: inv_split discussions_ok_def distinct_map dest: inj_onD)
  with assms(2) show ?thesis by (auto simp: owned_by_def list_ex_iff)
qed

lemma drop_user_steps:
  assumes inv: "event_inv d"
  shows "drop_user uid d = (drop_discussions (owned_by uid d)
     (d\<lparr>event_interest := filter (\<lambda>r. InterestUser r \<noteq> uid) (event_interest d)\<rparr>))
       \<lparr>event_users := filter (\<lambda>u. UserID u \<noteq> uid) (event_users d)\<rparr>"
proof -
  have "filter (\<lambda>x. \<not> owned_by uid d (DiscussionID x)) (event_discussions d)
      = filter (\<lambda>x. Owner x \<noteq> uid) (event_discussions d)"
    using owned_by_row [OF inv] by (intro filter_cong) auto
  moreover have "filter (\<lambda>r. \<not> owned_by uid d (InterestDiscussion r) \<and> InterestUser r \<noteq> uid) (event_interest d)
      = filter (\<lambda>r. InterestUser r \<noteq> uid \<and> \<not> owned_by uid d (InterestDiscussion r)) (event_interest d)"
    by (intro filter_cong) auto
  ultimately show ?thesis by (simp add: drop_user_def drop_discussions_def conj_commute)
qed

lemma inv_delete_user:
  assumes inv: "event_inv d" and own: "\<forall>x \<in> set (event_discussions d). Owner x \<noteq> uid"
    and int: "\<forall>r \<in> set (event_interest d). InterestUser r \<noteq> uid"
  shows "event_inv (d\<lparr>event_users := filter (\<lambda>u. UserID u \<noteq> uid) (event_users d)\<rparr>)" (is "event_inv ?d")
proof -
  have ids: "user_ids ?d = user_ids d - {uid}" by (auto simp: user_ids_def)
  have "discussions_ok ?d" "interest_ok ?d"
    using inv own int unfolding discussions_ok_def interest_ok_def ids
    by (simp_all add: inv_split discussions_ok_def interest_ok_def)
  moreover have "users_ok ?d" "users_content ?d"
    using inv by (simp_all add: inv_split users_ok_def users_content_def distinct_map_filterI)
  ultimately show ?thesis using inv by (simp add: inv_split)
qed

lemma inv_drop_user:
  assumes inv: "event_inv d"
  shows "event_inv (drop_user uid d)"
proof -
  let ?d1 = "drop_discussions (owned_by uid d)
     (d\<lparr>event_interest := filter (\<lambda>r. InterestUser r \<noteq> uid) (event_interest d)\<rparr>)"
  have "event_inv ?d1" by (intro inv_drop_discussions inv_delete_interest inv)
  moreover have "\<forall>x \<in> set (event_discussions ?d1). Owner x \<noteq> uid"
    using owned_by_row [OF inv] by (auto simp: drop_discussions_def)
  moreover have "\<forall>r \<in> set (event_interest ?d1). InterestUser r \<noteq> uid"
    by (simp add: drop_discussions_def)
  moreover have "event_users ?d1 = event_users d" by (simp add: drop_discussions_def)
  ultimately show ?thesis
    using inv_delete_user [of ?d1 uid] by (simp only: drop_user_steps [OF inv])
qed

interpretation delete_user: tx_contract "DeleteUser_body uid" event_inv
  "\<lambda>d _ d'. event_inv d' \<and> uid \<in> user_ids d \<and> d' = drop_user uid d"
  "\<lambda>d e. e = ErrUserNotFound \<and> uid \<notin> user_ids d" for uid
proof unfold_locales
  fix d assume inv: "event_inv d"
  let ?E = "\<lambda>e. e = ErrUserNotFound \<and> uid \<notin> user_ids d"
  let ?Q = "\<lambda>_ d'. event_inv d' \<and> uid \<in> user_ids d \<and> d' = drop_user uid d"
  have cnt: "length (filter (\<lambda>u. UserID u = uid) (event_users d)) = (if uid \<in> user_ids d then 1 else 0)"
    using inv by (simp add: length_filter_key inv_split users_ok_def user_ids_def)
  let ?d1 = "d\<lparr>event_interest := filter (\<lambda>r. InterestUser r \<noteq> uid) (event_interest d)\<rparr>"
  let ?d2 = "?d1\<lparr>event_interest := filter (\<lambda>r. \<not> owned_by uid ?d1 (InterestDiscussion r)) (event_interest ?d1)\<rparr>"
  have inv2: "event_inv ?d2" by (intro inv_delete_interest inv)
  let ?d3 = "drop_discussions (owned_by uid d) ?d1"
  have del: "sql_delete_user uid ?d3 = Inr (if uid \<in> user_ids d then 1 else 0, drop_user uid d)"
  proof -
    have "\<not> list_ex (\<lambda>x. Owner x = uid) (event_discussions ?d3)"
      using owned_by_row [OF inv] by (auto simp: drop_discussions_def list_ex_iff)
    moreover have "\<not> list_ex (\<lambda>r. InterestUser r = uid) (event_interest ?d3)"
      by (auto simp: drop_discussions_def list_ex_iff)
    moreover have "event_users ?d3 = event_users d" by (simp add: drop_discussions_def)
    ultimately show ?thesis by (simp add: sql_delete_user_def cnt drop_user_steps [OF inv])
  qed
  have last: "wp (tx_bind (tx_at ''Deleting record for user'' (eq_exec (sql_delete_user uid))) (\<lambda>rcount.
      if rcount = 0 then tx_fail ErrUserNotFound
      else if rcount > 1 then tx_fail ErrInternal else tx_return ())) ?Q ?E ?d3"
    using del inv_drop_user [OF inv] by (auto intro!: tx_wp split: if_splits)
  have common: "wp (deleteDiscussionCommon (owned_by uid)) (\<lambda>_ d'. d' = ?d3) E ?d2" for E
    by (rule wp_deleteDiscussionCommon [OF inv2]) (simp_all only: owned_by_frame, simp add: drop_discussions_def)
  show "wp (DeleteUser_body uid) ?Q ?E d"
    unfolding DeleteUser_body_def sql_delete_interest_def sql_write_def
    by (intro wp_bind wp_at wp_exec, simp only: sum.case prod.case, intro wp_bind wp_at wp_exec,
        simp only: sum.case prod.case, intro wp_bind wp_at, rule wp_mono [OF common])
      (use last in auto)
qed

section \<open>Properties\<close>

text \<open>
  C12: Deleting a user never fails for an existing user and leaves no trace: the user, the user's
  interest, the user's discussions and every interest in, slot restriction and schedule entry of
  those are gone; every other row of every table is kept in place. Deleting a user that does not
  exist is reported and changes nothing.
\<close>
theorem DeleteUser_correct:
  assumes inv: "event_inv (committed w)" and run: "DeleteUser uid w = (r, w')"
  shows "event_inv (committed w') \<and>
    (case r of
       Inr _ \<Rightarrow> uid \<in> user_ids (committed w) \<and> uid \<notin> user_ids (committed w')
         \<and> (\<forall>x \<in> set (event_discussions (committed w')). Owner x \<noteq> uid)
         \<and> (\<forall>i \<in> set (event_interest (committed w')). InterestUser i \<noteq> uid)
         \<and> committed w' = drop_user uid (committed w)
     | Inl e \<Rightarrow> committed w' = committed w
         \<and> (pending w = 0 \<longrightarrow> e = ErrUserNotFound \<and> uid \<notin> user_ids (committed w)))"
proof -
  have gone: "uid \<notin> user_ids (drop_user uid d)" for d
    by (auto simp: user_ids_def drop_user_def)
  from run have "txLoop (DeleteUser_body uid) w = (r, w')" by (simp add: DeleteUser_def)
  from delete_user.outcome [OF inv this] inv gone [of "committed w"] show ?thesis
    by (cases r) (auto simp: tx_outcome_def drop_user_def)
qed

theorem DeleteUser_correct_witness:
  "event_inv (committed busy_world) \<and>
   (\<exists>w'. DeleteUser ''usr_a'' busy_world = (Inr (), w') \<and> committed w' = drop_user ''usr_a'' sample_db)"
proof -
  let ?x = "DeleteUser ''usr_a'' busy_world"
  have "fst ?x = Inr ()" by code_simp
  then obtain w' where x: "?x = (Inr (), w')" by (metis prod.collapse)
  have inv: "event_inv (committed busy_world)" by (simp add: sample_inv)
  from DeleteUser_correct [OF inv x] have "committed w' = drop_user ''usr_a'' sample_db" by auto
  with x inv show ?thesis by blast
qed

end
