(* ===== verification/Scheduler.thy ===== *)
theory Scheduler
  imports Discussions
begin

text \<open>
  The scheduler: \<^verbatim>\<open>event/schedule.go\<close>. A snapshot of the event is taken in one transaction, a greedy
  search distributes the discussions over the open slots, locations are assigned, and the result is
  stored in a second transaction.

  The source links schedules to discussions by pointers into the slice \<open>ss.Discussions\<close>; here a
  pointer is an index into that list, so that writing through it (\<open>placeDiscussions\<close>) is seen by
  everyone who holds it. A Go map from users to numbers is an association list without duplicate
  keys; the map \<open>PossibleSlots\<close> is a function that is false where no key is set. Which of several
  orders \<open>sort.Slice\<close> returns for equal keys is not specified: it is the parameter \<open>sort_slice\<close>.
\<close>

section \<open>Data\<close>

record searchDiscussion =
  sdDiscussionID :: string
  sdOwner :: string
  sdPossibleSlots :: "string \<Rightarrow> bool"
  sdUserInterest :: "(string \<times> int) list"
  sdMaxInterest :: int
  sdSlotID :: string
  sdLocationID :: int

record scheduleSlot =
  ssSlotID :: string
  ssDiscussions :: "nat list"

record schedule =
  schedSlots :: "scheduleSlot list"
  UnplacedDiscussions :: "nat list"

record searchStore =
  storeSlots :: "string list"
  storeUsers :: "User list"
  storeDiscussions :: "searchDiscussion list"
  storeLocations :: "int list"

section \<open>The snapshot\<close>

text \<open>The unlocked slots that are not breaks, \<open>order by dayid, slotidx\<close>.\<close>

definition open_slots :: "database \<Rightarrow> string list" where
  "open_slots d = map SlotID (sort_key slot_key
     (filter (\<lambda>s. \<not> IsBreak s \<and> \<not> IsLocked s) (event_slots d)))"

text \<open>
  The discussions with their (possibly absent) schedule entries and slots, less those whose slot is
  locked.
\<close>

definition unlocked_rows :: "database \<Rightarrow> Discussion \<Rightarrow> (string \<times> string) list" where
  "unlocked_rows d x =
    (let row = (DiscussionID x, Owner x) in
     case filter (\<lambda>r. ScheduledDiscussion r = DiscussionID x) (event_schedule d) of
       [] \<Rightarrow> [row]
     | rs \<Rightarrow> concat (map (\<lambda>r.
         (case filter (\<lambda>s. SlotID s = ScheduledSlot r) (event_slots d) of
            [] \<Rightarrow> [row]
          | ss \<Rightarrow> map (\<lambda>_. row) (filter (\<lambda>s. \<not> IsLocked s) ss))) rs))"

definition unlocked_join :: "database \<Rightarrow> (string \<times> string) list" where
  "unlocked_join d = sort_key fst (concat (map (unlocked_rows d) (event_discussions d)))"

definition restricted_open_slots :: "string \<Rightarrow> database \<Rightarrow> string list" where
  "restricted_open_slots did d = map SlotID (sort_key slot_key (concat (map (\<lambda>r.
     filter (\<lambda>s. SlotID s = PossibleSlotID r \<and> \<not> IsLocked s \<and> \<not> IsBreak s) (event_slots d))
     (filter (\<lambda>r. PossibleDiscussion r = did) (event_discussions_possible_slots d)))))"

text \<open>The body of the loop over the discussions of the snapshot.\<close>

definition snapshotDiscussion :: "string list \<Rightarrow> string \<times> string \<Rightarrow> searchDiscussion tx" where
  "snapshotDiscussion slots row =
    (case row of (did, owner) \<Rightarrow>
    tx_bind (tx_at ''Getting possible slot count'' (eq_exec (sql_select (\<lambda>d.
      length (filter (\<lambda>r. PossibleDiscussion r = did) (event_discussions_possible_slots d)))))) (\<lambda>cnt.
    tx_bind (if cnt = 0 then tx_return slots
             else tx_bind (tx_at ''Getting possible unlocked slots''
                             (eq_exec (sql_select (restricted_open_slots did)))) (\<lambda>pslots.
                  if pslots = [] then tx_fail (Errorf ''Unscheduled discussion restricted to locked slots'')
                  else tx_return pslots)) (\<lambda>pslots.
    tx_bind (tx_at ''Error getting interest for discussion'' (eq_exec (sql_select (\<lambda>d.
      map (\<lambda>r. (InterestUser r, InterestValue r))
        (filter (\<lambda>r. InterestDiscussion r = did) (event_interest d)))))) (\<lambda>interest.
    tx_return \<lparr>sdDiscussionID = did, sdOwner = owner,
      sdPossibleSlots = fold (\<lambda>s m. m(s := True)) pslots (\<lambda>_. False),
      sdUserInterest = interest,
      sdMaxInterest = fold (\<lambda>(_, i) acc. acc + i) interest 0,
      sdSlotID = '''', sdLocationID = 0\<rparr>))))"

definition makeSnapshot_body :: "tz_env \<Rightarrow> searchStore tx" where
  "makeSnapshot_body tz =
    tx_bind (tx_at ''Getting non-public discussion count'' (eq_exec (sql_select (\<lambda>d.
      length (filter (\<lambda>x. \<not> IsPublic x) (event_discussions d)))))) (\<lambda>dcount.
    if dcount \<noteq> 0 then tx_fail (Errorf ''Cannot run scheduler with non-public discussions'')
    else
    tx_bind (tx_at ''Getting schedule-able slots'' (eq_exec (sql_select open_slots))) (\<lambda>slots.
    if slots = [] then tx_fail (Errorf ''No schedulable slots found!'')
    else
    tx_bind (eq_exec (userGetAllTx tz)) (\<lambda>users.
    tx_bind (tx_at ''Getting locations'' (eq_exec (sql_select (\<lambda>d. map LocationID (event_locations d))))) (\<lambda>locs.
    tx_bind (tx_at ''Getting unlocked discussions'' (eq_exec (sql_select unlocked_join))) (\<lambda>rows.
    tx_bind (tx_map (snapshotDiscussion slots) rows) (\<lambda>discs.
    tx_return \<lparr>storeSlots = slots, storeUsers = users, storeDiscussions = discs, storeLocations = locs\<rparr>))))))"

definition makeSnapshot :: "tz_env \<Rightarrow> searchStore tx" where
  "makeSnapshot tz = txLoop (makeSnapshot_body tz)"

section \<open>Placing\<close>

definition place_slot :: "int list \<Rightarrow> scheduleSlot \<Rightarrow> searchDiscussion list \<Rightarrow> searchDiscussion list" where
  "place_slot locs slot discs =
     fold (\<lambda>(i, loc) ds. ds[i := (ds ! i)\<lparr>sdSlotID := ssSlotID slot, sdLocationID := loc\<rparr>])
       (zip (ssDiscussions slot) locs) discs"

fun place_slots :: "int list \<Rightarrow> scheduleSlot list \<Rightarrow> searchDiscussion list \<Rightarrow> error + searchDiscussion list" where
  "place_slots locs [] discs = Inr discs"
| "place_slots locs (slot # slots) discs =
    (if length (ssDiscussions slot) > length locs
     then Inl (Errorf ''Invalid schedule: more discussions in slot than locations'')
     else place_slots locs slots (place_slot locs slot discs))"

definition placeDiscussions :: "searchStore \<Rightarrow> schedule \<Rightarrow> error + searchDiscussion list" where
  "placeDiscussions ss s = place_slots (storeLocations ss) (schedSlots s) (storeDiscussions ss)"

section \<open>Storing\<close>

text \<open>One insert statement for all rows of a slot.\<close>

definition sql_insert_schedule :: "Scheduled list \<Rightarrow> unit stmt" where
  "sql_insert_schedule rows d =
    (if \<not> distinct (map schedule_key (event_schedule d @ rows)) then Inl (Constraint code_Unique)
     else if \<not> list_all (\<lambda>r. ScheduledDiscussion r \<in> discussion_ids d \<and> ScheduledSlot r \<in> slot_ids d
                             \<and> ScheduledLocation r \<in> location_ids d) rows
       then Inl (Constraint code_ForeignKey)
     else Inr ((), d\<lparr>event_schedule := event_schedule d @ rows\<rparr>))"

definition sched_row :: "searchDiscussion \<Rightarrow> Scheduled" where
  "sched_row disc = \<lparr>ScheduledDiscussion = sdDiscussionID disc, ScheduledSlot = sdSlotID disc,
     ScheduledLocation = sdLocationID disc\<rparr>"

definition scheduleSet_slot :: "searchDiscussion list \<Rightarrow> scheduleSlot \<Rightarrow> unit tx" where
  "scheduleSet_slot discs ss =
    tx_bind (tx_at ''Getting slot islocked / isbreak statuses'' (eq_exec (sql_get (\<lambda>d.
      map (\<lambda>s. (IsLocked s, IsBreak s)) (filter (\<lambda>s. SlotID s = ssSlotID ss) (event_slots d))))))
      (\<lambda>(locked, brk).
    if locked \<or> brk then tx_fail (Errorf ''Cannot set schedule for slot'')
    else
    tx_bind (tx_at ''Deleting schedule entries''
      (eq_exec (sql_delete_schedule (\<lambda>_ r. ScheduledSlot r = ssSlotID ss)))) (\<lambda>_.
    if ssDiscussions ss \<noteq> [] then
      tx_at ''Adding new schedule entries''
        (eq_exec (sql_insert_schedule (map (\<lambda>i. sched_row (discs ! i)) (ssDiscussions ss))))
    else tx_return ()))"

definition scheduleSet :: "searchDiscussion list \<Rightarrow> schedule \<Rightarrow> unit tx" where
  "scheduleSet discs s = txLoop (tx_each (scheduleSet_slot discs) (schedSlots s))"

section \<open>The search\<close>

definition scheduleMakeEmpty :: "searchStore \<Rightarrow> schedule" where
  "scheduleMakeEmpty ss =
     \<lparr>schedSlots = map (\<lambda>s. \<lparr>ssSlotID = s, ssDiscussions = []\<rparr>) (storeSlots ss),
      UnplacedDiscussions = [0..<length (storeDiscussions ss)]\<rparr>"

text \<open>A missing key of a Go map reads as zero.\<close>

definition map_get :: "(string \<times> int) list \<Rightarrow> string \<Rightarrow> int" where
  "map_get m u = (case map_of m u of None \<Rightarrow> 0 | Some i \<Rightarrow> i)"

definition addDiscussionInterest :: "(string \<times> int) list \<Rightarrow> searchDiscussion \<Rightarrow> (string \<times> int) list" where
  "addDiscussionInterest userMaxInt disc =
     fold (\<lambda>(u, i) m. if i > map_get m u then AList.update u i m else m) (sdUserInterest disc) userMaxInt"

definition scoreSlotDelta :: "searchDiscussion list \<Rightarrow> searchDiscussion \<Rightarrow> int" where
  "scoreSlotDelta discussions hyp =
    (let userMaxInt = fold (\<lambda>disc m. addDiscussionInterest m disc) discussions [];
         pre = fold (\<lambda>(_, interest) acc. acc + interest) userMaxInt 0;
         userMaxInt1 = addDiscussionInterest userMaxInt hyp;
         post = fold (\<lambda>(_, interest) acc. acc + interest) userMaxInt1 0
     in post - pre)"

definition slot_open_for :: "searchStore \<Rightarrow> searchDiscussion \<Rightarrow> scheduleSlot \<Rightarrow> bool" where
  "slot_open_for ss disc slot \<longleftrightarrow>
     sdPossibleSlots disc (ssSlotID slot) \<and> \<not> length (ssDiscussions slot) \<ge> length (storeLocations ss)"

definition slot_score :: "searchStore \<Rightarrow> searchDiscussion \<Rightarrow> scheduleSlot \<Rightarrow> int" where
  "slot_score ss disc slot =
     scoreSlotDelta (map (\<lambda>i. storeDiscussions ss ! i) (ssDiscussions slot)) disc
     + (int (length (storeLocations ss)) - int (length (ssDiscussions slot)))"

text \<open>The loop over the slots: the score and index of the best one so far, index -1 for none.\<close>

definition best_slot :: "searchStore \<Rightarrow> searchDiscussion \<Rightarrow> scheduleSlot list \<Rightarrow> int \<times> int" where
  "best_slot ss disc slots =
     fold (\<lambda>i best.
       if \<not> slot_open_for ss disc (slots ! i) then best
       else let score = slot_score ss disc (slots ! i)
            in if score > fst best then (score, int i) else best) [0..<length slots] (0, -1)"

text \<open>The loop over the discussions, with the slots filled and the discussions left out so far.\<close>

fun place_greedily :: "searchStore \<Rightarrow> nat list \<Rightarrow> scheduleSlot list \<Rightarrow> nat list \<Rightarrow> scheduleSlot list \<times> nat list" where
  "place_greedily ss [] slots unplaced = (slots, unplaced)"
| "place_greedily ss (k # ks) slots unplaced =
    (let index = snd (best_slot ss (storeDiscussions ss ! k) slots)
     in if index < 0 then place_greedily ss ks slots (unplaced @ [k])
        else place_greedily ss ks
               (slots[nat index := (slots ! nat index)\<lparr>ssDiscussions := ssDiscussions (slots ! nat index) @ [k]\<rparr>])
               unplaced)"

definition makeScheduleHeuristic :: "((nat \<Rightarrow> int) \<Rightarrow> nat list \<Rightarrow> nat list) \<Rightarrow> searchStore \<Rightarrow> schedule" where
  "makeScheduleHeuristic sort_slice ss =
    (let sched = scheduleMakeEmpty ss;
         sorted = sort_slice (\<lambda>k. sdMaxInterest (storeDiscussions ss ! k)) (UnplacedDiscussions sched);
         (slots, unplaced) = place_greedily ss sorted (schedSlots sched) []
     in \<lparr>schedSlots = slots, UnplacedDiscussions = unplaced\<rparr>)"

definition MakeSchedule :: "((nat \<Rightarrow> int) \<Rightarrow> nat list \<Rightarrow> nat list) \<Rightarrow> tz_env \<Rightarrow> unit tx" where
  "MakeSchedule sort_slice tz =
    tx_bind (makeSnapshot tz) (\<lambda>ss.
    let sched = makeScheduleHeuristic sort_slice ss
    in case placeDiscussions ss sched of
         Inl err \<Rightarrow> tx_fail err
       | Inr discs \<Rightarrow> scheduleSet discs sched)"

declare sql_insert_schedule_def [sql_defs]

section \<open>The value of a slot\<close>

text \<open>
  What the score measures: everybody goes to the discussion of the slot they are most interested
  in, and the value of the slot is the sum of these interests.
\<close>

definition user_value :: "(string \<times> int) list \<Rightarrow> string \<Rightarrow> int" where
  "user_value uis u = Max (insert 0 (snd ` {ui \<in> set uis. fst ui = u}))"

definition slot_value :: "searchDiscussion list \<Rightarrow> int" where
  "slot_value ds = (let uis = concat (map sdUserInterest ds) in \<Sum>u \<in> fst ` set uis. user_value uis u)"

lemma fold_snd_sum: "fold (\<lambda>(_, i) acc. acc + i) xs (a::int) = a + sum_list (map snd xs)"
  by (induction xs arbitrary: a) auto

lemma user_value_Nil [simp]: "user_value [] u = 0"
  by (simp add: user_value_def)

lemma user_value_snoc:
  "user_value (uis @ [(v, i)]) u = (if u = v then max (user_value uis u) i else user_value uis u)"
proof (cases "u = v")
  case True
  have fin: "finite {ui \<in> set uis. fst ui = v}" by (rule finite_subset [of _ "set uis"]) auto
  have "snd ` {ui \<in> set (uis @ [(v, i)]). fst ui = v} = insert i (snd ` {ui \<in> set uis. fst ui = v})"
    by force
  then have "user_value (uis @ [(v, i)]) v = Max (insert i (insert 0 (snd ` {ui \<in> set uis. fst ui = v})))"
    by (simp only: user_value_def insert_commute)
  also have "\<dots> = max i (user_value uis v)"
    using fin unfolding user_value_def by (subst Max_insert) auto
  finally show ?thesis using True by (simp add: max.commute)
next
  case False
  then have "{ui \<in> set (uis @ [(v, i)]). fst ui = u} = {ui \<in> set uis. fst ui = u}" by auto
  with False show ?thesis by (simp add: user_value_def)
qed

lemma user_value_nonneg: "0 \<le> user_value uis u"
proof -
  have "finite {ui \<in> set uis. fst ui = u}" by (rule finite_subset [of _ "set uis"]) auto
  then show ?thesis unfolding user_value_def by (intro Max_ge) auto
qed

lemma user_value_outside: "u \<notin> fst ` set uis \<Longrightarrow> user_value uis u = 0"
proof -
  assume "u \<notin> fst ` set uis"
  then have "{ui \<in> set uis. fst ui = u} = {}" by force
  then show ?thesis unfolding user_value_def by (simp only: image_empty Max_singleton)
qed

text \<open>The map the code keeps holds the values of the interest it has seen.\<close>

definition holds_values :: "(string \<times> int) list \<Rightarrow> (string \<times> int) list \<Rightarrow> bool" where
  "holds_values m uis \<longleftrightarrow> distinct (map fst m) \<and> fst ` set m \<subseteq> fst ` set uis
     \<and> (\<forall>u. map_get m u = user_value uis u)"

lemma map_get_update: "map_get (AList.update v i m) u = (if u = v then i else map_get m u)"
  by (simp add: map_get_def update_conv')

lemma holds_values_step:
  assumes "holds_values m uis"
  shows "holds_values (if i > map_get m v then AList.update v i m else m) (uis @ [(v, i)])"
  using assms
  by (auto simp: holds_values_def map_get_update user_value_snoc distinct_update update_keys
      dom_update max_def)

lemma holds_values_fold:
  "holds_values m uis \<Longrightarrow>
     holds_values (fold (\<lambda>(u, i) m. if i > map_get m u then AList.update u i m else m) xs m) (uis @ xs)"
proof (induction xs arbitrary: m uis)
  case (Cons x xs)
  obtain v i where x: "x = (v, i)" by fastforce
  with Cons.IH [OF holds_values_step [OF Cons.prems, of v i]] show ?case by simp
qed simp

lemma holds_values_slot:
  "holds_values m uis \<Longrightarrow>
     holds_values (fold (\<lambda>disc m. addDiscussionInterest m disc) ds m) (uis @ concat (map sdUserInterest ds))"
proof (induction ds arbitrary: m uis)
  case (Cons x ds)
  from Cons.IH [OF holds_values_fold [OF Cons.prems, of "sdUserInterest x"]] show ?case
    by (simp add: addDiscussionInterest_def)
qed simp

lemma sum_values:
  assumes "holds_values m uis"
  shows "sum_list (map snd m) = (\<Sum>u \<in> fst ` set uis. user_value uis u)"
proof -
  have "sum_list (map snd m) = (\<Sum>u \<in> fst ` set m. map_get m u)"
  proof -
    have dist: "distinct (map fst m)" using assms by (simp add: holds_values_def)
    then have "map snd m = map (\<lambda>p. map_get m (fst p)) m"
      by (auto simp: map_get_def map_of_is_SomeI)
    then have "sum_list (map snd m) = sum_list (map (map_get m) (map fst m))"
      by (simp only: map_map comp_def)
    also have "\<dots> = (\<Sum>u \<in> set (map fst m). map_get m u)"
      using dist by (rule sum_list_distinct_conv_sum_set)
    finally show ?thesis by simp
  qed
  also have "\<dots> = (\<Sum>u \<in> fst ` set uis. map_get m u)"
  proof (rule sum.mono_neutral_left)
    show "\<forall>u \<in> fst ` set uis - fst ` set m. map_get m u = 0"
      by (auto simp: map_get_def map_of_eq_None_iff split: option.splits) (metis map_of_SomeD fst_conv image_eqI)
  qed (use assms in \<open>auto simp: holds_values_def\<close>)
  finally show ?thesis using assms by (simp add: holds_values_def)
qed

lemma slot_value_sum: "holds_values m (concat (map sdUserInterest ds)) \<Longrightarrow> sum_list (map snd m) = slot_value ds"
  by (simp add: sum_values slot_value_def)

lemma scoreSlotDelta_eq: "scoreSlotDelta ds hyp = slot_value (ds @ [hyp]) - slot_value ds"
proof -
  have nil: "holds_values [] []" by (simp add: holds_values_def map_get_def)
  note pre = holds_values_slot [OF nil, of ds, simplified]
  have post: "holds_values (addDiscussionInterest (fold (\<lambda>disc m. addDiscussionInterest m disc) ds []) hyp)
      (concat (map sdUserInterest (ds @ [hyp])))"
    using holds_values_fold [OF pre, of "sdUserInterest hyp"] by (simp add: addDiscussionInterest_def)
  show ?thesis
    by (simp add: scoreSlotDelta_def Let_def fold_snd_sum slot_value_sum [OF pre] slot_value_sum [OF post])
qed

lemma slot_value_mono: "slot_value ds \<le> slot_value (ds @ [hyp])"
proof -
  let ?a = "concat (map sdUserInterest ds)" and ?b = "sdUserInterest hyp"
  have mono: "user_value xs u \<le> user_value (xs @ ys) u" for xs ys u
  proof (induction ys rule: rev_induct)
    case (snoc y ys)
    then show ?case using user_value_snoc [of "xs @ ys" "fst y" "snd y" u] by (auto split: if_splits)
  qed simp
  have "slot_value ds = (\<Sum>u \<in> fst ` set ?a. user_value ?a u)" by (simp add: slot_value_def Let_def)
  also have "\<dots> \<le> (\<Sum>u \<in> fst ` set ?a. user_value (?a @ ?b) u)" by (intro sum_mono mono)
  also have "\<dots> \<le> (\<Sum>u \<in> fst ` set (?a @ ?b). user_value (?a @ ?b) u)"
    by (rule sum_mono2) (auto intro: user_value_nonneg)
  finally show ?thesis by (simp add: slot_value_def Let_def)
qed

section \<open>The greedy search\<close>

lemma slot_score_pos:
  assumes "slot_open_for ss disc slot"
  shows "0 < slot_score ss disc slot"
  using assms slot_value_mono
  by (simp add: slot_open_for_def slot_score_def scoreSlotDelta_eq add_nonneg_pos)

text \<open>What the loop over the first \<open>n\<close> slots has found: nothing, if none is open, or the first of the best.\<close>

definition best_found :: "searchStore \<Rightarrow> searchDiscussion \<Rightarrow> scheduleSlot list \<Rightarrow> nat \<Rightarrow> int \<times> int \<Rightarrow> bool" where
  "best_found ss disc slots n best \<longleftrightarrow>
     (best = (0, -1) \<and> (\<forall>j < n. \<not> slot_open_for ss disc (slots ! j))) \<or>
     (\<exists>k < n. best = (slot_score ss disc (slots ! k), int k) \<and> slot_open_for ss disc (slots ! k)
        \<and> (\<forall>j < n. slot_open_for ss disc (slots ! j) \<longrightarrow> slot_score ss disc (slots ! j) \<le> slot_score ss disc (slots ! k))
        \<and> (\<forall>j < k. slot_open_for ss disc (slots ! j) \<longrightarrow> slot_score ss disc (slots ! j) < slot_score ss disc (slots ! k)))"

lemma best_found_step:
  assumes "best_found ss disc slots n best"
  shows "best_found ss disc slots (Suc n)
    (if \<not> slot_open_for ss disc (slots ! n) then best
     else let score = slot_score ss disc (slots ! n) in if score > fst best then (score, int n) else best)"
proof (cases "slot_open_for ss disc (slots ! n)")
  case False
  with assms show ?thesis by (auto simp: best_found_def less_Suc_eq)
next
  case True
  note pos = slot_score_pos [OF True]
  from assms consider "best = (0, -1)" "\<forall>j < n. \<not> slot_open_for ss disc (slots ! j)"
    | k where "k < n" "best = (slot_score ss disc (slots ! k), int k)" "slot_open_for ss disc (slots ! k)"
      "\<forall>j < n. slot_open_for ss disc (slots ! j) \<longrightarrow> slot_score ss disc (slots ! j) \<le> slot_score ss disc (slots ! k)"
      "\<forall>j < k. slot_open_for ss disc (slots ! j) \<longrightarrow> slot_score ss disc (slots ! j) < slot_score ss disc (slots ! k)"
    unfolding best_found_def by blast
  then show ?thesis
  proof cases
    case 1
    with True pos show ?thesis by (auto simp: best_found_def Let_def less_Suc_eq)
  next
    case (2 k)
    show ?thesis
    proof (cases "slot_score ss disc (slots ! n) > slot_score ss disc (slots ! k)")
      case better: True
      then have "\<forall>j < n. slot_open_for ss disc (slots ! j) \<longrightarrow> slot_score ss disc (slots ! j) < slot_score ss disc (slots ! n)"
        using 2(4) by fastforce
      with 2 True better show ?thesis
        by (auto simp: best_found_def Let_def less_Suc_eq intro!: exI [of _ n])
    next
      case False
      with 2 True show ?thesis
        by (auto simp: best_found_def Let_def less_Suc_eq intro!: exI [of _ k])
    qed
  qed
qed

lemma best_slot_found: "best_found ss disc slots (length slots) (best_slot ss disc slots)"
proof -
  let ?f = "\<lambda>i best. if \<not> slot_open_for ss disc (slots ! i) then best
       else let score = slot_score ss disc (slots ! i) in if score > fst best then (score, int i) else best"
  have "best_found ss disc slots n (fold ?f [0..<n] (0, -1))" for n
  proof (induction n)
    case 0
    then show ?case by (simp add: best_found_def)
  next
    case (Suc n)
    from best_found_step [OF Suc.IH] show ?case by (simp only: upt_Suc_append fold_append fold_simps) simp
  qed
  then show ?thesis by (simp only: best_slot_def)
qed

lemma best_slot_none:
  "snd (best_slot ss disc slots) < 0 \<longleftrightarrow> (\<forall>s \<in> set slots. \<not> slot_open_for ss disc s)"
  using best_slot_found [of ss disc slots] unfolding all_set_conv_all_nth by (auto simp: best_found_def)

lemma best_slot_some:
  assumes "\<not> snd (best_slot ss disc slots) < 0"
  shows "nat (snd (best_slot ss disc slots)) < length slots"
    and "slot_open_for ss disc (slots ! nat (snd (best_slot ss disc slots)))"
  using assms best_slot_found [of ss disc slots] by (auto simp: best_found_def)

text \<open>The state of the search: every discussion is in a slot, left out, or still to do.\<close>

definition placed_well :: "searchStore \<Rightarrow> scheduleSlot list \<Rightarrow> bool" where
  "placed_well ss slots \<longleftrightarrow> map ssSlotID slots = storeSlots ss \<and>
     (\<forall>s \<in> set slots. length (ssDiscussions s) \<le> length (storeLocations ss) \<and>
        (\<forall>k \<in> set (ssDiscussions s). sdPossibleSlots (storeDiscussions ss ! k) (ssSlotID s)))"

definition left_out_well :: "searchStore \<Rightarrow> scheduleSlot list \<Rightarrow> nat list \<Rightarrow> bool" where
  "left_out_well ss slots unplaced \<longleftrightarrow>
     (\<forall>k \<in> set unplaced. \<forall>s \<in> set slots. sdPossibleSlots (storeDiscussions ss ! k) (ssSlotID s) \<longrightarrow>
        length (storeLocations ss) \<le> length (ssDiscussions s))"

lemma mset_concat_update:
  assumes "i < length slots"
  shows "mset (concat (map ssDiscussions
     (slots[i := (slots ! i)\<lparr>ssDiscussions := ssDiscussions (slots ! i) @ [k]\<rparr>])))
     = add_mset k (mset (concat (map ssDiscussions slots)))"
  using assms by (induction slots arbitrary: i) (auto split: nat.splits)

lemma place_greedily_correct:
  assumes "placed_well ss slots" and "left_out_well ss slots unplaced"
    and "place_greedily ss ks slots unplaced = (slots', unplaced')"
  shows "placed_well ss slots' \<and> left_out_well ss slots' unplaced'
    \<and> mset (concat (map ssDiscussions slots')) + mset unplaced'
      = mset (concat (map ssDiscussions slots)) + mset unplaced + mset ks"
  using assms
proof (induction ks arbitrary: slots unplaced)
  case (Cons k ks)
  let ?disc = "storeDiscussions ss ! k"
  let ?i = "nat (snd (best_slot ss ?disc slots))"
  show ?case
  proof (cases "snd (best_slot ss ?disc slots) < 0")
    case True
    then have "left_out_well ss slots (unplaced @ [k])"
      using Cons.prems(2) best_slot_none [of ss ?disc slots]
      by (auto simp: left_out_well_def slot_open_for_def)
    with Cons.IH [OF Cons.prems(1) this] Cons.prems(3) True show ?thesis by simp
  next
    case False
    note best = best_slot_some [OF False]
    let ?s = "slots ! ?i"
    let ?new = "?s\<lparr>ssDiscussions := ssDiscussions ?s @ [k]\<rparr>"
    let ?slots = "slots[?i := ?new]"
    have ids: "map ssSlotID ?slots = map ssSlotID slots"
      using best(1) by (simp add: map_update list_update_same_conv)
    have sub: "set ?slots \<subseteq> insert ?new (set slots)" by (rule set_update_subset_insert)
    have mem: "?s \<in> set slots" using best(1) by simp
    have new: "length (ssDiscussions ?new) \<le> length (storeLocations ss)"
      "\<forall>j \<in> set (ssDiscussions ?new). sdPossibleSlots (storeDiscussions ss ! j) (ssSlotID ?new)"
      using best(2) Cons.prems(1) mem by (auto simp: slot_open_for_def placed_well_def)
    have "placed_well ss ?slots"
      using Cons.prems(1) new sub unfolding placed_well_def ids by blast
    moreover have "left_out_well ss ?slots unplaced"
      using Cons.prems(2) best(2) mem sub unfolding left_out_well_def slot_open_for_def
      by (fastforce dest: subsetD)
    ultimately show ?thesis
      using Cons.IH [of ?slots unplaced] Cons.prems(3) False mset_concat_update [OF best(1), of k]
      by (simp add: Let_def)
  qed
qed simp

text \<open>
  The interface to \<open>sort.Slice\<close>: it permutes the slice, and afterwards no element is less than its
  predecessor in the order of the callback (here: descending keys).
\<close>

locale slice_sort =
  fixes sort_slice :: "(nat \<Rightarrow> int) \<Rightarrow> nat list \<Rightarrow> nat list"
  assumes slice_perm: "mset (sort_slice key xs) = mset xs"
    and slice_sorted: "sorted_wrt (\<lambda>a b. key a \<ge> key b) (sort_slice key xs)"
begin

lemma heuristic_complete:
  fixes ss :: searchStore
  defines "sched \<equiv> makeScheduleHeuristic sort_slice ss"
  shows "placed_well ss (schedSlots sched)"
    and "left_out_well ss (schedSlots sched) (UnplacedDiscussions sched)"
    and "mset (concat (map ssDiscussions (schedSlots sched))) + mset (UnplacedDiscussions sched)
      = mset [0..<length (storeDiscussions ss)]"
proof -
  let ?start = "map (\<lambda>s. \<lparr>ssSlotID = s, ssDiscussions = []\<rparr>) (storeSlots ss)"
  let ?ks = "sort_slice (\<lambda>k. sdMaxInterest (storeDiscussions ss ! k)) [0..<length (storeDiscussions ss)]"
  obtain slots unplaced where run: "place_greedily ss ?ks ?start [] = (slots, unplaced)" by fastforce
  have sched: "sched = \<lparr>schedSlots = slots, UnplacedDiscussions = unplaced\<rparr>"
    using run by (simp add: sched_def makeScheduleHeuristic_def scheduleMakeEmpty_def)
  have "placed_well ss ?start" "left_out_well ss ?start []"
    by (auto simp: placed_well_def left_out_well_def comp_def)
  from place_greedily_correct [OF this run]
  have ok: "placed_well ss slots" "left_out_well ss slots unplaced"
    "mset (concat (map ssDiscussions slots)) + mset unplaced = mset (concat (map ssDiscussions ?start)) + mset [] + mset ?ks"
    by auto
  moreover have "concat (map ssDiscussions ?start) = []" by simp
  ultimately show "placed_well ss (schedSlots sched)"
    and "left_out_well ss (schedSlots sched) (UnplacedDiscussions sched)"
    and "mset (concat (map ssDiscussions (schedSlots sched))) + mset (UnplacedDiscussions sched)
      = mset [0..<length (storeDiscussions ss)]"
    by (simp_all add: sched slice_perm)
qed

end

text \<open>A stable sort meets the interface.\<close>

definition stable_slice :: "(nat \<Rightarrow> int) \<Rightarrow> nat list \<Rightarrow> nat list" where
  "stable_slice key xs = sort_key (\<lambda>k. - key k) xs"

interpretation stable: slice_sort stable_slice
proof unfold_locales
  fix key :: "nat \<Rightarrow> int" and xs
  show "mset (stable_slice key xs) = mset xs" by (simp add: stable_slice_def)
  have "sorted (map (\<lambda>k. - key k) (stable_slice key xs))" by (simp add: stable_slice_def)
  then show "sorted_wrt (\<lambda>a b. key a \<ge> key b) (stable_slice key xs)" by (simp add: sorted_map)
qed

section \<open>Locations and storing\<close>

text \<open>The schedule entries of one slot: its discussions in turn, each with the next location.\<close>

definition slot_rows :: "searchStore \<Rightarrow> scheduleSlot \<Rightarrow> Scheduled list" where
  "slot_rows ss s = map (\<lambda>(i, loc). \<lparr>ScheduledDiscussion = sdDiscussionID (storeDiscussions ss ! i),
     ScheduledSlot = ssSlotID s, ScheduledLocation = loc\<rparr>) (zip (ssDiscussions s) (storeLocations ss))"

lemma fold_place_length:
  "length (fold (\<lambda>(i, loc) ds. ds[i := g (ds ! i) loc]) ps ds) = length ds"
  by (induction ps arbitrary: ds) (auto split: prod.splits)

lemma fold_place_other:
  "i \<notin> fst ` set ps \<Longrightarrow> fold (\<lambda>(i, loc) ds. ds[i := g (ds ! i) loc]) ps ds ! i = ds ! i"
  by (induction ps arbitrary: ds) (auto split: prod.splits)

lemma fold_place_nth:
  assumes "distinct (map fst ps)" and "\<forall>i \<in> fst ` set ps. i < length ds" and "(i, loc) \<in> set ps"
  shows "fold (\<lambda>(i, loc) ds. ds[i := g (ds ! i) loc]) ps ds ! i = g (ds ! i) loc"
  using assms
proof (induction ps arbitrary: ds)
  case (Cons p ps)
  obtain k l where p: "p = (k, l)" by fastforce
  show ?case
  proof (cases "(i, loc) = p")
    case True
    with Cons.prems p show ?thesis by (simp add: fold_place_other)
  next
    case False
    with Cons.prems(3) have "(i, loc) \<in> set ps" by simp
    moreover from this Cons.prems(1) p have "i \<noteq> k" by force
    ultimately show ?thesis using Cons.IH [of "ds[k := g (ds ! k) l]"] Cons.prems p by simp
  qed
qed simp

lemma place_slot_nth:
  assumes "distinct (ssDiscussions slot)" and "\<forall>i \<in> set (ssDiscussions slot). i < length ds"
    and "length (ssDiscussions slot) \<le> length locs"
  shows "length (place_slot locs slot ds) = length ds"
    and "(i, loc) \<in> set (zip (ssDiscussions slot) locs) \<Longrightarrow>
      place_slot locs slot ds ! i = (ds ! i)\<lparr>sdSlotID := ssSlotID slot, sdLocationID := loc\<rparr>"
    and "i \<notin> set (ssDiscussions slot) \<Longrightarrow> place_slot locs slot ds ! i = ds ! i"
proof -
  let ?ps = "zip (ssDiscussions slot) locs"
  have fst: "map fst ?ps = ssDiscussions slot" using assms(3) by (simp add: map_fst_zip_take)
  then have "distinct (map fst ?ps)" and sub: "fst ` set ?ps = set (ssDiscussions slot)"
    using assms(1) by (simp_all flip: set_map)
  moreover from this have "\<forall>i \<in> fst ` set ?ps. i < length ds" using assms(2) by simp
  ultimately show "length (place_slot locs slot ds) = length ds"
    and "(i, loc) \<in> set ?ps \<Longrightarrow> place_slot locs slot ds ! i = (ds ! i)\<lparr>sdSlotID := ssSlotID slot, sdLocationID := loc\<rparr>"
    and "i \<notin> set (ssDiscussions slot) \<Longrightarrow> place_slot locs slot ds ! i = ds ! i"
    unfolding place_slot_def
    using fold_place_nth [of ?ps ds i loc "\<lambda>x loc. x\<lparr>sdSlotID := ssSlotID slot, sdLocationID := loc\<rparr>"]
      fold_place_other [of i ?ps "\<lambda>x loc. x\<lparr>sdSlotID := ssSlotID slot, sdLocationID := loc\<rparr>" ds]
      fold_place_length [of "\<lambda>x loc. x\<lparr>sdSlotID := ssSlotID slot, sdLocationID := loc\<rparr>" ?ps ds]
    by simp_all
qed

lemma place_slots_rows:
  assumes "distinct (concat (map ssDiscussions slots))" and "\<forall>i \<in> set (concat (map ssDiscussions slots)). i < length ds"
    and "\<forall>s \<in> set slots. length (ssDiscussions s) \<le> length locs"
    and "\<forall>i < length ds. sdDiscussionID (ds ! i) = sdDiscussionID (storeDiscussions ss ! i)"
    and "locs = storeLocations ss"
  shows "\<exists>ds'. place_slots locs slots ds = Inr ds' \<and> length ds' = length ds
    \<and> (\<forall>i. i \<notin> set (concat (map ssDiscussions slots)) \<longrightarrow> ds' ! i = ds ! i)
    \<and> (\<forall>s \<in> set slots. map (\<lambda>i. sched_row (ds' ! i)) (ssDiscussions s) = slot_rows ss s)"
  using assms(1-4)
proof (induction slots arbitrary: ds)
  case (Cons s slots)
  let ?ds = "place_slot locs s ds"
  have s: "distinct (ssDiscussions s)" "\<forall>i \<in> set (ssDiscussions s). i < length ds"
    "length (ssDiscussions s) \<le> length locs" using Cons.prems by auto
  note pl = place_slot_nth [OF s]
  have keep: "sdDiscussionID (?ds ! i) = sdDiscussionID (ds ! i)" for i
  proof (cases "i \<in> set (ssDiscussions s)")
    case True
    then obtain j where j: "j < length (ssDiscussions s)" "i = ssDiscussions s ! j" by (auto simp: in_set_conv_nth)
    with s(3) have "(i, locs ! j) \<in> set (zip (ssDiscussions s) locs)" by (force simp: set_zip)
    from pl(2) [OF this] show ?thesis by simp
  qed (simp add: pl(3))
  from Cons.IH [of ?ds] Cons.prems pl(1) keep obtain ds' where ds': "place_slots locs slots ?ds = Inr ds'"
    "length ds' = length ds" "\<forall>i. i \<notin> set (concat (map ssDiscussions slots)) \<longrightarrow> ds' ! i = ?ds ! i"
    "\<forall>s \<in> set slots. map (\<lambda>i. sched_row (ds' ! i)) (ssDiscussions s) = slot_rows ss s"
    by auto
  have "map (\<lambda>i. sched_row (ds' ! i)) (ssDiscussions s) = slot_rows ss s"
  proof (rule nth_equalityI)
    show "length (map (\<lambda>i. sched_row (ds' ! i)) (ssDiscussions s)) = length (slot_rows ss s)"
      using s(3) assms(5) by (simp add: slot_rows_def)
  next
    fix j assume "j < length (map (\<lambda>i. sched_row (ds' ! i)) (ssDiscussions s))"
    then have j: "j < length (ssDiscussions s)" by simp
    let ?i = "ssDiscussions s ! j"
    have "set (ssDiscussions s) \<inter> set (concat (map ssDiscussions slots)) = {}"
      using Cons.prems(1) by simp
    with j have i: "?i \<in> set (ssDiscussions s)" "?i \<notin> set (concat (map ssDiscussions slots))"
      using nth_mem by blast+
    have "(?i, locs ! j) \<in> set (zip (ssDiscussions s) locs)" using j s(3) by (force simp: set_zip)
    from pl(2) [OF this] ds'(3) i(2)
    have "ds' ! ?i = (ds ! ?i)\<lparr>sdSlotID := ssSlotID s, sdLocationID := locs ! j\<rparr>" by simp
    with j s(3) Cons.prems(4) s(2) i(1) assms(5) show "map (\<lambda>i. sched_row (ds' ! i)) (ssDiscussions s) ! j = slot_rows ss s ! j"
      by (simp add: slot_rows_def sched_row_def)
  qed
  with ds' pl(3) s(3) show ?case by auto
qed simp

text \<open>The database after the slots \<open>xs\<close> have been stored.\<close>

definition sched_after :: "searchStore \<Rightarrow> scheduleSlot list \<Rightarrow> database \<Rightarrow> database" where
  "sched_after ss xs d = d\<lparr>event_schedule :=
     filter (\<lambda>r. ScheduledSlot r \<notin> ssSlotID ` set xs) (event_schedule d) @ concat (map (slot_rows ss) xs)\<rparr>"

text \<open>What a schedule must satisfy to be stored without violating a constraint.\<close>

definition storable :: "searchStore \<Rightarrow> scheduleSlot list \<Rightarrow> database \<Rightarrow> bool" where
  "storable ss slots d \<longleftrightarrow>
     distinct (map ssSlotID slots) \<and> ssSlotID ` set slots \<subseteq> set (open_slots d)
     \<and> distinct (storeLocations ss) \<and> set (storeLocations ss) \<subseteq> location_ids d
     \<and> (\<forall>s \<in> set slots. \<forall>i \<in> set (ssDiscussions s). sdDiscussionID (storeDiscussions ss ! i) \<in> discussion_ids d)"

lemma slot_rows_in:
  assumes "r \<in> set (slot_rows ss s)"
  shows "ScheduledSlot r = ssSlotID s" and "ScheduledLocation r \<in> set (storeLocations ss)"
    and "\<exists>i \<in> set (ssDiscussions s). ScheduledDiscussion r = sdDiscussionID (storeDiscussions ss ! i)"
  using assms by (auto simp: slot_rows_def dest: set_zip_leftD set_zip_rightD)

lemma slot_rows_keys:
  "map schedule_key (slot_rows ss s) =
     map (Pair (ssSlotID s)) (take (length (ssDiscussions s)) (storeLocations ss))"
  by (rule nth_equalityI) (auto simp: slot_rows_def schedule_key_def)

lemma slot_rows_discussions:
  assumes "length (ssDiscussions s) \<le> length (storeLocations ss)"
  shows "map ScheduledDiscussion (slot_rows ss s) =
    map (\<lambda>i. sdDiscussionID (storeDiscussions ss ! i)) (ssDiscussions s)"
proof -
  have "map ScheduledDiscussion (slot_rows ss s) =
      map (\<lambda>i. sdDiscussionID (storeDiscussions ss ! i)) (map fst (zip (ssDiscussions s) (storeLocations ss)))"
    by (simp add: slot_rows_def case_prod_unfold)
  then show ?thesis using assms by (simp add: map_fst_zip_take)
qed

lemma slot_rows_Nil: "ssDiscussions s = [] \<Longrightarrow> slot_rows ss s = []"
  by (simp add: slot_rows_def)

lemma distinct_slot_rows:
  assumes "distinct (storeLocations ss)"
  shows "distinct (map schedule_key (slot_rows ss s))"
proof -
  have "distinct (take (length (ssDiscussions s)) (storeLocations ss))" using assms by simp
  then show ?thesis unfolding slot_rows_keys by (simp add: distinct_map inj_on_def)
qed

lemma distinct_all_rows:
  assumes "distinct (storeLocations ss)" and "distinct (map ssSlotID xs)"
  shows "distinct (map schedule_key (concat (map (slot_rows ss) xs)))"
  using assms(2)
proof (induction xs)
  case (Cons s xs)
  have "set (map schedule_key (slot_rows ss s)) \<inter> set (map schedule_key (concat (map (slot_rows ss) xs))) = {}"
    using Cons.prems by (auto simp: schedule_key_def dest!: slot_rows_in(1)) (metis image_eqI)
  with Cons distinct_slot_rows [OF assms(1)] show ?case by (simp only: list.map concat.simps map_append distinct_append) simp
qed simp

lemma open_slots_in: "s \<in> set (open_slots d) \<Longrightarrow> s \<in> slot_ids d"
  by (auto simp: open_slots_def slot_ids_def)

lemma inv_sched_after:
  assumes inv: "event_inv d" and st: "storable ss xs d"
  shows "event_inv (sched_after ss xs d)"
proof -
  let ?old = "filter (\<lambda>r. ScheduledSlot r \<notin> ssSlotID ` set xs) (event_schedule d)"
  let ?new = "concat (map (slot_rows ss) xs)"
  have "set (map schedule_key ?old) \<inter> set (map schedule_key ?new) = {}"
    by (auto simp: schedule_key_def dest!: slot_rows_in(1))
  moreover have "distinct (map schedule_key ?old)" using inv by (simp add: inv_split schedule_ok_def distinct_map_filterI)
  moreover have "distinct (map schedule_key ?new)" using st by (intro distinct_all_rows) (auto simp: storable_def)
  ultimately have keys: "distinct (map schedule_key (?old @ ?new))" by (simp only: map_append distinct_append)
  have refs: "ScheduledDiscussion r \<in> discussion_ids d \<and> ScheduledSlot r \<in> slot_ids d \<and> ScheduledLocation r \<in> location_ids d"
    if "r \<in> set ?new" for r
  proof -
    from that obtain s where s: "s \<in> set xs" "r \<in> set (slot_rows ss s)" by auto
    note in_row = slot_rows_in [OF s(2)]
    from in_row(3) obtain i where "i \<in> set (ssDiscussions s)"
      "ScheduledDiscussion r = sdDiscussionID (storeDiscussions ss ! i)" by blast
    with st s(1) in_row(1,2) show ?thesis
      by (auto simp: storable_def intro!: open_slots_in)
  qed
  have "schedule_ok (sched_after ss xs d)"
    using inv keys refs by (auto simp: sched_after_def schedule_ok_def inv_split simp del: map_append)
  with inv show ?thesis by (simp add: sched_after_def inv_split)
qed

lemma storable_append: "storable ss (xs @ ys) d \<Longrightarrow> storable ss xs d"
  by (auto simp: storable_def)

lemma slot_status:
  assumes inv: "event_inv d" and open_slot: "sid \<in> set (open_slots d)"
  shows "filter (\<lambda>s. SlotID s = sid) (event_slots d) \<noteq> []"
    and "map (\<lambda>s. (IsLocked s, IsBreak s)) (filter (\<lambda>s. SlotID s = sid) (event_slots d)) = [(False, False)]"
proof -
  obtain s where s: "s \<in> set (event_slots d)" "SlotID s = sid" "\<not> IsLocked s" "\<not> IsBreak s"
    using open_slot by (auto simp: open_slots_def)
  have "filter (\<lambda>s. SlotID s = sid) (event_slots d) = [s]"
    using inv s filter_key_find [of SlotID "event_slots d" sid] find_key_eq_Some [of SlotID "event_slots d" s]
    by (simp add: inv_split slots_ok_def)
  with s show "filter (\<lambda>s. SlotID s = sid) (event_slots d) \<noteq> []"
    and "map (\<lambda>s. (IsLocked s, IsBreak s)) (filter (\<lambda>s. SlotID s = sid) (event_slots d)) = [(False, False)]"
    by simp_all
qed

lemma wp_scheduleSet_slot:
  assumes inv: "event_inv d" and st: "storable ss (xs @ [s]) d"
    and rows: "map (\<lambda>i. sched_row (discs ! i)) (ssDiscussions s) = slot_rows ss s"
  shows "wp (scheduleSet_slot discs s) (\<lambda>_ d'. d' = sched_after ss (xs @ [s]) d) (\<lambda>_. False) (sched_after ss xs d)"
proof -
  let ?d = "sched_after ss xs d"
  have fr: "event_slots ?d = event_slots d" "discussion_ids ?d = discussion_ids d" "slot_ids ?d = slot_ids d"
    "location_ids ?d = location_ids d" by (simp_all add: sched_after_def)
  have "ssSlotID s \<in> set (open_slots d)" using st by (simp add: storable_def)
  note status = slot_status(2) [OF inv this]
  let ?d1 = "?d\<lparr>event_schedule := filter (\<lambda>r. ScheduledSlot r \<noteq> ssSlotID s) (event_schedule ?d)\<rparr>"
  have notin: "ssSlotID s \<notin> ssSlotID ` set xs" using st by (auto simp: storable_def)
  have keep: "filter (\<lambda>r. ScheduledSlot r \<noteq> ssSlotID s) (concat (map (slot_rows ss) xs)) = concat (map (slot_rows ss) xs)"
    using notin by (intro filter_True) (auto dest!: slot_rows_in(1))
  have old: "filter (\<lambda>r. ScheduledSlot r \<noteq> ssSlotID s)
      (filter (\<lambda>r. ScheduledSlot r \<notin> ssSlotID ` set xs) (event_schedule d))
      = filter (\<lambda>r. ScheduledSlot r \<notin> ssSlotID ` set (xs @ [s])) (event_schedule d)"
    unfolding filter_filter by (rule filter_cong) auto
  have d2: "?d1\<lparr>event_schedule := event_schedule ?d1 @ slot_rows ss s\<rparr> = sched_after ss (xs @ [s]) d"
    using keep old by (simp add: sched_after_def)
  have "event_inv (sched_after ss (xs @ [s]) d)" by (rule inv_sched_after [OF inv st])
  then have ok: "distinct (map schedule_key (event_schedule ?d1 @ slot_rows ss s))"
    and fk: "list_all (\<lambda>r. ScheduledDiscussion r \<in> discussion_ids ?d1 \<and> ScheduledSlot r \<in> slot_ids ?d1
      \<and> ScheduledLocation r \<in> location_ids ?d1) (slot_rows ss s)"
    unfolding d2 [symmetric] by (auto simp: inv_split schedule_ok_def list_all_iff simp del: map_append)
  have ins: "sql_insert_schedule (slot_rows ss s) ?d1 = Inr ((), sched_after ss (xs @ [s]) d)"
    unfolding sql_insert_schedule_def d2 using ok fk by (simp only: if_False not_True_eq_False simp_thms)
  have none: "ssDiscussions s = [] \<Longrightarrow> ?d1 = sched_after ss (xs @ [s]) d"
    using d2 by (simp add: slot_rows_Nil)
  show ?thesis
    unfolding scheduleSet_slot_def rows
    by (auto intro!: tx_wp simp: sql_get_def fr status sql_delete_schedule_def sql_write_def ins none)
qed

lemma wp_scheduleSet:
  assumes inv: "event_inv d" and st: "storable ss slots d"
    and rows: "\<forall>s \<in> set slots. map (\<lambda>i. sched_row (discs ! i)) (ssDiscussions s) = slot_rows ss s"
  shows "wp (tx_each (scheduleSet_slot discs) slots) (\<lambda>_ d'. d' = sched_after ss slots d) (\<lambda>_. False) d"
proof -
  let ?I = "\<lambda>ys d'. \<exists>xs. slots = xs @ ys \<and> d' = sched_after ss xs d"
  have "?I slots d" by (intro exI [of _ "[]"]) (simp add: sched_after_def)
  moreover have "wp (scheduleSet_slot discs s) (\<lambda>_ d'. ?I ys d') (\<lambda>_. False) d1" if "?I (s # ys) d1" for s ys d1
  proof -
    from that obtain xs where xs: "slots = xs @ s # ys" "d1 = sched_after ss xs d" by blast
    have "storable ss (xs @ [s]) d" using storable_append [of ss "xs @ [s]" ys d] st xs by simp
    from wp_scheduleSet_slot [OF inv this, of discs] rows xs
    have "wp (scheduleSet_slot discs s) (\<lambda>_ d'. d' = sched_after ss (xs @ [s]) d) (\<lambda>_. False) d1" by simp
    then show ?thesis by (rule wp_mono) (auto simp: xs(1) intro!: exI [of _ "xs @ [s]"])
  qed
  ultimately have "wp (tx_each (scheduleSet_slot discs) slots) (\<lambda>_ d'. ?I [] d') (\<lambda>_. False) d"
    by (rule wp_each)
  then show ?thesis by (rule wp_mono) auto
qed

section \<open>What the snapshot holds\<close>

text \<open>Where a discussion may be scheduled: in the open slots, or in those of them it is restricted to.\<close>

definition permitted :: "database \<Rightarrow> string \<Rightarrow> string \<Rightarrow> bool" where
  "permitted d did sid \<longleftrightarrow> sid \<in> set (open_slots d) \<and>
     ((\<forall>r \<in> set (event_discussions_possible_slots d). PossibleDiscussion r \<noteq> did) \<or> restricted_to d did sid)"

definition snapshot_row :: "database \<Rightarrow> string \<times> string \<Rightarrow> searchDiscussion \<Rightarrow> bool" where
  "snapshot_row d row x \<longleftrightarrow> sdDiscussionID x = fst row \<and> sdOwner x = snd row
     \<and> (\<forall>s. sdPossibleSlots x s \<longleftrightarrow> permitted d (fst row) s)
     \<and> sdUserInterest x = map (\<lambda>r. (InterestUser r, InterestValue r))
         (filter (\<lambda>r. InterestDiscussion r = fst row) (event_interest d))
     \<and> sdMaxInterest x = sum_list (map snd (sdUserInterest x))"

definition snapshot_of :: "database \<Rightarrow> searchStore \<Rightarrow> bool" where
  "snapshot_of d ss \<longleftrightarrow> storeSlots ss = open_slots d \<and> storeLocations ss = map LocationID (event_locations d)
     \<and> list_all2 (snapshot_row d) (unlocked_join d) (storeDiscussions ss)"

definition snapshot_fails :: "tz_env \<Rightarrow> database \<Rightarrow> error \<Rightarrow> bool" where
  "snapshot_fails tz d e \<longleftrightarrow>
     (e = Errorf ''Cannot run scheduler with non-public discussions'' \<and> (\<exists>x \<in> set (event_discussions d). \<not> IsPublic x)) \<or>
     (e = Errorf ''No schedulable slots found!'' \<and> open_slots d = []) \<or>
     (\<exists>u \<in> set (event_users d). isl (scan_user tz u)) \<or>
     (e = Errorf ''Unscheduled discussion restricted to locked slots'' \<and>
        (\<exists>did \<in> discussion_ids d. \<forall>s. \<not> permitted d did s))"

lemma fold_set_true: "fold (\<lambda>s m. m(s := True)) xs m s \<longleftrightarrow> s \<in> set xs \<or> m s"
  by (induction xs arbitrary: m) auto

lemma restricted_open_slots_set:
  "s \<in> set (restricted_open_slots did d) \<longleftrightarrow> s \<in> set (open_slots d) \<and> restricted_to d did s"
  unfolding restricted_open_slots_def open_slots_def restricted_to_def possible_key_def
  by (auto simp: image_iff) (metis (no_types, lifting))

lemma wp_snapshotDiscussion:
  assumes row: "fst row \<in> discussion_ids d"
  shows "wp (snapshotDiscussion (open_slots d) row) (\<lambda>x d'. d' = d \<and> snapshot_row d row x) (snapshot_fails tz d) d"
proof -
  obtain did owner where r: "row = (did, owner)" by fastforce
  show ?thesis
  proof (cases "filter (\<lambda>r. PossibleDiscussion r = did) (event_discussions_possible_slots d) = []")
    case True
    then have "permitted d did s \<longleftrightarrow> s \<in> set (open_slots d)" for s
      by (auto simp: permitted_def filter_empty_conv)
    with True show ?thesis
      by (auto intro!: tx_wp simp: snapshotDiscussion_def r sql_select_def snapshot_row_def fold_set_true fold_snd_sum)
  next
    case False
    then have p: "permitted d did s \<longleftrightarrow> s \<in> set (restricted_open_slots did d)" for s
      by (auto simp: permitted_def restricted_open_slots_set filter_empty_conv)
    have "snapshot_fails tz d (Errorf ''Unscheduled discussion restricted to locked slots'')"
      if "restricted_open_slots did d = []"
      using that p row r by (auto simp: snapshot_fails_def)
    with False p show ?thesis
      by (auto intro!: tx_wp simp: snapshotDiscussion_def r sql_select_def snapshot_row_def fold_set_true fold_snd_sum)
  qed
qed

lemma unlocked_rows_elem: "row \<in> set (unlocked_rows d x) \<Longrightarrow> row = (DiscussionID x, Owner x)"
proof -
  let ?rs = "filter (\<lambda>r. ScheduledDiscussion r = DiscussionID x) (event_schedule d)"
  let ?f = "\<lambda>r. case filter (\<lambda>s. SlotID s = ScheduledSlot r) (event_slots d) of
      [] \<Rightarrow> [(DiscussionID x, Owner x)]
    | ss \<Rightarrow> map (\<lambda>_. (DiscussionID x, Owner x)) (filter (\<lambda>s. \<not> IsLocked s) ss)"
  assume row: "row \<in> set (unlocked_rows d x)"
  have f: "row = (DiscussionID x, Owner x)" if "row \<in> set (?f r)" for r
    using that by (cases "filter (\<lambda>s. SlotID s = ScheduledSlot r) (event_slots d)") (auto split: if_splits)
  show ?thesis
  proof (cases ?rs)
    case Nil
    with row show ?thesis by (simp add: unlocked_rows_def)
  next
    case (Cons r rs)
    with row have "row \<in> set (concat (map ?f (r # rs)))" unfolding unlocked_rows_def Let_def by (simp only: list.case)
    with f show ?thesis by auto
  qed
qed

lemma unlocked_join_in: "row \<in> set (unlocked_join d) \<Longrightarrow> fst row \<in> discussion_ids d"
  by (auto simp: unlocked_join_def discussion_ids_def dest: unlocked_rows_elem)

lemma scan_users_Inl: "scan_users tz us = Inl x \<Longrightarrow> \<exists>u \<in> set us. isl (scan_user tz u)"
  by (induction us arbitrary: x) (auto split: sum.splits)

interpretation snapshot: tx_contract "makeSnapshot_body tz" "\<lambda>d. True"
  "\<lambda>d ss d'. d' = d \<and> snapshot_of d ss" "snapshot_fails tz" for tz
proof unfold_locales
  fix d
  let ?E = "snapshot_fails tz d"
  have rows: "wp (tx_map (snapshotDiscussion (open_slots d)) (unlocked_join d))
      (\<lambda>vs d'. d' = d \<and> list_all2 (snapshot_row d) (unlocked_join d) vs) ?E d"
    by (rule wp_tx_map, rule wp_snapshotDiscussion, rule unlocked_join_in)
  have ss: "snapshot_of d \<lparr>storeSlots = open_slots d, storeUsers = us, storeDiscussions = vs,
      storeLocations = map LocationID (event_locations d)\<rparr>"
    if "list_all2 (snapshot_row d) (unlocked_join d) vs" for us vs
    using that by (simp add: snapshot_of_def)
  have tail: "wp (tx_bind (tx_at ''Getting locations'' (eq_exec (sql_select (\<lambda>d. map LocationID (event_locations d))))) (\<lambda>locs.
      tx_bind (tx_at ''Getting unlocked discussions'' (eq_exec (sql_select unlocked_join))) (\<lambda>rows.
      tx_bind (tx_map (snapshotDiscussion (open_slots d)) rows) (\<lambda>discs.
      tx_return \<lparr>storeSlots = open_slots d, storeUsers = users, storeDiscussions = discs, storeLocations = locs\<rparr>))))
      (\<lambda>ss d'. d' = d \<and> snapshot_of d ss) ?E d" for users
    using ss by (auto intro!: tx_wp wp_mono [OF rows] simp: sql_select_def)
  have users: "case userGetAllTx tz d of Inl x \<Rightarrow> \<forall>e. ?E e | Inr (v, d') \<Rightarrow> d' = d"
    by (auto simp: userGetAllTx_def snapshot_fails_def dest!: scan_users_Inl split: sum.splits)
  have pub: "length (filter (\<lambda>x. \<not> IsPublic x) (event_discussions d)) \<noteq> 0 \<Longrightarrow>
      ?E (Errorf ''Cannot run scheduler with non-public discussions'')"
    by (auto simp: snapshot_fails_def filter_empty_conv)
  have none: "open_slots d = [] \<Longrightarrow> ?E (Errorf ''No schedulable slots found!'')"
    by (simp add: snapshot_fails_def)
  from users tail pub none show "wp (makeSnapshot_body tz) (\<lambda>ss d'. d' = d \<and> snapshot_of d ss) ?E d"
    unfolding makeSnapshot_body_def
    by (intro wp_bind [of "tx_at c m" for c m] wp_at wp_exec)
      (auto intro!: wp_if wp_fail wp_bind [of "tx_at c m" for c m] wp_at wp_bind [of "eq_exec s" for s] wp_exec
        simp: sql_select_def split: sum.splits)
qed

section \<open>Running the scheduler\<close>

definition locked_slot :: "database \<Rightarrow> string \<Rightarrow> bool" where
  "locked_slot d sid \<longleftrightarrow> (\<exists>s \<in> set (event_slots d). SlotID s = sid \<and> IsLocked s)"

definition break_slot :: "database \<Rightarrow> string \<Rightarrow> bool" where
  "break_slot d sid \<longleftrightarrow> (\<exists>s \<in> set (event_slots d). SlotID s = sid \<and> IsBreak s)"

text \<open>A tidy schedule: nothing is scheduled twice, and nothing during a break.\<close>

definition schedule_tidy :: "database \<Rightarrow> bool" where
  "schedule_tidy d \<longleftrightarrow> distinct (map ScheduledDiscussion (event_schedule d))
     \<and> (\<forall>r \<in> set (event_schedule d). \<not> break_slot d (ScheduledSlot r))"

definition fixed_discussion :: "database \<Rightarrow> string \<Rightarrow> bool" where
  "fixed_discussion d did \<longleftrightarrow>
     (\<exists>r \<in> set (event_schedule d). ScheduledDiscussion r = did \<and> locked_slot d (ScheduledSlot r))"

lemma distinct_map_eqD:
  "distinct (map f xs) \<Longrightarrow> x \<in> set xs \<Longrightarrow> y \<in> set xs \<Longrightarrow> f x = f y \<Longrightarrow> x = y"
  by (auto simp: distinct_map dest: inj_onD)

lemma distinct_map_sort_key: "distinct (map f (sort_key k xs)) \<longleftrightarrow> distinct (map f xs)"
  by (rule mset_eq_imp_distinct_iff) simp

lemma distinct_map_inj_on_nth:
  assumes "distinct (map f xs)"
  shows "inj_on (\<lambda>i. f (xs ! i)) {..<length xs}"
proof (rule inj_onI)
  fix i j assume "i \<in> {..<length xs}" "j \<in> {..<length xs}" "f (xs ! i) = f (xs ! j)"
  then have "map f xs ! i = map f xs ! j" "i < length (map f xs)" "j < length (map f xs)" by simp_all
  with assms show "i = j" by (simp only: nth_eq_iff_index_eq)
qed

lemma unlocked_rows_tidy:
  assumes inv: "event_inv d" and tidy: "schedule_tidy d"
  shows "unlocked_rows d x = (if fixed_discussion d (DiscussionID x) then [] else [(DiscussionID x, Owner x)])"
proof -
  let ?did = "DiscussionID x"
  have one: "filter (\<lambda>r. ScheduledDiscussion r = ?did) (event_schedule d) =
      (case find (\<lambda>r. ScheduledDiscussion r = ?did) (event_schedule d) of None \<Rightarrow> [] | Some r \<Rightarrow> [r])"
    using tidy by (intro filter_key_find) (simp add: schedule_tidy_def)
  show ?thesis
  proof (cases "find (\<lambda>r. ScheduledDiscussion r = ?did) (event_schedule d)")
    case None
    then have "?did \<notin> ScheduledDiscussion ` set (event_schedule d)" by (simp add: find_key_None)
    then have "\<not> fixed_discussion d ?did" by (metis fixed_discussion_def image_eqI)
    with one None show ?thesis by (simp add: unlocked_rows_def)
  next
    case (Some r)
    from find_key_Some [OF this] have r: "r \<in> set (event_schedule d)" "ScheduledDiscussion r = ?did" by auto
    then have "ScheduledSlot r \<in> slot_ids d" using inv by (simp add: inv_split schedule_ok_def)
    then obtain s where s: "s \<in> set (event_slots d)" "SlotID s = ScheduledSlot r" by (auto simp: slot_ids_def)
    have slot: "filter (\<lambda>s. SlotID s = ScheduledSlot r) (event_slots d) = [s]"
      using inv s filter_key_find [of SlotID "event_slots d" "ScheduledSlot r"]
        find_key_eq_Some [of SlotID "event_slots d" s] by (simp add: inv_split slots_ok_def)
    have only: "q = r" if "q \<in> set (event_schedule d)" "ScheduledDiscussion q = ?did" for q
      using that r tidy distinct_map_eqD [of ScheduledDiscussion "event_schedule d" q r]
      by (simp add: schedule_tidy_def)
    have "t = s" if "t \<in> set (event_slots d)" "SlotID t = ScheduledSlot r" for t
      using that s inv distinct_map_eqD [of SlotID "event_slots d" t s] by (simp add: inv_split slots_ok_def)
    then have "fixed_discussion d ?did \<longleftrightarrow> IsLocked s"
      unfolding fixed_discussion_def locked_slot_def using only r s by blast
    with one Some slot show ?thesis by (simp add: unlocked_rows_def)
  qed
qed

lemma unlocked_join_tidy:
  assumes "event_inv d" and "schedule_tidy d"
  shows "distinct (map fst (unlocked_join d))"
    and "fst ` set (unlocked_join d) = {did \<in> discussion_ids d. \<not> fixed_discussion d did}"
proof -
  let ?rows = "concat (map (unlocked_rows d) (event_discussions d))"
  have rows: "map fst (concat (map (unlocked_rows d) xs)) = filter (\<lambda>did. \<not> fixed_discussion d did) (map DiscussionID xs)" for xs
    by (induction xs) (simp_all add: unlocked_rows_tidy [OF assms])
  have "distinct (map fst ?rows)"
    using assms(1) unfolding rows by (simp add: inv_split discussions_ok_def)
  then show "distinct (map fst (unlocked_join d))"
    unfolding unlocked_join_def by (metis mset_map mset_sort mset_eq_imp_distinct_iff)
  have "fst ` set (unlocked_join d) = set (map fst ?rows)" by (simp add: unlocked_join_def)
  also have "\<dots> = {did \<in> discussion_ids d. \<not> fixed_discussion d did}"
    unfolding rows by (auto simp: discussion_ids_def)
  finally show "fst ` set (unlocked_join d) = {did \<in> discussion_ids d. \<not> fixed_discussion d did}" .
qed

lemma snapshot_ids:
  assumes "snapshot_of d ss"
  shows "map sdDiscussionID (storeDiscussions ss) = map fst (unlocked_join d)"
    and "i < length (storeDiscussions ss) \<Longrightarrow>
      sdPossibleSlots (storeDiscussions ss ! i) s \<longleftrightarrow> permitted d (sdDiscussionID (storeDiscussions ss ! i)) s"
proof -
  have l2: "list_all2 (snapshot_row d) (unlocked_join d) (storeDiscussions ss)"
    using assms by (simp add: snapshot_of_def)
  then have "list_all2 (\<lambda>row x. sdDiscussionID x = fst row) (unlocked_join d) (storeDiscussions ss)"
    by (rule list_all2_mono) (simp add: snapshot_row_def)
  then show "map sdDiscussionID (storeDiscussions ss) = map fst (unlocked_join d)"
    by (auto simp: list_all2_conv_all_nth intro: nth_equalityI)
  show "sdPossibleSlots (storeDiscussions ss ! i) s \<longleftrightarrow> permitted d (sdDiscussionID (storeDiscussions ss ! i)) s"
    if "i < length (storeDiscussions ss)"
    using list_all2_nthD2 [OF l2 that] by (simp add: snapshot_row_def)
qed

lemma distinct_open_slots:
  assumes "event_inv d"
  shows "distinct (open_slots d)"
proof -
  have "distinct (map SlotID (filter (\<lambda>s. \<not> IsBreak s \<and> \<not> IsLocked s) (event_slots d)))"
    using assms by (simp add: inv_split slots_ok_def distinct_map_filterI)
  then show ?thesis by (simp only: open_slots_def distinct_map_sort_key)
qed

text \<open>
  What the two later phases do with a snapshot: they never fail, and every new entry puts a
  discussion that is not fixed into a slot it is permitted in.
\<close>

context slice_sort
begin

lemma sched_indices:
  fixes ss :: searchStore
  defines "sched \<equiv> makeScheduleHeuristic sort_slice ss"
  shows "distinct (concat (map ssDiscussions (schedSlots sched)))"
    and "set (concat (map ssDiscussions (schedSlots sched))) \<union> set (UnplacedDiscussions sched)
      = {..<length (storeDiscussions ss)}"
proof -
  have eq: "mset (concat (map ssDiscussions (schedSlots sched)) @ UnplacedDiscussions sched)
      = mset [0..<length (storeDiscussions ss)]"
    using heuristic_complete(3) [of ss] by (simp only: sched_def mset_append)
  from mset_eq_imp_distinct_iff [OF eq] show "distinct (concat (map ssDiscussions (schedSlots sched)))" by simp
  from mset_eq_setD [OF eq] show "set (concat (map ssDiscussions (schedSlots sched))) \<union> set (UnplacedDiscussions sched)
     = {..<length (storeDiscussions ss)}" by (simp add: lessThan_atLeast0)
qed

lemma sched_slot:
  assumes snap: "snapshot_of d ss" and s: "s \<in> set (schedSlots (makeScheduleHeuristic sort_slice ss))"
  shows "length (ssDiscussions s) \<le> length (storeLocations ss)"
    and "i \<in> set (ssDiscussions s) \<Longrightarrow> i < length (storeDiscussions ss)"
    and "i \<in> set (ssDiscussions s) \<Longrightarrow> permitted d (sdDiscussionID (storeDiscussions ss ! i)) (ssSlotID s)"
proof -
  note well = heuristic_complete(1) [of ss, unfolded placed_well_def]
  show "length (ssDiscussions s) \<le> length (storeLocations ss)" using well s by blast
  show lt: "i < length (storeDiscussions ss)" if "i \<in> set (ssDiscussions s)"
    using that s sched_indices(2) [of ss] by auto
  show "permitted d (sdDiscussionID (storeDiscussions ss ! i)) (ssSlotID s)" if i: "i \<in> set (ssDiscussions s)"
  proof -
    have "sdPossibleSlots (storeDiscussions ss ! i) (ssSlotID s)" using well s i by blast
    then show ?thesis by (simp only: snapshot_ids(2) [OF snap lt [OF i]])
  qed
qed

lemma place_succeeds:
  fixes ss :: searchStore
  assumes "snapshot_of d ss"
  defines "sched \<equiv> makeScheduleHeuristic sort_slice ss"
  obtains ds where "placeDiscussions ss sched = Inr ds"
    and "\<forall>s \<in> set (schedSlots sched). map (\<lambda>i. sched_row (ds ! i)) (ssDiscussions s) = slot_rows ss s"
proof -
  have "\<exists>ds. place_slots (storeLocations ss) (schedSlots sched) (storeDiscussions ss) = Inr ds
      \<and> length ds = length (storeDiscussions ss)
      \<and> (\<forall>i. i \<notin> set (concat (map ssDiscussions (schedSlots sched))) \<longrightarrow> ds ! i = storeDiscussions ss ! i)
      \<and> (\<forall>s \<in> set (schedSlots sched). map (\<lambda>i. sched_row (ds ! i)) (ssDiscussions s) = slot_rows ss s)"
  proof (rule place_slots_rows)
    show "distinct (concat (map ssDiscussions (schedSlots sched)))"
      unfolding sched_def by (rule sched_indices(1))
    show "\<forall>i \<in> set (concat (map ssDiscussions (schedSlots sched))). i < length (storeDiscussions ss)"
      using sched_indices(2) [of ss] unfolding sched_def by blast
    show "\<forall>s \<in> set (schedSlots sched). length (ssDiscussions s) \<le> length (storeLocations ss)"
      using sched_slot(1) [OF assms(1)] unfolding sched_def by blast
  qed simp_all
  then show ?thesis using that unfolding placeDiscussions_def by blast
qed

lemma sched_storable:
  fixes ss :: searchStore
  assumes inv: "event_inv d" and snap: "snapshot_of d ss"
  defines "sched \<equiv> makeScheduleHeuristic sort_slice ss"
  shows "map ssSlotID (schedSlots sched) = open_slots d" and "storable ss (schedSlots sched) d"
proof -
  show ids: "map ssSlotID (schedSlots sched) = open_slots d"
    using heuristic_complete(1) [of ss] snap by (simp add: sched_def placed_well_def snapshot_of_def)
  have locs: "storeLocations ss = map LocationID (event_locations d)" using snap by (simp add: snapshot_of_def)
  have "sdDiscussionID (storeDiscussions ss ! i) \<in> discussion_ids d"
    if "s \<in> set (schedSlots sched)" "i \<in> set (ssDiscussions s)" for s i
  proof -
    have "sdDiscussionID (storeDiscussions ss ! i) \<in> set (map sdDiscussionID (storeDiscussions ss))"
      using sched_slot(2) [OF snap _ that(2)] that(1) by (simp add: sched_def)
    then show ?thesis using snapshot_ids(1) [OF snap] unlocked_join_in by auto
  qed
  moreover have "ssSlotID ` set (schedSlots sched) = set (open_slots d)" by (simp flip: ids)
  ultimately show "storable ss (schedSlots sched) d"
    using inv distinct_open_slots [OF inv]
    by (simp add: storable_def ids locs location_ids_def inv_split locations_ok_def)
qed

lemma new_rows:
  fixes ss :: searchStore
  assumes inv: "event_inv d" and tidy: "schedule_tidy d" and snap: "snapshot_of d ss"
  defines "rows \<equiv> concat (map (slot_rows ss) (schedSlots (makeScheduleHeuristic sort_slice ss)))"
  shows "distinct (map ScheduledDiscussion rows)"
    and "r \<in> set rows \<Longrightarrow> permitted d (ScheduledDiscussion r) (ScheduledSlot r)
      \<and> \<not> fixed_discussion d (ScheduledDiscussion r)"
proof -
  let ?slots = "schedSlots (makeScheduleHeuristic sort_slice ss)"
  let ?id = "\<lambda>i. sdDiscussionID (storeDiscussions ss ! i)"
  have one: "map ScheduledDiscussion (slot_rows ss s) = map ?id (ssDiscussions s)" if "s \<in> set ?slots" for s
    using sched_slot(1) [OF snap that] by (rule slot_rows_discussions)
  then have all: "map ScheduledDiscussion rows = map ?id (concat (map ssDiscussions ?slots))"
    by (simp add: rows_def map_concat comp_def cong: map_cong)
  have dist: "distinct (map sdDiscussionID (storeDiscussions ss))"
    using unlocked_join_tidy(1) [OF inv tidy] by (simp add: snapshot_ids(1) [OF snap])
  have "inj_on ?id (set (concat (map ssDiscussions ?slots)))"
    using distinct_map_inj_on_nth [OF dist] by (rule inj_on_subset) (use sched_indices(2) [of ss] in blast)
  then show "distinct (map ScheduledDiscussion rows)"
    unfolding all distinct_map using sched_indices(1) [of ss] by blast
  assume "r \<in> set rows"
  then obtain s where s: "s \<in> set ?slots" "r \<in> set (slot_rows ss s)" by (auto simp: rows_def)
  from slot_rows_in [OF s(2)] obtain i where i: "i \<in> set (ssDiscussions s)" "ScheduledDiscussion r = ?id i"
    "ScheduledSlot r = ssSlotID s" by blast
  have "?id i \<in> set (map sdDiscussionID (storeDiscussions ss))" using sched_slot(2) [OF snap s(1) i(1)] by simp
  then have "\<not> fixed_discussion d (?id i)"
    using unlocked_join_tidy(2) [OF inv tidy] by (simp only: snapshot_ids(1) [OF snap] set_map) blast
  with sched_slot(3) [OF snap s(1) i(1)] i show "permitted d (ScheduledDiscussion r) (ScheduledSlot r)
      \<and> \<not> fixed_discussion d (ScheduledDiscussion r)" by simp
qed

end

text \<open>What a run of the scheduler promises about the database before and after it.\<close>

definition schedule_result :: "database \<Rightarrow> database \<Rightarrow> bool" where
  "schedule_result d d' \<longleftrightarrow>
     d' = d\<lparr>event_schedule := event_schedule d'\<rparr> \<and>
     filter (\<lambda>r. ScheduledSlot r \<notin> set (open_slots d)) (event_schedule d') =
       filter (\<lambda>r. ScheduledSlot r \<notin> set (open_slots d)) (event_schedule d) \<and>
     (\<forall>r \<in> set (event_schedule d'). ScheduledSlot r \<in> set (open_slots d) \<longrightarrow>
        permitted d (ScheduledDiscussion r) (ScheduledSlot r)) \<and>
     (\<forall>did \<in> discussion_ids d. did \<in> ScheduledDiscussion ` set (event_schedule d') \<or>
        (\<forall>s. permitted d did s \<longrightarrow>
           length (filter (\<lambda>r. ScheduledSlot r = s) (event_schedule d')) = length (event_locations d)))"

lemma open_or_fixed:
  assumes inv: "event_inv d" and tidy: "schedule_tidy d" and r: "r \<in> set (event_schedule d)"
  shows "ScheduledSlot r \<in> set (open_slots d) \<or> locked_slot d (ScheduledSlot r)"
proof -
  have "ScheduledSlot r \<in> slot_ids d" using inv r by (simp add: inv_split schedule_ok_def)
  then obtain s where s: "s \<in> set (event_slots d)" "SlotID s = ScheduledSlot r" by (auto simp: slot_ids_def)
  then have "\<not> IsBreak s" using tidy r by (auto simp: schedule_tidy_def break_slot_def)
  with s show ?thesis unfolding open_slots_def locked_slot_def by (cases "IsLocked s") force+
qed

lemma open_not_break:
  assumes inv: "event_inv d" and s: "s \<in> set (open_slots d)"
  shows "\<not> break_slot d s" and "\<not> locked_slot d s"
proof -
  obtain t where t: "t \<in> set (event_slots d)" "SlotID t = s" "\<not> IsBreak t" "\<not> IsLocked t"
    using s by (auto simp: open_slots_def)
  have "x = t" if "x \<in> set (event_slots d)" "SlotID x = s" for x
    using that t inv distinct_map_eqD [of SlotID "event_slots d" x t] by (simp add: inv_split slots_ok_def)
  with t show "\<not> break_slot d s" and "\<not> locked_slot d s"
    unfolding break_slot_def locked_slot_def by blast+
qed

lemma filter_rows_of_slot:
  assumes "distinct (map ssSlotID slots)" and "s \<in> set slots"
  shows "filter (\<lambda>r. ScheduledSlot r = ssSlotID s) (concat (map (slot_rows ss) slots)) = slot_rows ss s"
  using assms
proof (induction slots)
  case (Cons x slots)
  have all: "filter (\<lambda>r. ScheduledSlot r = ssSlotID x) (slot_rows ss x) = slot_rows ss x"
    by (intro filter_True) (auto dest: slot_rows_in(1))
  show ?case
  proof (cases "s = x")
    case True
    have "filter (\<lambda>r. ScheduledSlot r = ssSlotID x) (concat (map (slot_rows ss) slots)) = []"
      using Cons.prems(1) by (auto simp: filter_empty_conv dest!: slot_rows_in(1))
    with True all show ?thesis by simp
  next
    case False
    with Cons.prems have s: "s \<in> set slots" "ssSlotID x \<noteq> ssSlotID s" by (auto simp: image_iff)
    then have "filter (\<lambda>r. ScheduledSlot r = ssSlotID s) (slot_rows ss x) = []"
      by (auto simp: filter_empty_conv dest!: slot_rows_in(1))
    with Cons s show ?thesis by simp
  qed
qed simp

context slice_sort
begin

lemma left_out_full:
  fixes ss :: searchStore
  assumes inv: "event_inv d" and tidy: "schedule_tidy d" and snap: "snapshot_of d ss"
    and did: "did \<in> discussion_ids d" "\<not> fixed_discussion d did" and perm: "permitted d did sid"
  defines "slots \<equiv> schedSlots (makeScheduleHeuristic sort_slice ss)"
  defines "rows \<equiv> concat (map (slot_rows ss) slots)"
  assumes out: "did \<notin> ScheduledDiscussion ` set rows"
  shows "length (filter (\<lambda>r. ScheduledSlot r = sid) rows) = length (event_locations d)"
proof -
  let ?id = "\<lambda>i. sdDiscussionID (storeDiscussions ss ! i)"
  have "did \<in> set (map sdDiscussionID (storeDiscussions ss))"
    using unlocked_join_tidy(2) [OF inv tidy] did by (simp add: snapshot_ids(1) [OF snap])
  then obtain i where i: "i < length (storeDiscussions ss)" "?id i = did" by (auto simp: in_set_conv_nth)
  have placed: "?id j \<in> ScheduledDiscussion ` set rows" if "s \<in> set slots" "j \<in> set (ssDiscussions s)" for s j
  proof -
    have "map ScheduledDiscussion (slot_rows ss s) = map ?id (ssDiscussions s)"
      using sched_slot(1) [OF snap] that(1) by (intro slot_rows_discussions) (simp add: slots_def)
    then have "ScheduledDiscussion ` set (slot_rows ss s) = ?id ` set (ssDiscussions s)"
      by (metis set_map)
    then have "?id j \<in> ScheduledDiscussion ` set (slot_rows ss s)" using that(2) by simp
    then show ?thesis using that(1) by (auto simp: rows_def)
  qed
  with out i(2) have "i \<notin> set (concat (map ssDiscussions slots))" by auto
  with i(1) have un: "i \<in> set (UnplacedDiscussions (makeScheduleHeuristic sort_slice ss))"
    using sched_indices(2) [of ss] by (auto simp: slots_def)
  have ids: "map ssSlotID slots = open_slots d" using sched_storable(1) [OF inv snap] by (simp add: slots_def)
  from perm have "sid \<in> set (map ssSlotID slots)" by (simp add: ids permitted_def)
  then obtain s where s: "s \<in> set slots" "ssSlotID s = sid" by auto
  have "sdPossibleSlots (storeDiscussions ss ! i) (ssSlotID s)"
    using perm i s(2) snapshot_ids(2) [OF snap i(1)] by simp
  then have full: "length (storeLocations ss) \<le> length (ssDiscussions s)"
    using heuristic_complete(2) [of ss] un s(1) by (auto simp: left_out_well_def slots_def)
  have "distinct (map ssSlotID slots)" using distinct_open_slots [OF inv] by (simp add: ids)
  from filter_rows_of_slot [OF this s(1)] have "filter (\<lambda>r. ScheduledSlot r = sid) rows = slot_rows ss s"
    by (simp add: rows_def s(2))
  with full snap show ?thesis by (simp add: slot_rows_def snapshot_of_def)
qed

lemma run_result:
  fixes ss :: searchStore
  assumes inv: "event_inv d" and tidy: "schedule_tidy d" and snap: "snapshot_of d ss"
  defines "slots \<equiv> schedSlots (makeScheduleHeuristic sort_slice ss)"
  shows "schedule_result d (sched_after ss slots d)" and "schedule_tidy (sched_after ss slots d)"
proof -
  let ?d' = "sched_after ss slots d"
  let ?keep = "filter (\<lambda>r. ScheduledSlot r \<notin> set (open_slots d)) (event_schedule d)"
  let ?rows = "concat (map (slot_rows ss) slots)"
  note rows = new_rows [OF inv tidy snap, folded slots_def]
  have ids: "ssSlotID ` set slots = set (open_slots d)"
    using sched_storable(1) [OF inv snap] by (simp add: slots_def flip: set_map)
  have sched': "event_schedule ?d' = ?keep @ ?rows" by (simp add: sched_after_def ids)
  have in_rows: "ScheduledSlot r \<in> set (open_slots d)" if "r \<in> set ?rows" for r
    using rows(2) [OF that] by (simp add: permitted_def)
  have kept_fixed: "fixed_discussion d (ScheduledDiscussion r)" if "r \<in> set ?keep" for r
    using that open_or_fixed [OF inv tidy] by (auto simp: fixed_discussion_def)
  show "schedule_result d ?d'"
    unfolding schedule_result_def
  proof (intro conjI ballI impI)
    show "?d' = d\<lparr>event_schedule := event_schedule ?d'\<rparr>" by (simp add: sched_after_def)
    show "filter (\<lambda>r. ScheduledSlot r \<notin> set (open_slots d)) (event_schedule ?d') = ?keep"
      using in_rows by (simp add: sched' filter_empty_conv)
  next
    fix r assume "r \<in> set (event_schedule ?d')" "ScheduledSlot r \<in> set (open_slots d)"
    then show "permitted d (ScheduledDiscussion r) (ScheduledSlot r)" using rows(2) by (auto simp: sched')
  next
    fix did assume "did \<in> discussion_ids d"
    show "did \<in> ScheduledDiscussion ` set (event_schedule ?d') \<or>
        (\<forall>s. permitted d did s \<longrightarrow>
           length (filter (\<lambda>r. ScheduledSlot r = s) (event_schedule ?d')) = length (event_locations d))"
    proof (cases "did \<in> ScheduledDiscussion ` set (event_schedule ?d')")
      case False
      have "\<not> fixed_discussion d did"
      proof
        assume "fixed_discussion d did"
        then obtain r where r: "r \<in> set (event_schedule d)" "ScheduledDiscussion r = did" "locked_slot d (ScheduledSlot r)"
          by (auto simp: fixed_discussion_def)
        then have "r \<in> set ?keep" using open_not_break(2) [OF inv] by auto
        with r(2) False show False by (auto simp: sched')
      qed
      moreover have "did \<notin> ScheduledDiscussion ` set ?rows" using False by (simp add: sched' image_Un)
      ultimately have "length (filter (\<lambda>r. ScheduledSlot r = s) ?rows) = length (event_locations d)"
        if "permitted d did s" for s
        using left_out_full [OF inv tidy snap \<open>did \<in> discussion_ids d\<close> _ that] by (simp add: slots_def)
      moreover have "filter (\<lambda>r. ScheduledSlot r = s) ?keep = []" if "permitted d did s" for s
        using that by (auto simp: permitted_def filter_empty_conv)
      ultimately show ?thesis by (simp add: sched')
    qed simp
  qed
  show "schedule_tidy ?d'"
    unfolding schedule_tidy_def
  proof
    have "distinct (map ScheduledDiscussion ?keep)"
      using tidy by (simp add: schedule_tidy_def distinct_map_filterI)
    moreover have "set (map ScheduledDiscussion ?keep) \<inter> set (map ScheduledDiscussion ?rows) = {}"
      using kept_fixed rows(2) by (fastforce simp del: set_concat)
    ultimately show "distinct (map ScheduledDiscussion (event_schedule ?d'))"
      using rows(1) by (simp only: sched' map_append distinct_append)
    show "\<forall>r \<in> set (event_schedule ?d'). \<not> break_slot ?d' (ScheduledSlot r)"
      using tidy in_rows open_not_break(1) [OF inv]
      by (auto simp: sched' schedule_tidy_def break_slot_def sched_after_def simp del: set_concat)
  qed
qed

end

section \<open>Properties\<close>

text \<open>
  C10: The incremental score is the right one. Whatever discussions a slot holds, the number
  \<open>scoreSlotDelta\<close> computes with its map is exactly the increase of the slot's value, the sum over
  all users of their interest in the discussion they like best, and it is never negative.
\<close>
theorem scoreSlotDelta_is_gain:
  "scoreSlotDelta ds hyp = slot_value (ds @ [hyp]) - slot_value ds \<and> 0 \<le> scoreSlotDelta ds hyp"
  using scoreSlotDelta_eq [of ds hyp] slot_value_mono [of ds hyp] by simp

text \<open>
  C11: The greedy choice. The loop over the slots returns -1 exactly if no slot is open for the
  discussion (permitted and not full); otherwise the first of the open slots with the greatest
  increase of value plus free locations.
\<close>
theorem best_slot_optimal:
  "(snd (best_slot ss disc slots) = -1 \<and> (\<forall>s \<in> set slots. \<not> slot_open_for ss disc s)) \<or>
   (\<exists>k < length slots. snd (best_slot ss disc slots) = int k \<and> slot_open_for ss disc (slots ! k) \<and>
      (\<forall>j < length slots. slot_open_for ss disc (slots ! j) \<longrightarrow>
         slot_score ss disc (slots ! j) \<le> slot_score ss disc (slots ! k)) \<and>
      (\<forall>j < k. slot_open_for ss disc (slots ! j) \<longrightarrow>
         slot_score ss disc (slots ! j) < slot_score ss disc (slots ! k)))"
  using best_slot_found [of ss disc slots] unfolding best_found_def all_set_conv_all_nth by auto

text \<open>
  C7: The search loses and duplicates nothing. For every snapshot and every sort that \<open>sort.Slice\<close>
  may perform, each discussion is in exactly one slot or in the list of unplaced ones; the slots
  are the snapshot's in order; no slot has more discussions than there are locations; every
  discussion is in a slot it may be in; and a discussion is unplaced only if every slot it may be
  in is full.
\<close>
theorem makeScheduleHeuristic_correct:
  assumes "slice_sort sort_slice"
  shows "mset (concat (map ssDiscussions (schedSlots (makeScheduleHeuristic sort_slice ss)))
       @ UnplacedDiscussions (makeScheduleHeuristic sort_slice ss)) = mset [0..<length (storeDiscussions ss)]
    \<and> map ssSlotID (schedSlots (makeScheduleHeuristic sort_slice ss)) = storeSlots ss
    \<and> (\<forall>s \<in> set (schedSlots (makeScheduleHeuristic sort_slice ss)).
         length (ssDiscussions s) \<le> length (storeLocations ss) \<and>
         (\<forall>k \<in> set (ssDiscussions s). sdPossibleSlots (storeDiscussions ss ! k) (ssSlotID s)))
    \<and> (\<forall>k \<in> set (UnplacedDiscussions (makeScheduleHeuristic sort_slice ss)).
         \<forall>s \<in> set (schedSlots (makeScheduleHeuristic sort_slice ss)).
           sdPossibleSlots (storeDiscussions ss ! k) (ssSlotID s) \<longrightarrow>
           length (ssDiscussions s) = length (storeLocations ss))"
  using slice_sort.heuristic_complete [OF assms, of ss]
  by (auto simp: placed_well_def left_out_well_def intro: le_antisym)

definition sample_store :: searchStore where
  "sample_store = \<lparr>storeSlots = [''s1'', ''s2''], storeUsers = [], storeDiscussions =
     [\<lparr>sdDiscussionID = ''d1'', sdOwner = ''u'', sdPossibleSlots = (\<lambda>_. True), sdUserInterest = [(''u'', 100), (''v'', 20)],
        sdMaxInterest = 120, sdSlotID = '''', sdLocationID = 0\<rparr>,
      \<lparr>sdDiscussionID = ''d2'', sdOwner = ''v'', sdPossibleSlots = (\<lambda>s. s = ''s1''), sdUserInterest = [(''v'', 100)],
        sdMaxInterest = 100, sdSlotID = '''', sdLocationID = 0\<rparr>],
     storeLocations = [1]\<rparr>"

text \<open>A slot that is full and an empty one: the empty one is chosen.\<close>

theorem best_slot_optimal_witness:
  "snd (best_slot sample_store (storeDiscussions sample_store ! 0)
     [\<lparr>ssSlotID = ''s1'', ssDiscussions = [1]\<rparr>, \<lparr>ssSlotID = ''s2'', ssDiscussions = []\<rparr>]) = 1"
  using best_slot_optimal [of sample_store "storeDiscussions sample_store ! 0"
      "[\<lparr>ssSlotID = ''s1'', ssDiscussions = [1]\<rparr>, \<lparr>ssSlotID = ''s2'', ssDiscussions = []\<rparr>]"]
  by (auto simp: slot_open_for_def sample_store_def less_Suc_eq numeral_2_eq_2)

theorem makeScheduleHeuristic_correct_witness:
  "slice_sort stable_slice \<and>
   UnplacedDiscussions (makeScheduleHeuristic stable_slice sample_store) = [1] \<and>
   mset (concat (map ssDiscussions (schedSlots (makeScheduleHeuristic stable_slice sample_store)))) = {#0#}"
proof -
  have un: "UnplacedDiscussions (makeScheduleHeuristic stable_slice sample_store) = [1]" by code_simp
  have "mset [0..<length (storeDiscussions sample_store)] = {#0, 1#}" by (simp add: sample_store_def upt_conv_Cons)
  then have "mset (concat (map ssDiscussions (schedSlots (makeScheduleHeuristic stable_slice sample_store)))) + {#1#} = {#0, 1#}"
    using makeScheduleHeuristic_correct [OF stable.slice_sort_axioms, of sample_store] un by simp
  then show ?thesis using un stable.slice_sort_axioms by (simp add: add_mset_commute)
qed


lemma sample_tidy: "schedule_tidy sample_db"
  by (simp add: schedule_tidy_def break_slot_def sample_db_def)


end
