(* ===== verification/Effects.thy ===== *)
theory Effects
  imports Reading User_Removal Scheduler
begin

text \<open>
  What the operations do to the stored event, as relations between the committed databases before
  and after, under every sequence of engine faults. The request handlers are built from these
  operations; the relations are what their proofs use. The central notion is \<open>confined\<close>: a change
  that is invisible in the database without one user, who keeps the account and its role.
\<close>

section \<open>Effects\<close>

definition effects :: "(database \<Rightarrow> database \<Rightarrow> bool) \<Rightarrow> 'a tx \<Rightarrow> bool" where
  "effects R m \<longleftrightarrow> (\<forall>w r w'. m w = (r, w') \<longrightarrow> event_inv (committed w) \<longrightarrow>
     event_inv (committed w') \<and> (committed w' = committed w \<or> R (committed w) (committed w')))"

lemma effectsI:
  assumes "\<And>w r w'. m w = (r, w') \<Longrightarrow> event_inv (committed w) \<Longrightarrow>
    event_inv (committed w') \<and> (committed w' = committed w \<or> R (committed w) (committed w'))"
  shows "effects R m"
  using assms by (auto simp: effects_def)

lemma effectsD:
  assumes "effects R m" and "m w = (r, w')" and "event_inv (committed w)"
  shows "event_inv (committed w')" and "committed w' = committed w \<or> R (committed w) (committed w')"
  using assms by (auto simp: effects_def)

lemma effects_fail: "effects R (tx_fail e)"
  by (simp add: effects_def tx_fail_def)

lemma effects_reads: "only_reads m \<Longrightarrow> effects R m"
  by (fastforce simp: effects_def only_reads_def same_view_def)

text \<open>Every contract of a transaction or a statement gives an effect.\<close>

context tx_contract
begin

lemma effects_txLoop:
  assumes "\<And>d. event_inv d \<Longrightarrow> pre d" and "\<And>d v d'. event_inv d \<Longrightarrow> post d v d' \<Longrightarrow> event_inv d' \<and> R d d'"
  shows "effects R (txLoop body)"
proof (rule effectsI)
  fix w r w' assume run: "txLoop body w = (r, w')" and inv: "event_inv (committed w)"
  from outcome [OF assms(1) [OF inv] run] assms(2) [OF inv] inv
  show "event_inv (committed w') \<and> (committed w' = committed w \<or> R (committed w) (committed w'))"
    by (cases r) (auto simp: tx_outcome_def)
qed

end

context stmt_contract
begin

lemma effects_db_loop:
  assumes "\<And>d. event_inv d \<Longrightarrow> pre d" and "\<And>d v d'. event_inv d \<Longrightarrow> post d v d' \<Longrightarrow> event_inv d' \<and> R d d'"
  shows "effects R (db_loop s)"
proof (rule effectsI)
  fix w r w' assume run: "db_loop s w = (r, w')" and inv: "event_inv (committed w)"
  from stmt_outcome [OF assms(1) [OF inv] run] assms(2) [OF inv] inv
  show "event_inv (committed w') \<and> (committed w' = committed w \<or> R (committed w) (committed w'))"
    by (cases r) (auto simp: tx_outcome_def)
qed

end

section \<open>Accounts\<close>

text \<open>The accounts with the admin role.\<close>

definition admin_ids :: "database \<Rightarrow> string set" where
  "admin_ids d = UserID ` {u \<in> set (event_users d). IsAdmin u}"

text \<open>A new account, for an identifier nobody had.\<close>

definition registers :: "bool \<Rightarrow> database \<Rightarrow> database \<Rightarrow> bool" where
  "registers admin d d' \<longleftrightarrow> (\<exists>u. d' = with_user u d \<and> UserID u \<notin> user_ids d \<and> IsAdmin u = admin)"

lemma effects_NewUser: "effects (registers (IsAdmin user)) (NewUser bc tz password user)"
proof (rule effectsI)
  fix w r w' assume run: "NewUser bc tz password user w = (r, w')" and inv: "event_inv (committed w)"
  define user1 where "user1 = (if UserLocation user = [] then user\<lparr>UserLocation := defaultLocation tz\<rparr> else user)"
  have u1: "Username user1 = Username user" "IsAdmin user1 = IsAdmin user" by (simp_all add: user1_def)
  show "event_inv (committed w') \<and> (committed w' = committed w \<or> registers (IsAdmin user) (committed w) (committed w'))"
  proof (cases "AllWhitespace (Username user) \<or> IsEmailAddress (Username user) \<or> Username user = []
      \<or> (\<exists>e. newUserPassword bc (HashedPassword user1) password = Inl e)")
    case True
    with run inv show ?thesis by (auto simp: NewUser_def tx_fail_def Let_def user1_def [symmetric] split: if_splits)
  next
    case False
    then obtain h where h: "newUserPassword bc (HashedPassword user1) password = Inr h"
      by (cases "newUserPassword bc (HashedPassword user1) password") auto
    obtain uid w1 where g: "tx_generate ''usr'' userIDLength w = (Inr uid, w1)" "committed w1 = committed w"
      by (simp add: tx_generate_def)
    obtain r2 where i: "db_loop (sql_insert_user (user1\<lparr>HashedPassword := h, UserID := uid\<rparr>)) w1 = (r2, w')"
      using run False g h by (auto simp: NewUser_def user1_def [symmetric] Let_def tx_bind_def split: prod.splits sum.splits)
    from insert_user.stmt_outcome [OF _ i] inv False u1 g(2) show ?thesis
      by (cases r2) (auto simp: tx_outcome_def registers_def)
  qed
qed

lemma effects_SetVerified:
  "effects (\<lambda>d d'. d' = update_user (UserID user) (\<lambda>u. u\<lparr>IsVerified := b\<rparr>) d) (SetVerified user b)"
proof (rule effectsI)
  fix w r w' assume run: "SetVerified user b w = (r, w')" and inv: "event_inv (committed w)"
  let ?d = "update_user (UserID user) (\<lambda>u. u\<lparr>IsVerified := b\<rparr>) (committed w)"
  have "event_inv ?d" by (rule inv_update_user [OF inv]) simp_all
  then have "tx_outcome (\<lambda>_ d'. event_inv d' \<and> d' = ?d) (\<lambda>_. True) w r w'"
    using run unfolding SetVerified_def by (intro db_loop_rule(1)) (simp_all add: sql_write_def)
  with inv show "event_inv (committed w') \<and> (committed w' = committed w \<or> committed w' = ?d)"
    by (cases r) (auto simp: tx_outcome_def)
qed

lemma effects_UserUpdate:
  "effects (\<lambda>d d'. \<exists>h. d' = update_user (UserID userNext) (userUpdateRow userNext h) d) (UserUpdate bc userNext modifier cur new)"
proof (rule effectsI)
  fix w r w' assume run: "UserUpdate bc userNext modifier cur new w = (r, w')" and inv: "event_inv (committed w)"
  show "event_inv (committed w') \<and> (committed w' = committed w \<or>
      (\<exists>h. committed w' = update_user (UserID userNext) (userUpdateRow userNext h) (committed w)))"
  proof (cases "\<exists>h. userUpdatePassword bc modifier cur new = Inr (Some h)")
    case True
    then obtain h where h: "userUpdatePassword bc modifier cur new = Inr (Some h)" by blast
    then obtain r1 where "db_loop (sql_update_user_count (UserID userNext) (userUpdateRow userNext h)) w = (r1, w')"
      using run by (auto simp: UserUpdate_def split: prod.splits sum.splits if_splits)
    from update_users.stmt_outcome [OF inv this] inv show ?thesis by (cases r1) (auto simp: tx_outcome_def)
  next
    case False
    with run inv show ?thesis by (auto simp: UserUpdate_def split: sum.splits option.splits)
  qed
qed

lemma effects_setPassword:
  "effects (\<lambda>d d'. \<exists>h. d' = update_user (UserID user) (\<lambda>u. u\<lparr>HashedPassword := h\<rparr>) d) (setPassword bc user pw)"
proof (rule effectsI)
  fix w r w' assume run: "setPassword bc user pw w = (r, w')" and inv: "event_inv (committed w)"
  let ?d = "\<lambda>h. update_user (UserID user) (\<lambda>u. u\<lparr>HashedPassword := h\<rparr>) (committed w)"
  show "event_inv (committed w') \<and> (committed w' = committed w \<or> (\<exists>h. committed w' = ?d h))"
  proof (cases "passwordHash bc pw")
    case (Inl e)
    with run inv show ?thesis by (simp add: setPassword_def)
  next
    case (Inr h)
    then obtain r1 where d: "db_loop (sql_write (update_user (UserID user) (\<lambda>u. u\<lparr>HashedPassword := h\<rparr>))) w = (r1, w')"
      using run by (auto simp: setPassword_def split: prod.splits sum.splits)
    have "event_inv (?d h)" by (rule inv_update_user [OF inv]) simp_all
    then have "tx_outcome (\<lambda>_ d'. event_inv d' \<and> d' = ?d h) (\<lambda>_. True) w r1 w'"
      using d by (intro db_loop_rule(1)) (simp_all add: sql_write_def)
    with inv show ?thesis by (cases r1) (auto simp: tx_outcome_def)
  qed
qed

lemma effects_DeleteUser: "effects (\<lambda>d d'. d' = drop_user uid d) (DeleteUser uid)"
  unfolding DeleteUser_def by (rule delete_user.effects_txLoop) auto

section \<open>Discussions\<close>

text \<open>Other people's interest, and nothing but interest changes.\<close>

definition interest_by :: "string \<Rightarrow> database \<Rightarrow> database \<Rightarrow> bool" where
  "interest_by uid d d' \<longleftrightarrow> interest_only d d' \<and>
     filter (\<lambda>r. InterestUser r \<noteq> uid) (event_interest d') = filter (\<lambda>r. InterestUser r \<noteq> uid) (event_interest d)"

lemma filter_map_other:
  assumes "\<And>x. x \<in> set xs \<Longrightarrow> P x \<Longrightarrow> f x = x" and "\<And>x. x \<in> set xs \<Longrightarrow> P (f x) = P x"
  shows "filter P (map f xs) = filter P xs"
  using assms by (induction xs) auto

lemma interest_by_setInterestTx: "setInterestTx uid did i d = Inr (v, d') \<Longrightarrow> interest_by uid d d'"
  by (auto simp: setInterestTx_def interest_by_def interest_only_def interest_key_def split: if_splits
      intro!: filter_map_other)

lemma effects_SetInterest: "effects (interest_by (UserID user)) (SetInterest user disc i)"
proof (rule effectsI)
  fix w r w' assume run: "SetInterest user disc i w = (r, w')" and inv: "event_inv (committed w)"
  let ?good = "\<lambda>d'. event_inv d' \<and> interest_by (UserID user) (committed w) d'"
  have good: "event_inv (committed w') \<and> (committed w' = committed w \<or> interest_by (UserID user) (committed w) (committed w'))"
    if "tx_outcome (\<lambda>_. ?good) (\<lambda>_. True) w r1 w'" for r1
    using that inv by (cases r1) (auto simp: tx_outcome_def)
  consider "i > InterestMax \<or> i < 0" | "i = 0" | "1 \<le> i" "i \<le> 100"
    unfolding InterestMax_def by linarith
  then show "event_inv (committed w') \<and> (committed w' = committed w \<or> interest_by (UserID user) (committed w) (committed w'))"
  proof cases
    case 1
    with run inv show ?thesis by (auto simp: SetInterest_def)
  next
    case 2
    let ?s = "sql_delete_interest (\<lambda>r. InterestDiscussion r = DiscussionID disc \<and> InterestUser r = UserID user)"
    have "case ?s (committed w) of Inl x \<Rightarrow> True | Inr (v, d') \<Rightarrow> ?good d'"
      using inv_delete_interest [OF inv]
      by (auto simp: sql_delete_interest_def sql_write_def interest_by_def interest_only_def intro: filter_cong)
    moreover have "db_loop ?s w = (r, w')" using run 2 by (simp add: SetInterest_def InterestMax_def)
    ultimately have "tx_outcome (\<lambda>_. ?good) (\<lambda>_. True) w r w'" by (rule db_loop_rule(1))
    then show ?thesis by (rule good)
  next
    case 3
    let ?s = "setInterestTx (UserID user) (DiscussionID disc) i"
    have "case ?s (committed w) of Inl x \<Rightarrow> True | Inr (v, d') \<Rightarrow> ?good d'"
      using inv_setInterestTx [OF inv _ 3] interest_by_setInterestTx by (auto split: sum.splits)
    moreover obtain r1 where "db_loop ?s w = (r1, w')"
      using run 3 by (auto simp: SetInterest_def InterestMax_def split: prod.splits sum.splits)
    ultimately have "tx_outcome (\<lambda>_. ?good) (\<lambda>_. True) w r1 w'" by (rule db_loop_rule(1))
    then show ?thesis by (rule good)
  qed
qed

lemma effects_NewDiscussion: "effects (\<lambda>d d'. \<exists>x. new_discussion_post disc d x d') (NewDiscussion disc)"
proof (cases "checkDiscussionParams disc")
  case None
  then show ?thesis
    unfolding NewDiscussion_def by (simp, intro new_discussion.effects_txLoop) (auto simp: new_discussion_post_def)
qed (simp add: NewDiscussion_def effects_fail)

lemma effects_DiscussionUpdate: "effects (\<lambda>d d'. \<exists>v. discussion_update_post disc d v d') (DiscussionUpdate disc)"
proof (cases "checkDiscussionParams disc")
  case None
  then show ?thesis
    unfolding DiscussionUpdate_def by (simp, intro discussion_update.effects_txLoop) (auto simp: discussion_update_post_def)
qed (simp add: DiscussionUpdate_def effects_fail)

lemma effects_DeleteDiscussion: "effects (\<lambda>d d'. d' = drop_discussions (\<lambda>x. x = did) d) (DeleteDiscussion did)"
  unfolding DeleteDiscussion_def by (rule delete_discussion.effects_txLoop) auto

section \<open>What only admins do\<close>

text \<open>The operations of the admin pages, but the deletion of an account, leave the accounts as they are.\<close>

definition same_users :: "database \<Rightarrow> database \<Rightarrow> bool" where
  "same_users d d' \<longleftrightarrow> event_users d' = event_users d"

lemma effects_SetPublic: "effects same_users (DiscussionSetPublic did public)"
proof (rule effectsI)
  fix w r w' assume run: "DiscussionSetPublic did public w = (r, w')" and inv: "event_inv (committed w)"
  then obtain r1 where "db_loop (sql_set_public did public) w = (r1, w')"
    by (auto simp: DiscussionSetPublic_def split: prod.splits sum.splits if_splits)
  from set_public.stmt_outcome [OF inv this] inv
  show "event_inv (committed w') \<and> (committed w' = committed w \<or> same_users (committed w) (committed w'))"
    by (cases r1) (auto simp: tx_outcome_def same_users_def update_discussion_def)
qed

text \<open>Inserting no rows changes nothing, whether it is an error or not.\<close>

definition empty_batch_ok :: "unit stmt \<Rightarrow> bool" where
  "empty_batch_ok eb \<longleftrightarrow> (\<forall>d. case eb d of Inl _ \<Rightarrow> True | Inr (_, d') \<Rightarrow> d' = d)"

lemma effects_SetPossibleSlots:
  assumes "empty_batch_ok eb"
  shows "effects same_users (DiscussionSetPossibleSlots eb did ps)"
proof (cases ps)
  case Nil
  have "tx_contract (DiscussionSetPossibleSlots_body eb did []) event_inv
      (\<lambda>d _ d'. event_inv d' \<and> event_users d' = event_users d) (\<lambda>_ _. True)"
  proof
    fix d assume inv: "event_inv d"
    let ?d = "d\<lparr>event_discussions_possible_slots := filter (\<lambda>r. PossibleDiscussion r \<noteq> did) (event_discussions_possible_slots d)\<rparr>"
    have "event_inv ?d" by (rule inv_delete_possible [OF inv])
    moreover have "case eb ?d of Inl _ \<Rightarrow> True | Inr (_, d') \<Rightarrow> d' = ?d"
      using assms by (simp add: empty_batch_ok_def)
    ultimately show "wp (DiscussionSetPossibleSlots_body eb did []) (\<lambda>_ d'. event_inv d' \<and> event_users d' = event_users d) (\<lambda>_. True) d"
      unfolding DiscussionSetPossibleSlots_body_def Let_def
      by (auto intro!: tx_wp simp: sql_select_def sql_delete_possible_def sql_write_def
          sql_insert_possible_def split: sum.splits)
  qed
  from tx_contract.effects_txLoop [OF this] Nil show ?thesis
    by (simp add: DiscussionSetPossibleSlots_def same_users_def)
next
  case (Cons p ps')
  then show ?thesis
    unfolding DiscussionSetPossibleSlots_def
    by (intro set_possible.effects_txLoop) (auto simp: set_possible_def same_users_def)
qed

lemma effects_NewLocation: "effects same_users (NewLocation l)"
proof (cases "checkLocationParams l")
  case None
  then show ?thesis unfolding NewLocation_def by (simp, intro new_location.effects_txLoop) (auto simp: same_users_def)
qed (simp add: NewLocation_def effects_fail)

lemma effects_LocationUpdate: "effects same_users (LocationUpdate l)"
proof (cases "checkLocationParams l")
  case None
  have same: "same_users d d'" if "d' = d\<lparr>event_locations := event_locations d'\<rparr>" for d d' :: database
    unfolding same_users_def by (subst that) simp
  show ?thesis
    unfolding LocationUpdate_def None option.case
    by (rule update_location.effects_txLoop) (use None same in blast)+
qed (simp add: LocationUpdate_def effects_fail)

lemma effects_SetLocked: "effects same_users (TimetableSetLockedSlots ps)"
  unfolding TimetableSetLockedSlots_def
  by (rule set_locked.effects_txLoop) (auto simp: same_users_def lock_slots_def)

context slice_sort
begin

lemma effects_MakeSchedule: "effects same_users (MakeSchedule sort_slice tz)"
proof (rule effectsI)
  fix w r w' assume run: "MakeSchedule sort_slice tz w = (r, w')" and inv: "event_inv (committed w)"
  obtain r1 w1 where s: "makeSnapshot tz w = (r1, w1)" by fastforce
  note out1 = snapshot.outcome [OF TrueI s [unfolded makeSnapshot_def]]
  show "event_inv (committed w') \<and> (committed w' = committed w \<or> same_users (committed w) (committed w'))"
  proof (cases r1)
    case (Inl e)
    with run s out1 inv show ?thesis by (auto simp: MakeSchedule_def tx_bind_def tx_outcome_def)
  next
    case (Inr ss)
    let ?d = "committed w" and ?sched = "makeScheduleHeuristic sort_slice ss"
    from out1 Inr have snap: "committed w1 = ?d" "snapshot_of ?d ss" by (auto simp: tx_outcome_def)
    obtain ds where ds: "placeDiscussions ss ?sched = Inr ds"
      "\<forall>s \<in> set (schedSlots ?sched). map (\<lambda>i. sched_row (ds ! i)) (ssDiscussions s) = slot_rows ss s"
      by (rule place_succeeds [OF snap(2)])
    have set: "txLoop (tx_each (scheduleSet_slot ds) (schedSlots ?sched)) w1 = (r, w')"
      using run s Inr ds(1) by (simp add: MakeSchedule_def tx_bind_def Let_def scheduleSet_def)
    have store: "storable ss (schedSlots ?sched) ?d" by (rule sched_storable(2) [OF inv snap(2)])
    have "wp (tx_each (scheduleSet_slot ds) (schedSlots ?sched))
        (\<lambda>_ d'. d' = sched_after ss (schedSlots ?sched) ?d) (\<lambda>_. False) (committed w1)"
      using wp_scheduleSet [OF inv store ds(2)] snap(1) by simp
    from txLoop_rule(1) [OF this set] snap(1) inv_sched_after [OF inv store] inv show ?thesis
      by (cases r) (auto simp: tx_outcome_def same_users_def sched_after_def)
  qed
qed

end

section \<open>Confinement\<close>

text \<open>
  Between \<open>d\<close> and \<open>d'\<close> nothing has changed but what belongs to the account \<open>uid\<close>: the account's own row,
  its interest, its discussions and what refers to them. No account has come or gone, and none has
  gained or lost the admin role. \<open>drop_user uid\<close> is what \<open>DeleteUser\<close> leaves.
\<close>

definition confined :: "string \<Rightarrow> database \<Rightarrow> database \<Rightarrow> bool" where
  "confined uid d d' \<longleftrightarrow> drop_user uid d' = drop_user uid d \<and> user_ids d' = user_ids d \<and> admin_ids d' = admin_ids d"

lemma confined_refl [simp]: "confined uid d d"
  by (simp add: confined_def)

lemma confined_trans: "confined uid d d1 \<Longrightarrow> confined uid d1 d2 \<Longrightarrow> confined uid d d2"
  by (simp add: confined_def)

lemma confined_update_user:
  assumes "\<And>u. UserID (g u) = UserID u" and "\<And>u. IsAdmin (g u) = IsAdmin u"
  shows "confined uid d (update_user uid g d)"
proof -
  let ?d = "update_user uid g d" and ?f = "\<lambda>u. if UserID u = uid then g u else u"
  have d: "?d = d\<lparr>event_users := map ?f (event_users d)\<rparr>" by (simp add: update_user_def)
  have "owned_by uid ?d = owned_by uid d" by (simp add: d owned_by_def fun_eq_iff)
  moreover have "filter (\<lambda>u. UserID u \<noteq> uid) (map ?f (event_users d)) = filter (\<lambda>u. UserID u \<noteq> uid) (event_users d)"
    by (rule filter_map_other) (auto simp: assms)
  ultimately have "drop_user uid ?d = drop_user uid d" by (simp add: drop_user_def d)
  moreover have "admin_ids ?d = admin_ids d"
  proof -
    have "IsAdmin (?f u) = IsAdmin u" for u by (simp add: assms)
    then have "{u \<in> set (map ?f xs). IsAdmin u} = ?f ` {u \<in> set xs. IsAdmin u}" for xs
      unfolding set_map by blast
    then have "{u \<in> set (event_users ?d). IsAdmin u} = ?f ` {u \<in> set (event_users d). IsAdmin u}"
      by (simp add: d)
    moreover have "UserID (?f u) = UserID u" for u by (simp add: assms)
    ultimately show ?thesis unfolding admin_ids_def by (simp only: image_image)
  qed
  ultimately show ?thesis using user_ids_update_user [of g uid d] assms by (simp add: confined_def)
qed

lemma interest_onlyD:
  assumes "interest_only d d'"
  shows "event_users d' = event_users d" and "event_discussions d' = event_discussions d"
    and "event_locations d' = event_locations d" and "event_days d' = event_days d" and "event_slots d' = event_slots d"
    and "event_discussions_possible_slots d' = event_discussions_possible_slots d" and "event_schedule d' = event_schedule d"
  using assms unfolding interest_only_def by (metis database.select_convs database.surjective database.update_convs)+

lemma confined_interest_by:
  assumes "interest_by uid d d'"
  shows "confined uid d d'"
proof -
  from assms have o: "interest_only d d'"
    and f: "filter (\<lambda>r. InterestUser r \<noteq> uid) (event_interest d') = filter (\<lambda>r. InterestUser r \<noteq> uid) (event_interest d)"
    by (simp_all add: interest_by_def)
  note eq = interest_onlyD [OF o]
  have own: "owned_by uid d' = owned_by uid d" by (simp add: owned_by_def eq fun_eq_iff)
  have "filter (\<lambda>r. InterestUser r \<noteq> uid \<and> Q r) (event_interest d')
      = filter (\<lambda>r. InterestUser r \<noteq> uid \<and> Q r) (event_interest d)" for Q
    using arg_cong [OF f, of "filter Q"] by (simp only: filter_filter)
  then have "drop_user uid d' = drop_user uid d"
    by (intro database.equality) (simp_all add: drop_user_def eq own)
  then show ?thesis by (simp add: confined_def admin_ids_def user_ids_def eq)
qed

text \<open>Own discussions: a new one, an edit that keeps the owner, a deletion.\<close>

lemma no_reference:
  assumes "event_inv d" and "did \<notin> discussion_ids d"
  shows "r \<in> set (event_interest d) \<Longrightarrow> InterestDiscussion r \<noteq> did"
    and "p \<in> set (event_discussions_possible_slots d) \<Longrightarrow> PossibleDiscussion p \<noteq> did"
    and "s \<in> set (event_schedule d) \<Longrightarrow> ScheduledDiscussion s \<noteq> did"
  using assms by (auto simp: inv_split interest_ok_def possible_ok_def schedule_ok_def)

lemma confined_new_discussion:
  assumes inv: "event_inv d" and new: "new_discussion_post disc d x d'"
  shows "confined (Owner disc) d d'"
proof -
  have d': "d' = with_discussion x d" and fresh: "DiscussionID x \<notin> discussion_ids d" and own: "Owner x = Owner disc"
    using new by (auto simp: new_discussion_post_def newDiscussionRow_def) (metis Discussion.select_convs(2) Discussion.surjective Discussion.update_convs(1,5,6,7))
  have owned: "owned_by (Owner disc) d' did \<longleftrightarrow> owned_by (Owner disc) d did" if "did \<noteq> DiscussionID x" for did
    using that by (simp add: d' with_discussion_def owned_by_def)
  note ref = no_reference [OF inv fresh]
  have "filter (\<lambda>r. InterestUser r \<noteq> Owner disc \<and> \<not> owned_by (Owner disc) d' (InterestDiscussion r)) (event_interest d)
      = filter (\<lambda>r. InterestUser r \<noteq> Owner disc \<and> \<not> owned_by (Owner disc) d (InterestDiscussion r)) (event_interest d)"
    using owned ref(1) by (intro filter_cong) auto
  moreover have "filter (\<lambda>r. \<not> owned_by (Owner disc) d' (PossibleDiscussion r)) (event_discussions_possible_slots d)
      = filter (\<lambda>r. \<not> owned_by (Owner disc) d (PossibleDiscussion r)) (event_discussions_possible_slots d)"
    using owned ref(2) by (intro filter_cong) auto
  moreover have "filter (\<lambda>r. \<not> owned_by (Owner disc) d' (ScheduledDiscussion r)) (event_schedule d)
      = filter (\<lambda>r. \<not> owned_by (Owner disc) d (ScheduledDiscussion r)) (event_schedule d)"
    using owned ref(3) by (intro filter_cong) auto
  ultimately have "drop_user (Owner disc) d' = drop_user (Owner disc) d"
    using own by (intro database.equality) (simp_all add: drop_user_def d' with_discussion_def)
  then show ?thesis by (simp add: confined_def admin_ids_def user_ids_def d' with_discussion_def)
qed

lemma confined_update_discussion:
  assumes inv: "event_inv d" and own: "\<And>x. discussion_of d did = Some x \<Longrightarrow> Owner x = uid \<and> Owner (g x) = uid"
    and key: "\<And>x. DiscussionID (g x) = DiscussionID x"
  shows "confined uid d (update_discussion did g d)"
proof -
  let ?d = "update_discussion did g d" and ?f = "\<lambda>x. if DiscussionID x = did then g x else x"
  have d: "?d = d\<lparr>event_discussions := map ?f (event_discussions d)\<rparr>" by (simp add: update_discussion_def)
  have row: "Owner x = uid \<and> Owner (g x) = uid" if "x \<in> set (event_discussions d)" "DiscussionID x = did" for x
    using own find_key_eq_Some [of DiscussionID "event_discussions d" x] inv that
    by (auto simp: discussion_of_def inv_split discussions_ok_def)
  have f: "Owner (?f x) = Owner x" if "x \<in> set (event_discussions d)" for x using row that by auto
  have "owned_by uid ?d = owned_by uid d"
  proof
    fix did'
    have "Owner (?f x) = uid \<and> DiscussionID (?f x) = did' \<longleftrightarrow> Owner x = uid \<and> DiscussionID x = did'"
      if "x \<in> set (event_discussions d)" for x
      using f [OF that] key by simp
    then show "owned_by uid ?d did' = owned_by uid d did'"
      unfolding owned_by_def d list_ex_iff by (simp del: if_image_distrib)
  qed
  moreover have "filter (\<lambda>x. Owner x \<noteq> uid) (map ?f (event_discussions d)) = filter (\<lambda>x. Owner x \<noteq> uid) (event_discussions d)"
    using row by (intro filter_map_other) auto
  ultimately have "drop_user uid ?d = drop_user uid d" by (simp add: drop_user_def d)
  then show ?thesis by (simp add: confined_def admin_ids_def user_ids_def d)
qed

lemma confined_discussion_update:
  assumes inv: "event_inv d" and post: "discussion_update_post disc d v d'"
    and own: "discussion_of d (DiscussionID disc) = Some x" "Owner x = Owner disc"
  shows "confined (Owner disc) d d'"
proof -
  obtain b where "d' = update_discussion (DiscussionID disc) (discussionUpdateRow disc b) d"
    using post own by (auto simp: discussion_update_post_def)
  moreover have "confined (Owner disc) d (update_discussion (DiscussionID disc) (discussionUpdateRow disc b) d)" for b
    by (rule confined_update_discussion [OF inv]) (use own in \<open>auto simp: discussionUpdateRow_def Let_def\<close>)
  ultimately show ?thesis by simp
qed

lemma confined_drop_discussion:
  assumes inv: "event_inv d" and own: "discussion_of d did = Some x" "Owner x = uid"
  shows "confined uid d (drop_discussions (\<lambda>y. y = did) d)"
proof -
  let ?d = "drop_discussions (\<lambda>y. y = did) d"
  note xs = discussion_of_Some [OF own(1)]
  have did: "owned_by uid d did" using xs own(2) by (auto simp: owned_by_def list_ex_iff)
  have owned: "owned_by uid ?d i \<longleftrightarrow> owned_by uid d i" if "i \<noteq> did" for i
    using that by (auto simp: owned_by_def drop_discussions_def list_ex_iff)
  have f: "filter (\<lambda>r. P r \<and> \<not> owned_by uid ?d (k r)) (filter (\<lambda>r. k r \<noteq> did) xs)
      = filter (\<lambda>r. P r \<and> \<not> owned_by uid d (k r)) xs" for P k and xs :: "'z list"
  proof -
    have "filter (\<lambda>r. P r \<and> \<not> owned_by uid ?d (k r)) (filter (\<lambda>r. k r \<noteq> did) xs)
        = filter (\<lambda>r. k r \<noteq> did \<and> P r \<and> \<not> owned_by uid ?d (k r)) xs"
      by (simp only: filter_filter)
    also have "\<dots> = filter (\<lambda>r. P r \<and> \<not> owned_by uid d (k r)) xs"
      using owned did by (intro filter_cong refl) metis
    finally show ?thesis .
  qed
  have "filter (\<lambda>x. Owner x \<noteq> uid) (filter (\<lambda>x. DiscussionID x \<noteq> did) (event_discussions d))
      = filter (\<lambda>x. Owner x \<noteq> uid) (event_discussions d)"
    unfolding filter_filter
  proof (intro filter_cong refl)
    fix y assume y: "y \<in> set (event_discussions d)"
    have "Owner y = uid" if "DiscussionID y = did" using owned_by_row [OF inv y, of uid] did that by simp
    then show "(DiscussionID y \<noteq> did \<and> Owner y \<noteq> uid) = (Owner y \<noteq> uid)" by blast
  qed
  with f [of "\<lambda>r. InterestUser r \<noteq> uid" InterestDiscussion] f [of "\<lambda>_. True" PossibleDiscussion]
    f [of "\<lambda>_. True" ScheduledDiscussion]
  have "drop_user uid ?d = drop_user uid d"
    by (intro database.equality) (simp_all add: drop_user_def drop_discussions_def)
  then show ?thesis by (simp add: confined_def admin_ids_def user_ids_def drop_discussions_def)
qed

end
