(* ===== verification/Key_Value.thy ===== *)
theory Key_Value
  imports Event_Errors "HOL-Library.AList"
begin

text \<open>
  The configuration store, \<^verbatim>\<open>keyvalue/keyvalue.go\<close>: a table of keys and values in an SQLite file of
  its own. Unlike the event database it is used without retries: an engine fault is returned to
  the caller, except that \<open>Exchange\<close> does not look at the result of its commit.

  The file holds the table, once \<open>newKVStore\<close> has created it, and the faults the engine is going
  to have, one for each call: \<open>None\<close> is a call that works, an empty list means no more faults.
\<close>

section \<open>The file\<close>

record kv_file =
  kv_table :: "(string \<times> string) list option"
  kv_faults :: "sqlite_error option list"
  kv_closed :: bool

type_synonym 'a kv = "kv_file \<Rightarrow> (error + 'a) \<times> kv_file"

definition kv_fault :: "kv_file \<Rightarrow> sqlite_error option \<times> kv_file" where
  "kv_fault f = (case kv_faults f of [] \<Rightarrow> (None, f) | x # xs \<Rightarrow> (x, f\<lparr>kv_faults := xs\<rparr>))"

definition kv_pending :: "kv_file \<Rightarrow> nat" where
  "kv_pending f = length (filter (\<lambda>x. x \<noteq> None) (kv_faults f))"

text \<open>The error of a statement on a table that does not exist.\<close>

definition no_such_table :: error where
  "no_such_table = Sqlite (SqliteError 1 1)"

text \<open>A statement that is its own transaction.\<close>

definition kv_exec :: "((string \<times> string) list \<Rightarrow> error + 'a \<times> (string \<times> string) list) \<Rightarrow> 'a kv" where
  "kv_exec s f =
    (case kv_fault f of
       (Some e, f1) \<Rightarrow> (Inl (Sqlite e), f1)
     | (None, f1) \<Rightarrow>
         (case kv_table f1 of
            None \<Rightarrow> (Inl no_such_table, f1)
          | Some rows \<Rightarrow>
              (case s rows of Inl e \<Rightarrow> (Inl e, f1) | Inr (v, rows') \<Rightarrow> (Inr v, f1\<lparr>kv_table := Some rows'\<rparr>))))"

section \<open>Opening\<close>

record KeyValueStore =
  has_DB :: bool
  closeFileOnClose :: bool

text \<open>
  The loop of \<open>newKVStore\<close>. Whether the error of the commit equals the value \<open>sqlite3.ErrBusy\<close> is up to
  the driver, a parameter. The transaction that only read is rolled back when the function returns.
\<close>

lemma kv_fault_pending:
  "kv_fault f = (Some e, f') \<Longrightarrow> kv_pending f' < kv_pending f"
  "kv_fault f = (None, f') \<Longrightarrow> kv_pending f' = kv_pending f"
  by (auto simp: kv_fault_def kv_pending_def split: list.splits)

function newKVStore :: "(error \<Rightarrow> bool) \<Rightarrow> KeyValueStore kv" where
  "newKVStore is_ErrBusy f =
    (case kv_fault f of
       (Some e, f1) \<Rightarrow> (Inl (Sqlite e), f1)
     | (None, f1) \<Rightarrow>
         (case kv_fault f1 of
            (Some e, f2) \<Rightarrow> (Inl (ErrorfAt ''Checking for existence of tables'' (Sqlite e)), f2)
          | (None, f2) \<Rightarrow>
              (case kv_table f2 of
                 Some _ \<Rightarrow> (Inr \<lparr>has_DB = True, closeFileOnClose = False\<rparr>, f2)
               | None \<Rightarrow>
                   (case kv_fault f2 of
                      (Some e, f3) \<Rightarrow> (Inl (ErrorfAt ''Creating tables'' (Sqlite e)), f3)
                    | (None, f3) \<Rightarrow>
                        (case kv_fault f3 of
                           (Some e, f4) \<Rightarrow>
                             if is_ErrBusy (Sqlite e) then newKVStore is_ErrBusy f4 else (Inl (Sqlite e), f4)
                         | (None, f4) \<Rightarrow>
                             (Inr \<lparr>has_DB = True, closeFileOnClose = False\<rparr>, f4\<lparr>kv_table := Some []\<rparr>))))))"
  by pat_completeness auto
termination
  by (relation "measure (\<lambda>(_, f). kv_pending f)") (auto dest!: kv_fault_pending sym [of _ "kv_fault _"])

declare newKVStore.simps [simp del]

definition OpenDB :: "(error \<Rightarrow> bool) \<Rightarrow> KeyValueStore kv" where
  "OpenDB is_ErrBusy = newKVStore is_ErrBusy"

text \<open>\<open>sqlx.Open\<close> may fail. After a failing \<open>newKVStore\<close> the pointer is nil and the assignment panics.\<close>

definition OpenFile :: "(error \<Rightarrow> bool) \<Rightarrow> error option \<Rightarrow> KeyValueStore kv" where
  "OpenFile is_ErrBusy open_err f =
    (case open_err of
       Some e \<Rightarrow> (Inl e, f)
     | None \<Rightarrow>
         (case newKVStore is_ErrBusy f of
            (Inl e, f') \<Rightarrow> (Inl (Panic ''nil pointer dereference''), f')
          | (Inr kv, f') \<Rightarrow> (Inr kv, f')))"

definition KeyValueStore_Close :: "KeyValueStore \<Rightarrow> kv_file \<Rightarrow> KeyValueStore \<times> kv_file" where
  "KeyValueStore_Close store f =
    (store\<lparr>has_DB := False\<rparr>, if closeFileOnClose store then f\<lparr>kv_closed := True\<rparr> else f)"

section \<open>Operations\<close>

definition kv_get :: "string \<Rightarrow> (string \<times> string) list \<Rightarrow> error + string \<times> (string \<times> string) list" where
  "kv_get key rows = (case map_of rows key of None \<Rightarrow> Inl ErrNoRows | Some v \<Rightarrow> Inr (v, rows))"

text \<open>The upsert changes the row of the key in place or appends one.\<close>

definition kv_set :: "string \<Rightarrow> string \<Rightarrow> (string \<times> string) list \<Rightarrow> error + unit \<times> (string \<times> string) list" where
  "kv_set key value rows = Inr ((), AList.update key value rows)"

definition kv_Set :: "string \<Rightarrow> string \<Rightarrow> unit kv" where
  "kv_Set key value = kv_exec (kv_set key value)"

definition kv_Get :: "string \<Rightarrow> string kv" where
  "kv_Get key = kv_exec (kv_get key)"

text \<open>The result of the commit is not looked at: after a fault there the old table stays.\<close>

definition kv_Exchange :: "string \<Rightarrow> string \<Rightarrow> string kv" where
  "kv_Exchange key value f =
    (case kv_fault f of
       (Some e, f1) \<Rightarrow> (Inl (ErrorfAt ''Starting transaction'' (Sqlite e)), f1)
     | (None, f1) \<Rightarrow>
         (let (r, f2) = kv_exec (kv_get key) f1
          in if (case r of Inl e \<Rightarrow> e \<noteq> ErrNoRows | Inr _ \<Rightarrow> False)
             then (Inl (ErrorfAt ''Getting old value for key'' (projl r)), f2)
             else
               (let oldval = (case r of Inl _ \<Rightarrow> '''' | Inr v \<Rightarrow> v);
                    (s, f3) = kv_exec (kv_set key value) f2
                in case s of
                     Inl e \<Rightarrow> (Inl (ErrorfAt ''Setting key'' e), f3)
                   | Inr _ \<Rightarrow>
                       (case kv_fault f3 of
                          (Some e, f4) \<Rightarrow> (Inr oldval, f4\<lparr>kv_table := kv_table f\<rparr>)
                        | (None, f4) \<Rightarrow> (Inr oldval, f4)))))"

definition kv_Unset :: "string \<Rightarrow> unit kv" where
  "kv_Unset key = kv_exec (\<lambda>rows. Inr ((), AList.delete key rows))"

definition boolToString :: "bool \<Rightarrow> string" where
  "boolToString val = (if val then ''true'' else ''false'')"

definition stringToBool :: "string \<Rightarrow> bool" where
  "stringToBool val = (val = ''true'')"

text \<open>On an error the value is the empty string.\<close>

definition kv_GetBoolDef :: "string \<Rightarrow> kv_file \<Rightarrow> bool \<times> kv_file" where
  "kv_GetBoolDef key f =
    (case kv_Get key f of (r, f') \<Rightarrow> (stringToBool (case r of Inl _ \<Rightarrow> '''' | Inr v \<Rightarrow> v), f'))"

definition kv_SetBool :: "string \<Rightarrow> bool \<Rightarrow> unit kv" where
  "kv_SetBool key val = kv_Set key (boolToString val)"

text \<open>The value returned beside an error is \<open>stringToBool\<close> of the empty string; it is dropped here.\<close>

definition kv_ExchangeBool :: "string \<Rightarrow> bool \<Rightarrow> bool kv" where
  "kv_ExchangeBool key val f =
    (case kv_Exchange key (boolToString val) f of
       (Inl e, f') \<Rightarrow> (Inl e, f')
     | (Inr ovs, f') \<Rightarrow> (Inr (stringToBool ovs), f'))"

section \<open>Flags\<close>

record FlagValue =
  fv_key :: string
  fv_kvs :: bool
  fv_validator :: "(string \<Rightarrow> error option) option"

definition FlagValue_Set :: "FlagValue \<Rightarrow> string \<Rightarrow> unit kv" where
  "FlagValue_Set fv value f =
    (case (case fv_validator fv of None \<Rightarrow> None | Some check \<Rightarrow> check value) of
       Some err \<Rightarrow> (Inl err, f)
     | None \<Rightarrow>
         if \<not> fv_kvs fv then (Inl (Panic ''nil pointer dereference''), f)
         else kv_Set (fv_key fv) value f)"

definition FlagValue_String :: "FlagValue \<Rightarrow> kv_file \<Rightarrow> string \<times> kv_file" where
  "FlagValue_String fv f =
    (if \<not> fv_kvs fv then ('''', f)
     else (case kv_Get (fv_key fv) f of (r, f') \<Rightarrow> (case r of Inl _ \<Rightarrow> '''' | Inr v \<Rightarrow> v, f')))"

definition FlagValue_Get :: "FlagValue \<Rightarrow> kv_file \<Rightarrow> string \<times> kv_file" where
  "FlagValue_Get fv = FlagValue_String fv"

definition GetFlagValue :: "string \<Rightarrow> (string \<Rightarrow> error option) list \<Rightarrow> FlagValue" where
  "GetFlagValue key validators =
    \<lparr>fv_key = key, fv_kvs = True, fv_validator = (case validators of [] \<Rightarrow> None | v # _ \<Rightarrow> Some v)\<rparr>"

section \<open>What the store promises\<close>

text \<open>
  The interface the handlers rely on: a finite map from keys to values. \<open>content\<close> is the abstraction
  and \<open>ok\<close> the states in which the laws hold.
\<close>

locale kv_map =
  fixes content :: "'s \<Rightarrow> string \<Rightarrow> string option"
    and ok :: "'s \<Rightarrow> bool"
    and get_key :: "string \<Rightarrow> 's \<Rightarrow> (error + string) \<times> 's"
    and set_key :: "string \<Rightarrow> string \<Rightarrow> 's \<Rightarrow> (error + unit) \<times> 's"
    and exchange_key :: "string \<Rightarrow> string \<Rightarrow> 's \<Rightarrow> (error + string) \<times> 's"
    and unset_key :: "string \<Rightarrow> 's \<Rightarrow> (error + unit) \<times> 's"
  assumes get_law: "ok s \<Longrightarrow> \<exists>s'. get_key k s = (case content s k of None \<Rightarrow> Inl ErrNoRows | Some v \<Rightarrow> Inr v, s')
      \<and> ok s' \<and> content s' = content s"
    and set_law: "ok s \<Longrightarrow> \<exists>s'. set_key k v s = (Inr (), s') \<and> ok s' \<and> content s' = (content s)(k \<mapsto> v)"
    and exchange_law: "ok s \<Longrightarrow> \<exists>s'. exchange_key k v s = (Inr (case content s k of None \<Rightarrow> '''' | Some x \<Rightarrow> x), s')
      \<and> ok s' \<and> content s' = (content s)(k \<mapsto> v)"
    and unset_law: "ok s \<Longrightarrow> \<exists>s'. unset_key k s = (Inr (), s') \<and> ok s' \<and> content s' = (content s)(k := None)"
begin

text \<open>What is set is read back, and only that key changes.\<close>

lemma get_after_set:
  assumes "ok s" and "set_key k v s = (r, s')"
  shows "r = Inr () \<and> fst (get_key k s') = Inr v \<and> (j \<noteq> k \<longrightarrow> fst (get_key j s') = fst (get_key j s))"
proof -
  obtain s1 where s: "set_key k v s = (Inr (), s1)" "ok s1" "content s1 = (content s)(k \<mapsto> v)" using set_law [OF assms(1)] by blast
  then have "s' = s1" "r = Inr ()" using assms(2) by simp_all
  moreover have "fst (get_key j s1) = (case content s1 j of None \<Rightarrow> Inl ErrNoRows | Some v \<Rightarrow> Inr v)" for j
    using get_law [OF s(2)] by (metis fst_conv)
  moreover have "fst (get_key j s) = (case content s j of None \<Rightarrow> Inl ErrNoRows | Some v \<Rightarrow> Inr v)" for j
    using get_law [OF assms(1)] by (metis fst_conv)
  ultimately show ?thesis using s(3) by simp
qed

text \<open>After \<open>unset\<close> the key is gone.\<close>

lemma get_after_unset:
  assumes "ok s" and "unset_key k s = (r, s')"
  shows "r = Inr () \<and> fst (get_key k s') = Inl ErrNoRows"
proof -
  obtain s1 where s: "unset_key k s = (Inr (), s1)" "ok s1" "content s1 = (content s)(k := None)"
    using unset_law [OF assms(1)] by blast
  then show ?thesis using assms(2) get_law [OF s(2), of k] by auto
qed

text \<open>A chain of exchanges hands every value on to the next caller.\<close>

lemma exchange_chain:
  assumes "ok s" and "exchange_key k v s = (r1, s1)" and "exchange_key k v' s1 = (r2, s2)"
  shows "r2 = Inr v \<and> content s2 = (content s)(k \<mapsto> v')"
proof -
  obtain t where t: "exchange_key k v s = (Inr (case content s k of None \<Rightarrow> '''' | Some x \<Rightarrow> x), t)" "ok t"
    "content t = (content s)(k \<mapsto> v)" using exchange_law [OF assms(1)] by blast
  with assms(2) have "s1 = t" by simp
  with exchange_law [OF t(2), of k v'] assms(3) t(3) show ?thesis by auto
qed

end

text \<open>
  The states of the file in which no call fails: the table exists, it has no key twice, and no
  fault is pending.
\<close>

definition kv_ok :: "kv_file \<Rightarrow> bool" where
  "kv_ok f \<longleftrightarrow> kv_pending f = 0 \<and> (case kv_table f of None \<Rightarrow> False | Some rows \<Rightarrow> distinct (map fst rows))"

definition kv_content :: "kv_file \<Rightarrow> string \<Rightarrow> string option" where
  "kv_content f = (case kv_table f of None \<Rightarrow> (\<lambda>_. None) | Some rows \<Rightarrow> map_of rows)"

lemma kv_fault_quiet:
  assumes "kv_pending f = 0"
  obtains f' where "kv_fault f = (None, f')" "kv_pending f' = 0" "kv_table f' = kv_table f"
proof -
  have "\<exists>f'. kv_fault f = (None, f') \<and> kv_pending f' = 0 \<and> kv_table f' = kv_table f"
    using assms by (auto simp: kv_fault_def kv_pending_def split: list.splits if_splits)
  then show ?thesis using that by blast
qed

lemma kv_pending_table [simp]: "kv_pending (f\<lparr>kv_table := t\<rparr>) = kv_pending f"
  by (simp add: kv_pending_def)

lemma kv_exec_quiet:
  assumes "kv_pending f = 0" and "kv_table f = Some rows"
  shows "\<exists>f'. kv_exec s f = (case s rows of Inl e \<Rightarrow> Inl e | Inr (v, _) \<Rightarrow> Inr v, f') \<and> kv_pending f' = 0
    \<and> kv_table f' = Some (case s rows of Inl e \<Rightarrow> rows | Inr (_, rows') \<Rightarrow> rows')"
proof -
  obtain f' where f: "kv_fault f = (None, f')" "kv_pending f' = 0" "kv_table f' = kv_table f"
    using kv_fault_quiet [OF assms(1)] by blast
  then show ?thesis using assms(2) by (cases "s rows") (auto simp: kv_exec_def split: prod.splits)
qed

lemma kv_get_quiet:
  assumes "kv_pending f = 0" and "kv_table f = Some rows"
  shows "\<exists>f'. kv_exec (kv_get k) f = (case map_of rows k of None \<Rightarrow> Inl ErrNoRows | Some v \<Rightarrow> Inr v, f')
    \<and> kv_pending f' = 0 \<and> kv_table f' = Some rows"
  using kv_exec_quiet [OF assms, of "kv_get k"] by (cases "map_of rows k") (simp_all add: kv_get_def)

lemma kv_set_quiet:
  assumes "kv_pending f = 0" and "kv_table f = Some rows"
  shows "\<exists>f'. kv_exec (kv_set k v) f = (Inr (), f') \<and> kv_pending f' = 0 \<and> kv_table f' = Some (AList.update k v rows)"
  using kv_exec_quiet [OF assms, of "kv_set k v"] by (simp add: kv_set_def)

lemma kv_Exchange_quiet:
  assumes "kv_pending f = 0" and "kv_table f = Some rows"
  shows "\<exists>f'. kv_Exchange k v f = (Inr (case map_of rows k of None \<Rightarrow> '''' | Some x \<Rightarrow> x), f')
    \<and> kv_pending f' = 0 \<and> kv_table f' = Some (AList.update k v rows)"
proof -
  obtain f1 where f1: "kv_fault f = (None, f1)" "kv_pending f1 = 0" "kv_table f1 = Some rows"
    using kv_fault_quiet [OF assms(1)] assms(2) by metis
  obtain f2 where f2: "kv_exec (kv_get k) f1 = (case map_of rows k of None \<Rightarrow> Inl ErrNoRows | Some v \<Rightarrow> Inr v, f2)"
    "kv_pending f2 = 0" "kv_table f2 = Some rows" using kv_get_quiet [OF f1(2,3)] by blast
  obtain f3 where f3: "kv_exec (kv_set k v) f2 = (Inr (), f3)" "kv_pending f3 = 0" "kv_table f3 = Some (AList.update k v rows)"
    using kv_set_quiet [OF f2(2,3)] by blast
  obtain f4 where f4: "kv_fault f3 = (None, f4)" "kv_pending f4 = 0" "kv_table f4 = kv_table f3"
    using kv_fault_quiet [OF f3(2)] by blast
  show ?thesis using f4(2,3) f3(3) unfolding kv_Exchange_def f1(1) prod.case option.case f2(1) Let_def
    by (cases "map_of rows k") (simp_all add: f3(1) f4(1))
qed

interpretation kv: kv_map kv_content kv_ok kv_Get kv_Set kv_Exchange kv_Unset
proof unfold_locales
  fix f k v assume ok: "kv_ok f"
  then obtain rows where f: "kv_pending f = 0" "kv_table f = Some rows" "distinct (map fst rows)"
    by (auto simp: kv_ok_def split: option.splits)
  have content: "kv_content f = map_of rows" by (simp add: kv_content_def f(2))
  have okI: "kv_ok f'" "kv_content f' = map_of rows'" if "kv_pending f' = 0" "kv_table f' = Some rows'" "distinct (map fst rows')" for f' rows'
    using that by (simp_all add: kv_ok_def kv_content_def)
  show "\<exists>f'. kv_Get k f = (case kv_content f k of None \<Rightarrow> Inl ErrNoRows | Some v \<Rightarrow> Inr v, f') \<and> kv_ok f' \<and> kv_content f' = kv_content f"
    using kv_get_quiet [OF f(1,2), of k] okI f(3) unfolding kv_Get_def content by metis
  note upd = distinct_update [OF f(3), of k v] and del = distinct_delete [OF f(3), of k]
  show "\<exists>f'. kv_Set k v f = (Inr (), f') \<and> kv_ok f' \<and> kv_content f' = (kv_content f)(k \<mapsto> v)"
    using kv_set_quiet [OF f(1,2), of k v] okI upd unfolding kv_Set_def content update_conv' [symmetric] by blast
  show "\<exists>f'. kv_Exchange k v f = (Inr (case kv_content f k of None \<Rightarrow> '''' | Some x \<Rightarrow> x), f') \<and> kv_ok f' \<and> kv_content f' = (kv_content f)(k \<mapsto> v)"
    using kv_Exchange_quiet [OF f(1,2), of k v] okI upd unfolding content update_conv' [symmetric] by blast
  obtain f4 where f4: "kv_Unset k f = (Inr (), f4)" "kv_pending f4 = 0" "kv_table f4 = Some (AList.delete k rows)"
    using kv_exec_quiet [OF f(1,2), of "\<lambda>rows. Inr ((), AList.delete k rows)"] unfolding kv_Unset_def by auto
  then show "\<exists>f'. kv_Unset k f = (Inr (), f') \<and> kv_ok f' \<and> kv_content f' = (kv_content f)(k := None)"
    using okI [OF f4(2,3) del] unfolding content delete_conv' [symmetric] by blast
qed

lemma bool_string [simp]: "stringToBool (boolToString b) = b"
  by (simp add: boolToString_def stringToBool_def)

lemma kv_bool_roundtrip:
  assumes "kv_ok f"
  shows "\<exists>f' f''. kv_SetBool k b f = (Inr (), f') \<and> kv_GetBoolDef k f' = (b, f'') \<and> kv_ok f''"
proof -
  obtain f' where f': "kv_Set k (boolToString b) f = (Inr (), f')" "kv_ok f'" "kv_content f' = (kv_content f)(k \<mapsto> boolToString b)"
    using kv.set_law [OF assms] by blast
  obtain f'' where "kv_Get k f' = (Inr (boolToString b), f'')" "kv_ok f''"
    using kv.get_law [OF f'(2), of k] by (auto simp: f'(3))
  then show ?thesis using f'(1) by (auto simp: kv_SetBool_def kv_GetBoolDef_def)
qed

lemma kv_ExchangeBool_law:
  assumes "kv_ok f"
  shows "\<exists>f'. kv_ExchangeBool k b f = (Inr (kv_content f k = Some ''true''), f') \<and> kv_ok f'
    \<and> kv_content f' = (kv_content f)(k \<mapsto> boolToString b)"
  using kv.exchange_law [OF assms, of k "boolToString b"]
  by (auto simp: kv_ExchangeBool_def stringToBool_def split: option.splits)

text \<open>A store that was opened has its table; the loop that opens it ends for every sequence of faults.\<close>

lemma newKVStore_table:
  assumes "newKVStore is_ErrBusy f = (Inr kv, f')"
  shows "kv_table f' \<noteq> None \<and> has_DB kv \<and> \<not> closeFileOnClose kv \<and> (kv_table f \<noteq> None \<longrightarrow> kv_table f' = kv_table f)"
  using assms
proof (induction is_ErrBusy f rule: newKVStore.induct)
  case (1 is_ErrBusy f)
  have same: "kv_fault g = (x, g') \<Longrightarrow> kv_table g' = kv_table g" for g x g'
    by (auto simp: kv_fault_def split: list.splits)
  from 1 show ?case
    by (auto simp: newKVStore.simps [of is_ErrBusy f] dest!: same split: prod.splits option.splits if_splits)
qed

text \<open>The file is never closed: the flag that would close it is only set on the path that panics.\<close>

lemma OpenFile_never_closes:
  assumes "OpenFile is_ErrBusy open_err f = (Inr kv, f')"
  shows "snd (KeyValueStore_Close kv f'') = f''"
proof -
  from assms have "newKVStore is_ErrBusy f = (Inr kv, f')"
    by (auto simp: OpenFile_def split: option.splits prod.splits sum.splits)
  from newKVStore_table [OF this] show ?thesis by (simp add: KeyValueStore_Close_def)
qed

text \<open>
  C29: The configuration store implements a finite map. In every state in which the table has been
  created and no engine fault is pending, \<open>Get\<close> returns the value of the key or \<open>ErrNoRows\<close>, \<open>Set\<close> maps the
  key to the value, \<open>Exchange\<close> does so and returns the old value or the empty string, \<open>Unset\<close> removes
  the key, no other key is touched, and a boolean that was set is read back.
\<close>

theorem keyvalue_refines_map:
  assumes "kv_ok f"
  shows "(\<exists>f'. kv_Get k f = (case kv_content f k of None \<Rightarrow> Inl ErrNoRows | Some x \<Rightarrow> Inr x, f') \<and> kv_ok f' \<and> kv_content f' = kv_content f)
    \<and> (\<exists>f'. kv_Set k v f = (Inr (), f') \<and> kv_ok f' \<and> kv_content f' = (kv_content f)(k \<mapsto> v))
    \<and> (\<exists>f'. kv_Exchange k v f = (Inr (case kv_content f k of None \<Rightarrow> '''' | Some x \<Rightarrow> x), f') \<and> kv_ok f' \<and> kv_content f' = (kv_content f)(k \<mapsto> v))
    \<and> (\<exists>f'. kv_Unset k f = (Inr (), f') \<and> kv_ok f' \<and> kv_content f' = (kv_content f)(k := None))
    \<and> (\<exists>f' f''. kv_SetBool k b f = (Inr (), f') \<and> kv_GetBoolDef k f' = (b, f'') \<and> kv_ok f'')"
  using kv.get_law [OF assms, of k] kv.set_law [OF assms, of k v] kv.exchange_law [OF assms, of k v]
    kv.unset_law [OF assms, of k] kv_bool_roundtrip [OF assms, of k b] by blast

definition sample_kv :: kv_file where
  "sample_kv = \<lparr>kv_table = Some [(''ServeActive'', ''true''), (''ServeVerificationCode'', ''secret'')],
     kv_faults = [], kv_closed = False\<rparr>"

lemma sample_kv_ok: "kv_ok sample_kv"
  by (simp add: kv_ok_def sample_kv_def kv_pending_def)

theorem keyvalue_refines_map_witness:
  "kv_ok sample_kv \<and> (\<exists>f'. kv_Exchange ''ServeActive'' ''false'' sample_kv = (Inr ''true'', f')
     \<and> kv_content f' = (kv_content sample_kv)(''ServeActive'' \<mapsto> ''false''))"
proof -
  have "kv_content sample_kv ''ServeActive'' = Some ''true''" by (simp add: kv_content_def sample_kv_def)
  with keyvalue_refines_map [OF sample_kv_ok, of "''ServeActive''" "''false''" True] sample_kv_ok show ?thesis by auto
qed

text \<open>
  \<open>Exchange\<close> does not look at the result of its commit. When the engine is busy at that moment the
  call returns the old value and no error, and the new value is not stored.
\<close>

theorem Exchange_lost_update:
  "\<exists>f f'. kv_content f ''ServeActive'' = Some ''true''
     \<and> kv_Exchange ''ServeActive'' ''false'' f = (Inr ''true'', f')
     \<and> kv_content f' = kv_content f"
proof -
  let ?f = "sample_kv\<lparr>kv_faults := [None, None, None, Some (SqliteError 5 5)]\<rparr>"
  let ?x = "kv_Exchange ''ServeActive'' ''false'' ?f"
  have eval: "fst ?x = Inr ''true''" "kv_table (snd ?x) = kv_table ?f"
    by (simp_all add: kv_Exchange_def kv_fault_def kv_exec_def kv_get_def kv_set_def sample_kv_def Let_def)
  from eval(1) have "?x = (Inr ''true'', snd ?x)" by (metis prod.collapse)
  moreover have "kv_content (snd ?x) = kv_content ?f" unfolding kv_content_def eval(2) ..
  moreover have "kv_content ?f ''ServeActive'' = Some ''true''" by (simp add: kv_content_def sample_kv_def)
  ultimately show ?thesis by blast
qed

end
