(* ===== verification/Web_Sessions.thy ===== *)
theory Web_Sessions
  imports Event_Errors Random_Id
begin

text \<open>
  Login sessions, \<^verbatim>\<open>sessions/session.go\<close> and \<^verbatim>\<open>sessions/session_store.go\<close>. A session is a row with a
  random identifier, the identifier of a user and a time of expiry; the browser holds the
  identifier in a cookie. Times are in nanoseconds; the table keeps whole seconds.

  The store is an SQLite file of its own, without retries. The engine's faults, the clock and the
  random bytes are inputs. The package has one global store; a request is given by its cookie.
\<close>

section \<open>The file\<close>

record session_row =
  row_id :: string
  row_userid :: string
  row_expiryts :: int

record session_db =
  attributes :: "(string \<times> string) list option"
  sess_table :: "session_row list option"
  sess_faults :: "sqlite_error option list"
  sess_clock :: "nat \<Rightarrow> int"
  sess_ticks :: nat
  sess_entropy :: "nat \<Rightarrow> 8 word"
  sess_drawn :: nat

definition sess_fault :: "session_db \<Rightarrow> sqlite_error option \<times> session_db" where
  "sess_fault db = (case sess_faults db of [] \<Rightarrow> (None, db) | x # xs \<Rightarrow> (x, db\<lparr>sess_faults := xs\<rparr>))"

definition sess_pending :: "session_db \<Rightarrow> nat" where
  "sess_pending db = length (filter (\<lambda>x. x \<noteq> None) (sess_faults db))"

definition sess_now :: "session_db \<Rightarrow> int \<times> session_db" where
  "sess_now db = (sess_clock db (sess_ticks db), db\<lparr>sess_ticks := Suc (sess_ticks db)\<rparr>)"

definition sess_exec :: "(session_row list \<Rightarrow> error + 'a \<times> session_row list) \<Rightarrow> session_db \<Rightarrow> (error + 'a) \<times> session_db" where
  "sess_exec s db =
    (case sess_fault db of
       (Some e, db1) \<Rightarrow> (Inl (Sqlite e), db1)
     | (None, db1) \<Rightarrow>
         (case sess_table db1 of
            None \<Rightarrow> (Inl (Sqlite (SqliteError 1 1)), db1)
          | Some rows \<Rightarrow>
              (case s rows of Inl e \<Rightarrow> (Inl e, db1) | Inr (v, rows') \<Rightarrow> (Inr v, db1\<lparr>sess_table := Some rows'\<rparr>))))"

section \<open>The store\<close>

record Session =
  sess_ID :: string
  sess_UserID :: string
  sess_Expiry :: int

definition nanos :: int where "nanos = 1000000000"

text \<open>\<open>Unix()\<close> and \<open>time.Unix(ts, 0)\<close>.\<close>

definition Store_Save :: "Session \<Rightarrow> session_db \<Rightarrow> error option \<times> session_db" where
  "Store_Save session db =
    (case sess_exec (\<lambda>rows.
        if sess_ID session \<in> row_id ` set rows then Inl (Sqlite (SqliteError code_Constraint code_PrimaryKey))
        else Inr ((), rows @ [\<lparr>row_id = sess_ID session, row_userid = sess_UserID session,
                               row_expiryts = sess_Expiry session div nanos\<rparr>])) db of
       (Inl e, db') \<Rightarrow> (Some e, db')
     | (Inr _, db') \<Rightarrow> (None, db'))"

definition Store_Find :: "string \<Rightarrow> session_db \<Rightarrow> (error + Session option) \<times> session_db" where
  "Store_Find sid db =
    (case sess_exec (\<lambda>rows. case find (\<lambda>r. row_id r = sid) rows of None \<Rightarrow> Inl ErrNoRows | Some r \<Rightarrow> Inr (r, rows)) db of
       (Inl e, db') \<Rightarrow> if e = ErrNoRows then (Inr None, db') else (Inl e, db')
     | (Inr r, db') \<Rightarrow>
         (Inr (Some \<lparr>sess_ID = sid, sess_UserID = row_userid r, sess_Expiry = row_expiryts r * nanos\<rparr>), db'))"

definition Store_Delete :: "Session \<Rightarrow> session_db \<Rightarrow> error option \<times> session_db" where
  "Store_Delete session db =
    (case sess_exec (\<lambda>rows. Inr ((), filter (\<lambda>r. row_id r \<noteq> sess_ID session) rows)) db of
       (Inl e, db') \<Rightarrow> (Some e, db')
     | (Inr _, db') \<Rightarrow> (None, db'))"

section \<open>Opening the store\<close>

definition dbSchemaVersion :: int where "dbSchemaVersion = 1"
definition attributeSchemaVersion :: string where "attributeSchemaVersion = ''SchemaVersion''"

definition getSchemaVersion :: "session_db \<Rightarrow> (error + int) \<times> session_db" where
  "getSchemaVersion db =
    (case sess_fault db of
       (Some e, db1) \<Rightarrow> (Inl (Sqlite e), db1)
     | (None, db1) \<Rightarrow>
         (case attributes db1 of
            None \<Rightarrow> (Inr 0, db1)
          | Some attrs \<Rightarrow>
              (case sess_fault db1 of
                 (Some e, db2) \<Rightarrow> (Inl (Sqlite e), db2)
               | (None, db2) \<Rightarrow>
                   (case map_of attrs attributeSchemaVersion of
                      None \<Rightarrow> (Inl ErrNoRows, db2)
                    | Some v \<Rightarrow>
                        (case Atoi v of None \<Rightarrow> (Inl (Errorf ''strconv.Atoi''), db2) | Some n \<Rightarrow> (Inr n, db2))))))"

text \<open>
  The result of the commit is not looked at: after a fault there the new tables are gone, although
  the store is returned. A version of 0 is also what a stored \<open>0\<close> reads as; creating the tables
  fails if they exist.
\<close>

definition newSQLiteSessionStore :: "error option \<Rightarrow> session_db \<Rightarrow> (error + unit) \<times> session_db" where
  "newSQLiteSessionStore open_err db =
    (case open_err of
       Some e \<Rightarrow> (Inl e, db)
     | None \<Rightarrow>
        (case sess_fault db of
           (Some e, db1) \<Rightarrow> (Inl (Sqlite e), db1)
         | (None, db1) \<Rightarrow>
            (case getSchemaVersion db1 of
               (Inl e, db2) \<Rightarrow> (Inl e, db2)
             | (Inr v, db2) \<Rightarrow>
                 if v = 0 then
                   (case sess_fault db2 of
                      (Some e, db3) \<Rightarrow> (Inl (Sqlite e), db3)
                    | (None, db3) \<Rightarrow>
                       if attributes db3 \<noteq> None then (Inl (Sqlite (SqliteError 1 1)), db3)
                       else
                       (case sess_fault db3 of
                          (Some e, db4) \<Rightarrow> (Inl (Sqlite e), db4)
                        | (None, db4) \<Rightarrow>
                           if sess_table db4 \<noteq> None then (Inl (Sqlite (SqliteError 1 1)), db4)
                           else
                           (case sess_fault db4 of
                              (Some e, db5) \<Rightarrow> (Inl (Sqlite e), db5)
                            | (None, db5) \<Rightarrow>
                               (case sess_fault db5 of
                                  (Some e, db6) \<Rightarrow> (Inr (), db6)
                                | (None, db6) \<Rightarrow>
                                   (Inr (), db6\<lparr>attributes := Some [(attributeSchemaVersion, ''1'')], sess_table := Some []\<rparr>)))))
                 else if v \<noteq> dbSchemaVersion then (Inl (Errorf ''Database version mismatch''), db2)
                 else (Inr (), snd (sess_fault db2)))))"

definition OpenSessionStore :: "error option \<Rightarrow> session_db \<Rightarrow> (error + unit) \<times> session_db" where
  "OpenSessionStore open_err db = newSQLiteSessionStore open_err db"

section \<open>Sessions\<close>

definition sessionLength :: int where "sessionLength = 24 * 3 * 3600 * nanos"
definition sessionCookieName :: string where "sessionCookieName = ''XenSummitWebSession''"
definition sessionIDLength :: nat where "sessionIDLength = 20"

record Cookie =
  cookie_Name :: string
  cookie_Value :: string
  cookie_Expires :: int

definition SessionID_generate :: "session_db \<Rightarrow> string \<times> session_db" where
  "SessionID_generate db =
    (GenerateID ''sess'' (map (\<lambda>i. sess_entropy db (sess_drawn db + i)) [0..<sessionIDLength]),
     db\<lparr>sess_drawn := sess_drawn db + sessionIDLength\<rparr>)"

definition Session_Expired :: "Session \<Rightarrow> session_db \<Rightarrow> bool \<times> session_db" where
  "Session_Expired session db = (let (now, db') = sess_now db in (sess_Expiry session < now, db'))"

text \<open>The session, the error of \<open>Save\<close>, and the cookie, which is set even if saving fails.\<close>

definition NewSession :: "string \<Rightarrow> session_db \<Rightarrow> (Session \<times> error option \<times> Cookie) \<times> session_db" where
  "NewSession uid db =
    (let (now, db1) = sess_now db;
         expiry = now + sessionLength;
         (sid, db2) = SessionID_generate db1;
         session = \<lparr>sess_ID = sid, sess_UserID = uid, sess_Expiry = expiry\<rparr>;
         cookie = \<lparr>cookie_Name = sessionCookieName, cookie_Value = sid, cookie_Expires = expiry\<rparr>;
         (err, db3) = Store_Save session db2
     in ((session, err, cookie), db3))"

text \<open>The value of the request's cookie, if it has one.\<close>

definition RequestSession :: "string option \<Rightarrow> session_db \<Rightarrow> Session option \<times> session_db" where
  "RequestSession cookie db =
    (case cookie of
       None \<Rightarrow> (None, db)
     | Some value \<Rightarrow>
         (case Store_Find value db of
            (Inl _, db1) \<Rightarrow> (None, db1)
          | (Inr None, db1) \<Rightarrow> (None, db1)
          | (Inr (Some session), db1) \<Rightarrow>
              (let (expired, db2) = Session_Expired session db1
               in if expired then (None, snd (Store_Delete session db2)) else (Some session, db2))))"

definition FindOrCreateSession :: "string option \<Rightarrow> string \<Rightarrow> session_db \<Rightarrow> (Session \<times> error option \<times> Cookie option) \<times> session_db" where
  "FindOrCreateSession cookie uid db =
    (case RequestSession cookie db of
       (Some session, db1) \<Rightarrow>
         if sess_UserID session \<noteq> uid
         then (let ((s, err, ck), db2) = NewSession uid db1 in ((s, err, Some ck), db2))
         else ((session, None, None), db1)
     | (None, db1) \<Rightarrow> (let ((s, err, ck), db2) = NewSession uid db1 in ((s, err, Some ck), db2)))"

definition DeleteSessionByRequest :: "string option \<Rightarrow> session_db \<Rightarrow> error option \<times> session_db" where
  "DeleteSessionByRequest cookie db =
    (case RequestSession cookie db of
       (Some session, db1) \<Rightarrow> Store_Delete session db1
     | (None, db1) \<Rightarrow> (None, db1))"

section \<open>Facts\<close>

lemma sess_fault_frame:
  assumes "sess_fault db = (x, db')"
  shows "sess_table db' = sess_table db" and "attributes db' = attributes db" and "sess_clock db' = sess_clock db"
    and "sess_ticks db' = sess_ticks db" and "sess_entropy db' = sess_entropy db" and "sess_drawn db' = sess_drawn db"
  using assms by (auto simp: sess_fault_def split: list.splits)

lemma sess_fault_quiet:
  assumes "sess_pending db = 0"
  shows "fst (sess_fault db) = None" and "sess_pending (snd (sess_fault db)) = 0"
  using assms by (auto simp: sess_fault_def sess_pending_def split: list.splits if_splits)

lemma sess_pending_update [simp]:
  "sess_pending (db\<lparr>sess_table := t\<rparr>) = sess_pending db" "sess_pending (db\<lparr>sess_ticks := n\<rparr>) = sess_pending db"
  "sess_pending (db\<lparr>sess_drawn := m\<rparr>) = sess_pending db"
  by (simp_all add: sess_pending_def)

text \<open>The rows of the store, none before it is opened.\<close>

definition sess_rows :: "session_db \<Rightarrow> session_row list" where
  "sess_rows db = (case sess_table db of None \<Rightarrow> [] | Some rows \<Rightarrow> rows)"

text \<open>The abstract state: which user a cookie stands for, and until when.\<close>

definition row_holder :: "session_row list \<Rightarrow> string \<Rightarrow> (string \<times> int) option" where
  "row_holder rows = map_of (map (\<lambda>r. (row_id r, (row_userid r, row_expiryts r * nanos))) rows)"

definition holder :: "session_db \<Rightarrow> string \<Rightarrow> (string \<times> int) option" where
  "holder db = row_holder (sess_rows db)"

lemma row_holder_find:
  "row_holder rows c = map_option (\<lambda>r. (row_userid r, row_expiryts r * nanos)) (find (\<lambda>r. row_id r = c) rows)"
  unfolding row_holder_def by (induction rows) auto

lemma row_holder_None: "row_holder rows c = None \<longleftrightarrow> c \<notin> row_id ` set rows"
  unfolding row_holder_find by (auto simp: find_None_iff)

lemma row_holder_append:
  assumes "row_id r \<notin> row_id ` set rows"
  shows "row_holder (rows @ [r]) = (row_holder rows)(row_id r \<mapsto> (row_userid r, row_expiryts r * nanos))"
  using assms unfolding row_holder_def by (induction rows) (auto simp: fun_eq_iff)

lemma row_holder_delete: "row_holder (filter (\<lambda>r. row_id r \<noteq> c) rows) = (row_holder rows)(c := None)"
  unfolding row_holder_def by (induction rows) (auto simp: fun_eq_iff)

definition sess_ok :: "session_db \<Rightarrow> bool" where
  "sess_ok db \<longleftrightarrow> distinct (map row_id (sess_rows db))"

lemma sess_exec_cases:
  assumes "sess_exec s db = (r, db')"
  shows "sess_clock db' = sess_clock db \<and> sess_ticks db' = sess_ticks db \<and> sess_entropy db' = sess_entropy db \<and> sess_drawn db' = sess_drawn db \<and>
    (case r of Inl e \<Rightarrow> sess_table db' = sess_table db
     | Inr v \<Rightarrow> \<exists>rows rows'. sess_table db = Some rows \<and> s rows = Inr (v, rows') \<and> sess_table db' = Some rows')"
proof -
  obtain x db1 where f: "sess_fault db = (x, db1)" by fastforce
  note fr = sess_fault_frame [OF f]
  show ?thesis using assms f fr by (auto simp: sess_exec_def split: option.splits sum.splits)
qed

lemma sess_exec_quiet:
  assumes "sess_pending db = 0" and "sess_table db = Some rows"
  shows "\<exists>db'. sess_exec s db = (case s rows of Inl e \<Rightarrow> Inl e | Inr (v, _) \<Rightarrow> Inr v, db') \<and> sess_pending db' = 0
    \<and> sess_table db' = Some (case s rows of Inl e \<Rightarrow> rows | Inr (_, rows') \<Rightarrow> rows')"
proof -
  obtain x db1 where f: "sess_fault db = (x, db1)" by fastforce
  note fr = sess_fault_frame [OF f] and q = sess_fault_quiet [OF assms(1)]
  show ?thesis using f fr q assms(2) by (cases "s rows") (auto simp: sess_exec_def split: prod.splits)
qed

text \<open>The effect of every call on the abstract state, under any faults.\<close>

lemma Store_Save_holder:
  assumes "Store_Save s db = (err, db')" and "sess_ok db"
  shows "sess_ok db'" and "err = None \<Longrightarrow> holder db' = (holder db)(sess_ID s \<mapsto> (sess_UserID s, sess_Expiry s div nanos * nanos))"
    and "err \<noteq> None \<Longrightarrow> sess_table db' = sess_table db"
    and "err = None \<Longrightarrow> holder db (sess_ID s) = None"
proof -
  let ?row = "\<lparr>row_id = sess_ID s, row_userid = sess_UserID s, row_expiryts = sess_Expiry s div nanos\<rparr>"
  let ?ins = "\<lambda>rows. if sess_ID s \<in> row_id ` set rows then Inl (Sqlite (SqliteError code_Constraint code_PrimaryKey))
        else Inr ((), rows @ [?row])"
  obtain r where x: "sess_exec ?ins db = (r, db')" and r: "err = (case r of Inl e \<Rightarrow> Some e | Inr _ \<Rightarrow> None)"
    using assms(1) by (auto simp: Store_Save_def split: prod.splits sum.splits)
  note c = sess_exec_cases [OF x]
  show "sess_ok db'" "err = None \<Longrightarrow> holder db' = (holder db)(sess_ID s \<mapsto> (sess_UserID s, sess_Expiry s div nanos * nanos))"
    "err \<noteq> None \<Longrightarrow> sess_table db' = sess_table db" "err = None \<Longrightarrow> holder db (sess_ID s) = None"
    using c r assms(2)
    by (auto simp: sess_ok_def sess_rows_def holder_def row_holder_append row_holder_None split: sum.splits if_splits)
qed

lemma Store_Find_holder:
  assumes "Store_Find c db = (r, db')"
  shows "sess_table db' = sess_table db" and "sess_clock db' = sess_clock db" and "sess_ticks db' = sess_ticks db"
    and "r = Inr (Some s) \<Longrightarrow> sess_ID s = c \<and> holder db c = Some (sess_UserID s, sess_Expiry s)"
    and "sess_pending db = 0 \<Longrightarrow> sess_table db \<noteq> None \<Longrightarrow>
      sess_pending db' = 0 \<and> r = Inr (map_option (\<lambda>(u, e). \<lparr>sess_ID = c, sess_UserID = u, sess_Expiry = e\<rparr>) (holder db c))"
proof -
  let ?q = "\<lambda>rows. case find (\<lambda>r. row_id r = c) rows of None \<Rightarrow> Inl ErrNoRows | Some r \<Rightarrow> Inr (r, rows)"
  obtain x where x: "sess_exec ?q db = (x, db')"
    and r: "r = (case x of Inl e \<Rightarrow> if e = ErrNoRows then Inr None else Inl e
      | Inr v \<Rightarrow> Inr (Some \<lparr>sess_ID = c, sess_UserID = row_userid v, sess_Expiry = row_expiryts v * nanos\<rparr>))"
    using assms by (auto simp: Store_Find_def split: prod.splits sum.splits if_splits)
  note f = sess_exec_cases [OF x]
  show "sess_table db' = sess_table db" "sess_clock db' = sess_clock db" "sess_ticks db' = sess_ticks db"
    using f by (auto split: sum.splits option.splits)
  show "r = Inr (Some s) \<Longrightarrow> sess_ID s = c \<and> holder db c = Some (sess_UserID s, sess_Expiry s)"
    using f r by (auto simp: holder_def row_holder_find sess_rows_def split: sum.splits if_splits option.splits)
  assume "sess_pending db = 0" "sess_table db \<noteq> None"
  then obtain rows where rows: "sess_table db = Some rows" by blast
  from sess_exec_quiet [OF \<open>sess_pending db = 0\<close> rows, of ?q] x
  have "x = (case ?q rows of Inl e \<Rightarrow> Inl e | Inr (v, _) \<Rightarrow> Inr v)" "sess_pending db' = 0" by auto
  then show "sess_pending db' = 0 \<and> r = Inr (map_option (\<lambda>(u, e). \<lparr>sess_ID = c, sess_UserID = u, sess_Expiry = e\<rparr>) (holder db c))"
    using r by (cases "find (\<lambda>r. row_id r = c) rows") (simp_all add: holder_def row_holder_find sess_rows_def rows)
qed

lemma Store_Delete_holder:
  assumes "Store_Delete s db = (err, db')" and "sess_ok db"
  shows "sess_ok db'" and "err = None \<Longrightarrow> holder db' = (holder db)(sess_ID s := None)"
    and "err \<noteq> None \<Longrightarrow> holder db' = holder db"
    and "sess_pending db = 0 \<Longrightarrow> sess_table db \<noteq> None \<Longrightarrow> err = None \<and> sess_pending db' = 0"
    and "sess_table db \<noteq> None \<Longrightarrow> sess_table db' \<noteq> None" and "sess_clock db' = sess_clock db" and "sess_ticks db' = sess_ticks db"
proof -
  let ?q = "\<lambda>rows. Inr ((), filter (\<lambda>r. row_id r \<noteq> sess_ID s) rows)"
  obtain x where x: "sess_exec ?q db = (x, db')" and r: "err = (case x of Inl e \<Rightarrow> Some e | Inr _ \<Rightarrow> None)"
    using assms(1) by (auto simp: Store_Delete_def split: prod.splits sum.splits)
  note f = sess_exec_cases [OF x]
  show "sess_ok db'" "err = None \<Longrightarrow> holder db' = (holder db)(sess_ID s := None)" "err \<noteq> None \<Longrightarrow> holder db' = holder db"
    "sess_table db \<noteq> None \<Longrightarrow> sess_table db' \<noteq> None" "sess_clock db' = sess_clock db" "sess_ticks db' = sess_ticks db"
    using f r assms(2) by (auto simp: holder_def sess_ok_def sess_rows_def row_holder_delete distinct_map_filterI split: sum.splits)
  assume "sess_pending db = 0" "sess_table db \<noteq> None"
  with sess_exec_quiet [of db _ ?q] x r show "err = None \<and> sess_pending db' = 0" by fastforce
qed

text \<open>
  A request is answered with a session exactly when its cookie has a holder whose time has not
  come; nobody else's session is affected.
\<close>

lemma RequestSession_holder:
  assumes "RequestSession cookie db = (r, db')" and "sess_ok db"
  shows "sess_ok db'"
    and "r = Some s \<Longrightarrow> cookie = Some (sess_ID s) \<and> holder db (sess_ID s) = Some (sess_UserID s, sess_Expiry s)
      \<and> sess_clock db (sess_ticks db) \<le> sess_Expiry s \<and> holder db' = holder db"
    and "holder db' \<subseteq>\<^sub>m holder db"
proof -
  have "sess_ok db' \<and> (\<forall>s. r = Some s \<longrightarrow> cookie = Some (sess_ID s) \<and> holder db (sess_ID s) = Some (sess_UserID s, sess_Expiry s)
      \<and> sess_clock db (sess_ticks db) \<le> sess_Expiry s \<and> holder db' = holder db) \<and> holder db' \<subseteq>\<^sub>m holder db"
  proof (cases cookie)
    case None
    with assms show ?thesis by (simp add: RequestSession_def)
  next
    case (Some c)
    obtain x db1 where x: "Store_Find c db = (x, db1)" by fastforce
    note f = Store_Find_holder [OF x]
    have same: "holder db1 = holder db" "sess_ok db1" using f(1) assms(2) by (simp_all add: holder_def sess_ok_def sess_rows_def)
    consider (none) "r = None" "db' = db1" | (some) s where "x = Inr (Some s)" by (cases x; cases "projr x") (use assms Some x in \<open>auto simp: RequestSession_def\<close>)
    then show ?thesis
    proof cases
      case none
      then show ?thesis using same by simp
    next
      case (some s)
      let ?db2 = "db1\<lparr>sess_ticks := Suc (sess_ticks db1)\<rparr>"
      have ok2: "sess_ok ?db2" "holder ?db2 = holder db" using same by (simp_all add: sess_ok_def holder_def sess_rows_def)
      note fs = f(4) [OF some]
      show ?thesis
      proof (cases "sess_Expiry s < sess_clock db1 (sess_ticks db1)")
        case True
        obtain err db3 where d: "Store_Delete s ?db2 = (err, db3)" by fastforce
        then have "r = None" "db' = db3" using assms(1) Some x some True by (simp_all add: RequestSession_def Session_Expired_def sess_now_def)
        moreover have "holder db3 \<subseteq>\<^sub>m holder db"
          using Store_Delete_holder(2,3) [OF d ok2(1)] ok2(2) by (cases err) (auto simp: map_le_def)
        ultimately show ?thesis using Store_Delete_holder(1) [OF d ok2(1)] by simp
      next
        case False
        then have "r = Some s" "db' = ?db2" using assms(1) Some x some by (simp_all add: RequestSession_def Session_Expired_def sess_now_def)
        then show ?thesis using ok2 fs False Some f(2,3) by auto
      qed
    qed
  qed
  then show "sess_ok db'" "r = Some s \<Longrightarrow> cookie = Some (sess_ID s) \<and> holder db (sess_ID s) = Some (sess_UserID s, sess_Expiry s)
      \<and> sess_clock db (sess_ticks db) \<le> sess_Expiry s \<and> holder db' = holder db" "holder db' \<subseteq>\<^sub>m holder db" by blast+
qed

lemma RequestSession_live:
  assumes "sess_pending db = 0" and "sess_table db \<noteq> None" and "holder db c = Some (u, e)"
    and "sess_clock db (sess_ticks db) \<le> e"
  shows "\<exists>db'. RequestSession (Some c) db = (Some \<lparr>sess_ID = c, sess_UserID = u, sess_Expiry = e\<rparr>, db')
    \<and> sess_pending db' = 0 \<and> sess_table db' = sess_table db"
proof -
  obtain x db1 where x: "Store_Find c db = (x, db1)" by fastforce
  note f = Store_Find_holder [OF x]
  have r: "x = Inr (Some \<lparr>sess_ID = c, sess_UserID = u, sess_Expiry = e\<rparr>)" "sess_pending db1 = 0"
    using f(5) [OF assms(1,2)] assms(3) by simp_all
  then show ?thesis using x assms(4) f(1-3) by (simp add: RequestSession_def Session_Expired_def sess_now_def)
qed

lemma RequestSession_dead:
  assumes "holder db c = None"
  shows "fst (RequestSession (Some c) db) = None"
proof -
  obtain x db1 where x: "Store_Find c db = (x, db1)" by fastforce
  have "x \<noteq> Inr (Some s)" for s using Store_Find_holder(4) [OF x] assms by auto
  then show ?thesis using x by (auto simp: RequestSession_def split: sum.splits option.splits)
qed

lemma NewSession_holder:
  assumes "NewSession uid db = ((s, err, ck), db')" and "sess_ok db"
  shows "sess_ok db'" and "sess_UserID s = uid" and "sess_Expiry s = sess_clock db (sess_ticks db) + sessionLength"
    and "cookie_Value ck = sess_ID s" and "cookie_Name ck = sessionCookieName"
    and "err = None \<Longrightarrow> holder db (sess_ID s) = None \<and> holder db' = (holder db)(sess_ID s \<mapsto> (uid, sess_Expiry s div nanos * nanos))"
    and "err \<noteq> None \<Longrightarrow> holder db' = holder db"
    and "sess_table db \<noteq> None \<Longrightarrow> sess_table db' \<noteq> None"
    and "sess_pending db = 0 \<Longrightarrow> err = None \<Longrightarrow> sess_pending db' = 0"
proof -
  let ?db1 = "db\<lparr>sess_ticks := Suc (sess_ticks db)\<rparr>"
  let ?db2 = "?db1\<lparr>sess_drawn := sess_drawn db + sessionIDLength\<rparr>"
  have s: "sess_UserID s = uid" "sess_Expiry s = sess_clock db (sess_ticks db) + sessionLength" "cookie_Value ck = sess_ID s"
    "cookie_Name ck = sessionCookieName" and save: "Store_Save s ?db2 = (err, db')"
    using assms(1) by (auto simp: NewSession_def sess_now_def SessionID_generate_def Let_def split: prod.splits)
  have same: "sess_ok ?db2" "holder ?db2 = holder db" "sess_table ?db2 = sess_table db"
    using assms(2) by (simp_all add: sess_ok_def holder_def sess_rows_def)
  note h = Store_Save_holder [OF save same(1)]
  show "sess_UserID s = uid" "sess_Expiry s = sess_clock db (sess_ticks db) + sessionLength" "cookie_Value ck = sess_ID s"
    "cookie_Name ck = sessionCookieName" by (fact s)+
  show "sess_ok db'" by (rule h(1))
  show "err = None \<Longrightarrow> holder db (sess_ID s) = None \<and> holder db' = (holder db)(sess_ID s \<mapsto> (uid, sess_Expiry s div nanos * nanos))"
    using h(2,4) same(2) s(1) by simp
  show "err \<noteq> None \<Longrightarrow> holder db' = holder db" using h(3) by (simp add: holder_def sess_rows_def)
  let ?ins = "\<lambda>rows. if sess_ID s \<in> row_id ` set rows then Inl (Sqlite (SqliteError code_Constraint code_PrimaryKey))
        else Inr ((), rows @ [\<lparr>row_id = sess_ID s, row_userid = sess_UserID s, row_expiryts = sess_Expiry s div nanos\<rparr>])"
  obtain r where x: "sess_exec ?ins ?db2 = (r, db')" using save by (auto simp: Store_Save_def split: prod.splits sum.splits)
  show "sess_table db \<noteq> None \<Longrightarrow> sess_table db' \<noteq> None" using sess_exec_cases [OF x] by (auto split: sum.splits)
  show "sess_pending db' = 0" if "sess_pending db = 0" "err = None"
  proof -
    have "sess_table ?db2 \<noteq> None" using sess_exec_cases [OF x] save x that(2) by (auto simp: Store_Save_def split: sum.splits prod.splits)
    then obtain rows where "sess_table ?db2 = Some rows" by blast
    from sess_exec_quiet [OF _ this, of ?ins] that(1) x show ?thesis by auto
  qed
qed


definition sample_sessions :: session_db where
  "sample_sessions = \<lparr>attributes = Some [(''SchemaVersion'', ''1'')], sess_table = Some [], sess_faults = [],
     sess_clock = (\<lambda>n. int n * nanos), sess_ticks = 0, sess_entropy = (\<lambda>n. of_nat n), sess_drawn = 0\<rparr>"

lemma sample_sessions_ok: "sess_ok sample_sessions" "sess_pending sample_sessions = 0" "sess_table sample_sessions \<noteq> None"
  by (simp_all add: sample_sessions_def sess_ok_def sess_rows_def sess_pending_def)


section \<open>Histories\<close>

text \<open>
  The store over time, with the record of what was issued: the cookie, the user it was issued to
  and its expiry. Sessions are created, asked for, renewed and deleted in any order, by anybody,
  with any cookies and under any faults.
\<close>

inductive sess_history :: "(string \<times> string \<times> int) set \<Rightarrow> session_db \<Rightarrow> bool" where
  opened: "sess_rows db = [] \<Longrightarrow> sess_history {} db"
| new: "sess_history H db \<Longrightarrow> NewSession uid db = ((s, err, ck), db') \<Longrightarrow>
    sess_history (insert (cookie_Value ck, uid, cookie_Expires ck) H) db'"
| requested: "sess_history H db \<Longrightarrow> RequestSession c db = (r, db') \<Longrightarrow> sess_history H db'"
| found: "sess_history H db \<Longrightarrow> FindOrCreateSession c uid db = ((s, err, None), db') \<Longrightarrow> sess_history H db'"
| created: "sess_history H db \<Longrightarrow> FindOrCreateSession c uid db = ((s, err, Some ck), db') \<Longrightarrow>
    sess_history (insert (cookie_Value ck, uid, cookie_Expires ck) H) db'"
| deleted: "sess_history H db \<Longrightarrow> DeleteSessionByRequest c db = (err, db') \<Longrightarrow> sess_history H db'"

text \<open>Every row of the store was issued, and expires no later than was said.\<close>

definition sess_inv :: "(string \<times> string \<times> int) set \<Rightarrow> session_db \<Rightarrow> bool" where
  "sess_inv H db \<longleftrightarrow> sess_ok db \<and> (\<forall>c u e. holder db c = Some (u, e) \<longrightarrow> (\<exists>e' \<ge> e. (c, u, e') \<in> H))"

lemma sess_inv_shrink:
  assumes "sess_inv H db" and "sess_ok db'" and "holder db' \<subseteq>\<^sub>m holder db"
  shows "sess_inv H db'"
  using assms unfolding sess_inv_def map_le_def by (metis domIff option.distinct(1))

lemma sess_inv_new:
  assumes inv: "sess_inv H db" and new: "NewSession uid db = ((s, err, ck), db')"
  shows "sess_inv (insert (cookie_Value ck, uid, cookie_Expires ck) H) db'"
proof -
  have ok: "sess_ok db" using inv by (simp add: sess_inv_def)
  note n = NewSession_holder [OF new ok]
  have exp: "cookie_Expires ck = sess_Expiry s"
    using new by (auto simp: NewSession_def sess_now_def SessionID_generate_def Let_def split: prod.splits)
  have "sess_Expiry s div nanos * nanos \<le> sess_Expiry s"
    using pos_mod_sign [of nanos "sess_Expiry s"] div_mult_mod_eq [of "sess_Expiry s" nanos] by (simp add: nanos_def)
  moreover have "holder db' c = Some (u, e) \<Longrightarrow> holder db c = Some (u, e) \<or> (c, u, e) = (sess_ID s, uid, sess_Expiry s div nanos * nanos)" for c u e
    using n(6,7) by (cases err) (auto split: if_splits)
  ultimately have "holder db' c = Some (u, e) \<Longrightarrow> \<exists>e' \<ge> e. (c, u, e') \<in> insert (cookie_Value ck, uid, cookie_Expires ck) H" for c u e
    using inv unfolding sess_inv_def n(4) exp by (metis Pair_inject insertCI)
  then show ?thesis using n(1) unfolding sess_inv_def by blast
qed

lemma sess_history_inv: "sess_history H db \<Longrightarrow> sess_inv H db"
proof (induction rule: sess_history.induct)
  case (opened db)
  then show ?case by (simp add: sess_inv_def sess_ok_def holder_def row_holder_def)
next
  case (new H db uid s err ck db')
  then show ?case by (intro sess_inv_new)
next
  case (requested H db c r db')
  then show ?case using RequestSession_holder(1,3) [OF requested.hyps(2)] sess_inv_shrink sess_inv_def by blast
next
  case (found H db c uid s err db')
  obtain r db1 where r: "RequestSession c db = (r, db1)" by fastforce
  with found.hyps(2) have "db' = db1" by (auto simp: FindOrCreateSession_def Let_def split: option.splits if_splits prod.splits)
  then show ?case using RequestSession_holder(1,3) [OF r] sess_inv_shrink found.IH sess_inv_def by blast
next
  case (created H db c uid s err ck db')
  obtain r db1 where r: "RequestSession c db = (r, db1)" by fastforce
  with created.hyps(2) have "NewSession uid db1 = ((s, err, ck), db')"
    by (auto simp: FindOrCreateSession_def Let_def split: option.splits if_splits prod.splits)
  moreover have "sess_inv H db1" using RequestSession_holder(1,3) [OF r] sess_inv_shrink created.IH sess_inv_def by blast
  ultimately show ?case by (intro sess_inv_new)
next
  case (deleted H db c err db')
  obtain r db1 where r: "RequestSession c db = (r, db1)" by fastforce
  have inv1: "sess_inv H db1" using RequestSession_holder(1,3) [OF r] sess_inv_shrink deleted.IH sess_inv_def by blast
  show ?case
  proof (cases r)
    case None
    then show ?thesis using deleted.hyps(2) r inv1 by (simp add: DeleteSessionByRequest_def)
  next
    case (Some s)
    then have d: "Store_Delete s db1 = (err, db')" using deleted.hyps(2) r by (simp add: DeleteSessionByRequest_def)
    have ok: "sess_ok db1" using inv1 by (simp add: sess_inv_def)
    have "holder db' \<subseteq>\<^sub>m holder db1" using Store_Delete_holder(2,3) [OF d ok] by (cases err) (auto simp: map_le_def)
    then show ?thesis using sess_inv_shrink [OF inv1 Store_Delete_holder(1) [OF d ok]] by blast
  qed
qed

text \<open>
  C31: Nobody is taken for somebody else. Whatever happened before, a request is only ever answered
  with a session of a user to whom exactly this cookie was issued, and not after the time at which
  the cookie expires.
\<close>

theorem session_authentic:
  assumes "sess_history H db" and "RequestSession c db = (Some s, db')"
  shows "\<exists>e. c = Some (sess_ID s) \<and> (sess_ID s, sess_UserID s, e) \<in> H \<and> sess_clock db (sess_ticks db) \<le> e"
proof -
  have inv: "sess_inv H db" by (rule sess_history_inv [OF assms(1)])
  then have "sess_ok db" by (simp add: sess_inv_def)
  from RequestSession_holder(2) [OF assms(2) this refl] inv show ?thesis
    unfolding sess_inv_def by (meson order_trans)
qed

theorem session_authentic_witness:
  "\<exists>(ck :: Cookie) db1 s' db2. sess_history {(cookie_Value ck, ''usr_a'', cookie_Expires ck)} db1 \<and>
     RequestSession (Some (cookie_Value ck)) db1 = (Some s', db2) \<and> sess_UserID s' = ''usr_a''
     \<and> sess_clock db1 (sess_ticks db1) \<le> cookie_Expires ck"
proof -
  obtain s err ck db1 where x: "NewSession ''usr_a'' sample_sessions = ((s, err, ck), db1)" by (metis surj_pair)
  have h: "sess_history {(cookie_Value ck, ''usr_a'', cookie_Expires ck)} db1"
    by (rule sess_history.new [OF sess_history.opened x]) (simp add: sess_rows_def sample_sessions_def)
  have "\<exists>s'. fst (RequestSession (Some (cookie_Value ck)) db1) = Some s'"
    using x by (auto simp: NewSession_def sess_now_def SessionID_generate_def Store_Save_def sess_exec_def sess_fault_def
        sample_sessions_def Let_def RequestSession_def Store_Find_def Session_Expired_def nanos_def sessionLength_def split: prod.splits)
  then obtain s' db2 where r: "RequestSession (Some (cookie_Value ck)) db1 = (Some s', db2)" by (metis prod.collapse)
  from session_authentic [OF h r] have "sess_UserID s' = ''usr_a''" "sess_clock db1 (sess_ticks db1) \<le> cookie_Expires ck" by auto
  with h r show ?thesis by blast
qed

end
