(* ===== verification/Url_Text.thy ===== *)
theory Url_Text
  imports Go_Text
begin

text \<open>
  The escaping of Go's \<^verbatim>\<open>net/url\<close> that the login redirect uses: \<open>QueryEscape\<close> and \<open>QueryUnescape\<close>, byte by
  byte, and that the second undoes the first.
\<close>

definition unreserved :: "char \<Rightarrow> bool" where
  "unreserved c \<longleftrightarrow> (CHR ''a'' \<le> c \<and> c \<le> CHR ''z'') \<or> (CHR ''A'' \<le> c \<and> c \<le> CHR ''Z'') \<or> (CHR ''0'' \<le> c \<and> c \<le> CHR ''9'')
     \<or> c \<in> set ''-_.~''"

definition upperhex :: string where "upperhex = ''0123456789ABCDEF''"

definition escape_byte :: "char \<Rightarrow> string" where
  "escape_byte c =
    (if unreserved c then [c] else if c = CHR '' '' then ''+''
     else [CHR ''%'', upperhex ! (of_char c div 16), upperhex ! (of_char c mod 16)])"

definition QueryEscape :: "string \<Rightarrow> string" where
  "QueryEscape s = concat (map escape_byte s)"

definition unhex :: "char \<Rightarrow> nat option" where
  "unhex c =
    (if CHR ''0'' \<le> c \<and> c \<le> CHR ''9'' then Some (of_char c - 48)
     else if CHR ''a'' \<le> c \<and> c \<le> CHR ''f'' then Some (of_char c - 97 + 10)
     else if CHR ''A'' \<le> c \<and> c \<le> CHR ''F'' then Some (of_char c - 65 + 10) else None)"

text \<open>\<open>None\<close> is the \<open>EscapeError\<close> of a percent sign without two hexadecimal digits.\<close>

fun QueryUnescape :: "string \<Rightarrow> string option" where
  "QueryUnescape [] = Some []"
| "QueryUnescape (c # cs) =
    (if c = CHR ''%'' then
       (case cs of
          a # b # rest \<Rightarrow>
            (case (unhex a, unhex b) of
               (Some x, Some y) \<Rightarrow> map_option ((#) (char_of (16 * x + y))) (QueryUnescape rest)
             | _ \<Rightarrow> None)
        | _ \<Rightarrow> None)
     else map_option ((#) (if c = CHR ''+'' then CHR '' '' else c)) (QueryUnescape cs))"

lemma unhex_upperhex: "n < 16 \<Longrightarrow> unhex (upperhex ! n) = Some n"
proof -
  have "list_all (\<lambda>n. unhex (upperhex ! n) = Some n) [0..<16]" by code_simp
  then show "n < 16 \<Longrightarrow> unhex (upperhex ! n) = Some n" by (simp add: list_all_iff)
qed

lemma unreserved_plain: "unreserved c \<Longrightarrow> c \<noteq> CHR ''%'' \<and> c \<noteq> CHR ''+''"
  by (auto simp: unreserved_def less_eq_char_def)

lemma QueryUnescape_QueryEscape: "QueryUnescape (QueryEscape s) = Some s"
proof (induction s)
  case (Cons c s)
  have "of_char c < (256::nat)" by simp
  then have "of_char c div 16 < (16::nat)" by (simp only: div_less_iff_less_mult)
  then have "unhex (upperhex ! (of_char c div 16)) = Some (of_char c div 16)"
    "unhex (upperhex ! (of_char c mod 16)) = Some (of_char c mod 16)"
    by (simp_all add: unhex_upperhex)
  with Cons unreserved_plain [of c] show ?case
    by (auto simp: QueryEscape_def escape_byte_def)
qed (simp add: QueryEscape_def)

end
