(* ===== verification/Web_Server.thy ===== *)
theory Web_Server
  imports Display Effects Key_Value Web_Sessions Url_Text
begin

text \<open>
  The web server's state and what every handler uses: requests, replies, the user behind a request
  (\<open>RequestUser\<close>, \<open>RequireLogin\<close> of \<^verbatim>\<open>middleware.go\<close>) and pages (\<open>RenderTemplate\<close> of \<^verbatim>\<open>template.go\<close>).

  A server is the three stores it works on: the event database with its engine, the configuration
  store and the session store; and the response to the current request, as the list of what was
  written to it. A handler runs on the server and may end in a panic, which \<^verbatim>\<open>net/http\<close> confines to
  the request, or in the exit of the process. A page is its template's name and data; executing
  the template is not modelled. Requests are handled one after the other.
\<close>

section \<open>Requests and replies\<close>

type_synonym url_values = "(string \<times> string list) list"

definition Values_Get :: "url_values \<Rightarrow> string \<Rightarrow> string" where
  "Values_Get vs key = (case map_of vs key of Some (v # _) \<Rightarrow> v | _ \<Rightarrow> '''')"

record request =
  req_Method :: string
  req_Path :: string
  req_URL :: string
  req_Query :: url_values
  req_Form :: url_values
  req_Cookie :: "string option"

definition FormValue :: "request \<Rightarrow> string \<Rightarrow> string" where
  "FormValue r key = Values_Get (req_Form r) key"

definition FormValues :: "request \<Rightarrow> string \<Rightarrow> string list" where
  "FormValues r key = (case map_of (req_Form r) key of None \<Rightarrow> [] | Some vs \<Rightarrow> vs)"

text \<open>The values handed to templates.\<close>

datatype tvalue =
    TString string | TBool bool | TStrings "string list" | TError error | TUser "User option"
  | TProfile UserProfile | TDiscussion "DiscussionDisplay option" | TDiscussions "DiscussionDisplay list"
  | TUserDisplay UserDisplay | TUsers "UserDisplay list" | TTimetable Timetable
  | TLocations "Location list" | TSlots "DisplaySlot list"

datatype reply =
    SetCookie Cookie
  | Redirect string
  | Page string "(string \<times> tvalue) list"
  | ServeFile string
  | NotFoundPage

record server =
  sv_event :: world
  sv_kvs :: kv_file
  sv_sessions :: session_db
  sv_replies :: "reply list"
  sv_written :: bool

datatype abort = Panicked error | Exited string

type_synonym 'a web = "server \<Rightarrow> (abort + 'a) \<times> server"

section \<open>Running handlers\<close>

definition web_return :: "'a \<Rightarrow> 'a web" where
  "web_return v sv = (Inr v, sv)"

definition web_bind :: "'a web \<Rightarrow> ('a \<Rightarrow> 'b web) \<Rightarrow> 'b web" where
  "web_bind m f sv = (case m sv of (Inl a, sv') \<Rightarrow> (Inl a, sv') | (Inr v, sv') \<Rightarrow> f v sv')"

definition web_panic :: "error \<Rightarrow> 'a web" where
  "web_panic e sv = (Inl (Panicked e), sv)"

definition web_exit :: "string \<Rightarrow> 'a web" where
  "web_exit msg sv = (Inl (Exited msg), sv)"

text \<open>Writing to the wrapped response writer, which notes that something was written, or past it.\<close>

definition web_write :: "reply \<Rightarrow> unit web" where
  "web_write x sv = (Inr (), sv\<lparr>sv_replies := sv_replies sv @ [x], sv_written := True\<rparr>)"

definition raw_write :: "reply \<Rightarrow> unit web" where
  "raw_write x sv = (Inr (), sv\<lparr>sv_replies := sv_replies sv @ [x]\<rparr>)"

text \<open>Calls into the packages. A panic below goes through the caller.\<close>

definition event_get :: "(world \<Rightarrow> 'a \<times> world) \<Rightarrow> 'a web" where
  "event_get m sv = (case m (sv_event sv) of (v, w) \<Rightarrow> (Inr v, sv\<lparr>sv_event := w\<rparr>))"

definition event_call :: "'a tx \<Rightarrow> (error + 'a) web" where
  "event_call m sv =
    (case m (sv_event sv) of
       (Inl (Panic msg), w) \<Rightarrow> (Inl (Panicked (Panic msg)), sv\<lparr>sv_event := w\<rparr>)
     | (r, w) \<Rightarrow> (Inr r, sv\<lparr>sv_event := w\<rparr>))"

definition kv_call :: "(kv_file \<Rightarrow> 'a \<times> kv_file) \<Rightarrow> 'a web" where
  "kv_call m sv = (case m (sv_kvs sv) of (v, f) \<Rightarrow> (Inr v, sv\<lparr>sv_kvs := f\<rparr>))"

definition sess_call :: "(session_db \<Rightarrow> 'a \<times> session_db) \<Rightarrow> 'a web" where
  "sess_call m sv = (case m (sv_sessions sv) of (v, db) \<Rightarrow> (Inr v, sv\<lparr>sv_sessions := db\<rparr>))"

section \<open>The user behind a request\<close>

text \<open>What the process is given or has set up at its start.\<close>

record web_env =
  we_display :: display_env
  we_bcrypt :: bcrypt
  DefaultLocation :: string
  TimezoneList :: "string list"
  sort_Slice :: "(nat \<Rightarrow> int) \<Rightarrow> nat list \<Rightarrow> nat list"
  empty_NamedExec :: "unit stmt"

abbreviation we_tz :: "web_env \<Rightarrow> tz_env" where
  "we_tz env \<equiv> denv_tz (we_display env)"

definition RequestUser :: "web_env \<Rightarrow> request \<Rightarrow> User option web" where
  "RequestUser env r =
    web_bind (sess_call (RequestSession (req_Cookie r))) (\<lambda>session.
    case session of
      None \<Rightarrow> web_return None
    | Some s \<Rightarrow>
        if sess_UserID s = '''' then web_return None
        else web_bind (event_call (UserFind (we_tz env) (sess_UserID s))) (\<lambda>u.
             case u of Inl err \<Rightarrow> web_panic err | Inr user \<Rightarrow> web_return user))"

definition RequireLogin :: "request \<Rightarrow> unit web" where
  "RequireLogin r = web_write (Redirect (''/login?next='' @ QueryEscape (QueryEscape (req_URL r))))"

section \<open>Pages\<close>

definition FlagTestMode :: string where "FlagTestMode = ''ServeTestMode''"
definition FlagActive :: string where "FlagActive = ''ServeActive''"
definition FlagScheduleActive :: string where "FlagScheduleActive = ''ServeScheduleActive''"
definition FlagVerificationCodeSent :: string where "FlagVerificationCodeSent = ''ServeVerificationCodeSent''"
definition FlagRequireVerification :: string where "FlagRequireVerification = ''ServeRequireVerification''"
definition VerificationCode :: string where "VerificationCode = ''ServeVerificationCode''"

definition RenderTemplate :: "web_env \<Rightarrow> request \<Rightarrow> string \<Rightarrow> (string \<times> tvalue) list \<Rightarrow> unit web" where
  "RenderTemplate env r name data =
    web_bind (RequestUser env r) (\<lambda>cur.
    web_bind (kv_call (kv_GetBoolDef FlagTestMode)) (\<lambda>test.
    web_bind (kv_call (kv_GetBoolDef FlagActive)) (\<lambda>active.
    web_bind (kv_call (kv_GetBoolDef FlagScheduleActive)) (\<lambda>sched.
    web_bind (kv_call (kv_GetBoolDef FlagVerificationCodeSent)) (\<lambda>sent.
    web_bind (kv_call (kv_GetBoolDef FlagRequireVerification)) (\<lambda>need.
    web_bind (kv_call (kv_GetBoolDef FlagActive)) (\<lambda>active2.
    web_write (Page name
      (AList.update ''CurrentUser'' (TUser cur)
      (AList.update ''Flash'' (TString (Values_Get (req_Query r) ''flash''))
      (AList.update ''IsTestMode'' (TBool test)
      (AList.update ''IsWebsiteActive'' (TBool active)
      (AList.update ''IsScheduleActive'' (TBool sched)
      (AList.update ''IsVcodeSent'' (TBool sent)
      (AList.update ''RequireVerification'' (TBool need)
      (AList.update ''ShowToolbar'' (TBool (active2 \<or> (case cur of None \<Rightarrow> False | Some u \<Rightarrow> IsAdmin u))) data)))))))))))))))) "

section \<open>Relations between states of the server\<close>

text \<open>
  Proofs about handlers are about how the server changes. A handler meets a relation if every run of
  it does, the runs that end in a panic included. The rules hold for every relation that is reflexive
  and transitive and allows what reading does: no store changes, but sessions that have expired may go.
\<close>

definition same_state :: "server \<Rightarrow> server \<Rightarrow> bool" where
  "same_state sv sv' \<longleftrightarrow> committed (sv_event sv') = committed (sv_event sv) \<and> kv_table (sv_kvs sv') = kv_table (sv_kvs sv)
     \<and> (sess_ok (sv_sessions sv) \<longrightarrow> sess_ok (sv_sessions sv') \<and> holder (sv_sessions sv') \<subseteq>\<^sub>m holder (sv_sessions sv))"

lemma same_state_refl [simp]: "same_state sv sv"
  by (simp add: same_state_def)

lemma same_state_trans: "same_state a b \<Longrightarrow> same_state b c \<Longrightarrow> same_state a c"
  by (auto simp: same_state_def intro: map_le_trans)

definition web_rel :: "(server \<Rightarrow> server \<Rightarrow> bool) \<Rightarrow> 'a web \<Rightarrow> bool" where
  "web_rel R m \<longleftrightarrow> (\<forall>sv r sv'. m sv = (r, sv') \<longrightarrow> R sv sv')"

lemma web_relI: "(\<And>sv r sv'. m sv = (r, sv') \<Longrightarrow> R sv sv') \<Longrightarrow> web_rel R m"
  by (simp add: web_rel_def)

lemma web_relD: "web_rel R m \<Longrightarrow> m sv = (r, sv') \<Longrightarrow> R sv sv'"
  by (simp add: web_rel_def)

named_theorems web_reads \<open>calls that change no store\<close>

locale server_rel =
  fixes R :: "server \<Rightarrow> server \<Rightarrow> bool"
  assumes rel_trans: "R a b \<Longrightarrow> R b c \<Longrightarrow> R a c" and rel_same: "same_state a b \<Longrightarrow> R a b"
begin

lemma rel_refl: "R sv sv"
  by (simp add: rel_same)

lemma reading: "web_rel same_state m \<Longrightarrow> web_rel R m"
  by (auto simp: web_rel_def intro: rel_same)

lemma return: "web_rel R (web_return v)"
  by (simp add: web_rel_def web_return_def rel_refl)

lemma panic: "web_rel R (web_panic e)"
  by (simp add: web_rel_def web_panic_def rel_refl)

lemma exit: "web_rel R (web_exit msg)"
  by (simp add: web_rel_def web_exit_def rel_refl)

lemma writes: "web_rel R (web_write x)" "web_rel R (raw_write x)"
  by (auto simp: web_rel_def web_write_def raw_write_def same_state_def intro!: rel_same)

lemma bind:
  assumes "web_rel R m" and "\<And>v. web_rel R (f v)"
  shows "web_rel R (web_bind m f)"
proof (rule web_relI)
  fix sv r sv' assume run: "web_bind m f sv = (r, sv')"
  obtain x sv1 where m: "m sv = (x, sv1)" by fastforce
  show "R sv sv'"
  proof (cases x)
    case (Inl a)
    with run m web_relD [OF assms(1) m] show ?thesis by (simp add: web_bind_def)
  next
    case (Inr v)
    with run m have "f v sv1 = (r, sv')" by (simp add: web_bind_def)
    with web_relD [OF assms(2)] web_relD [OF assms(1) m] show ?thesis by (blast intro: rel_trans)
  qed
qed

lemma cond: "(b \<Longrightarrow> web_rel R m1) \<Longrightarrow> (\<not> b \<Longrightarrow> web_rel R m2) \<Longrightarrow> web_rel R (if b then m1 else m2)"
  by simp

lemma case_option:
  "web_rel R m \<Longrightarrow> (\<And>v. x = Some v \<Longrightarrow> web_rel R (f v)) \<Longrightarrow> web_rel R (case x of None \<Rightarrow> m | Some v \<Rightarrow> f v)"
  by (cases x) auto

lemma case_sum:
  "(\<And>e. web_rel R (f e)) \<Longrightarrow> (\<And>v. web_rel R (g v)) \<Longrightarrow> web_rel R (case x of Inl e \<Rightarrow> f e | Inr v \<Rightarrow> g v)"
  by (cases x) auto

lemma case_prod: "(\<And>a b. web_rel R (f a b)) \<Longrightarrow> web_rel R (case p of (a, b) \<Rightarrow> f a b)"
  by (cases p) auto

lemmas steps = return panic exit writes bind cond case_option case_sum case_prod

end

interpretation pages: server_rel same_state
  by unfold_locales (blast intro: same_state_trans)+

declare pages.steps [web_reads]

lemma kv_call_reads [web_reads]: "web_rel same_state (kv_call (kv_Get k))" "web_rel same_state (kv_call (kv_GetBoolDef k))"
proof -
  have g: "kv_table f' = kv_table f" if "kv_Get k f = (r, f')" for f f' r
    using that by (auto simp: kv_Get_def kv_exec_def kv_get_def kv_fault_def split: list.splits option.splits)
  show "web_rel same_state (kv_call (kv_Get k))" "web_rel same_state (kv_call (kv_GetBoolDef k))"
    by (auto simp: web_rel_def kv_call_def kv_GetBoolDef_def same_state_def split: prod.splits dest!: g)
qed

lemma event_get_reads [web_reads]: "only_reads m \<Longrightarrow> web_rel same_state (event_get m)"
  by (auto simp: web_rel_def event_get_def same_state_def dest: only_readsD split: prod.splits)
     (auto simp: same_view_def dest: only_readsD)

lemma event_call_run:
  assumes "event_call m sv = (r, sv')"
  obtains x w where "m (sv_event sv) = (x, w)" and "sv' = sv\<lparr>sv_event := w\<rparr>" and "\<And>v. r = Inr v \<Longrightarrow> x = v"
  using assms by (auto simp: event_call_def split: prod.splits sum.splits error.splits)

lemma event_call_reads [web_reads]: "only_reads m \<Longrightarrow> web_rel same_state (event_call m)"
  by (rule web_relI) (auto simp: same_state_def same_view_def dest: only_readsD elim!: event_call_run)

lemma RequestSession_reads [web_reads]: "web_rel same_state (sess_call (RequestSession c))"
  by (rule web_relI) (auto simp: sess_call_def same_state_def split: prod.splits dest: RequestSession_holder(1,3))

lemma RequestUser_reads [web_reads]: "web_rel same_state (RequestUser env r)"
  unfolding RequestUser_def by (intro web_reads reads)

lemma RequireLogin_reads [web_reads]: "web_rel same_state (RequireLogin r)"
  unfolding RequireLogin_def by (intro web_reads)

lemma RenderTemplate_reads [web_reads]: "web_rel same_state (RenderTemplate env r name data)"
  unfolding RenderTemplate_def by (intro web_reads)

section \<open>What is found\<close>

text \<open>The row of a user, up to the zone, which is loaded anew.\<close>

definition is_user :: "database \<Rightarrow> User \<Rightarrow> bool" where
  "is_user d u \<longleftrightarrow> (\<exists>row \<in> set (event_users d). u = row\<lparr>UserLocation := UserLocation u\<rparr>)"

lemma is_userD:
  assumes "is_user d u"
  obtains row where "row \<in> set (event_users d)" "UserID row = UserID u" "IsAdmin row = IsAdmin u"
    "Username row = Username u" "HashedPassword row = HashedPassword u" "IsVerified row = IsVerified u"
  using assms by (auto simp: is_user_def) (metis User.select_convs User.surjective User.update_convs(10))

lemma get_user_row:
  assumes "sql_get_user tz q d = Inr (u, d')"
  shows "d' = d \<and> (\<exists>row \<in> set (q d). u = row\<lparr>UserLocation := UserLocation u\<rparr>)"
  using assms by (auto simp: sql_get_user_def scan_user_def split: list.splits sum.splits)

interpretation user_find: tx_contract "UserFind_body tz uid" "\<lambda>_. True"
  "\<lambda>d v d'. d' = d \<and> (\<forall>u. v = Some u \<longrightarrow> is_user d u \<and> UserID u = uid)" "\<lambda>_ _. True" for tz uid
proof
  fix d
  let ?q = "\<lambda>d. filter (\<lambda>u. UserID u = uid) (event_users d)"
  have "is_user d u \<and> UserID u = uid \<and> d' = d" if "sql_get_user tz ?q d = Inr (u, d')" for u d'
  proof -
    from get_user_row [OF that] obtain row where "row \<in> set (?q d)" and eq: "u = row\<lparr>UserLocation := UserLocation u\<rparr>" "d' = d"
      by blast
    then have row: "row \<in> set (event_users d)" "UserID row = uid" by simp_all
    from eq(1) have "UserID u = UserID row" by (metis User.select_convs(1) User.surjective User.update_convs(10))
    with row eq show ?thesis unfolding is_user_def by blast
  qed
  note found = this
  have "case sql_opt (sql_get_user tz ?q) d of Inl x \<Rightarrow> True
      | Inr (v, d') \<Rightarrow> d' = d \<and> (\<forall>u. v = Some u \<longrightarrow> is_user d u \<and> UserID u = uid)"
  proof (cases "sql_get_user tz ?q d")
    case (Inl x)
    then show ?thesis by (cases x) (simp_all add: sql_opt_def)
  next
    case (Inr p)
    then show ?thesis using found [of "fst p" "snd p"] by (cases p) (simp add: sql_opt_def)
  qed
  then show "wp (UserFind_body tz uid) (\<lambda>v d'. d' = d \<and> (\<forall>u. v = Some u \<longrightarrow> is_user d u \<and> UserID u = uid)) (\<lambda>_. True) d"
    unfolding UserFind_body_def userGetTx_def by (rule wp_exec)
qed

lemma UserFind_found:
  assumes "UserFind tz uid w = (Inr (Some u), w')"
  shows "is_user (committed w) u" and "UserID u = uid"
  using user_find.success [OF TrueI, of tz uid w "Some u" w'] assms by (simp_all add: UserFind_def)

lemma UserFindByUsername_found:
  assumes "UserFindByUsername tz name w = (Inr (Some u), w')"
  shows "is_user (committed w) u" and "Username u = name"
proof -
  obtain row where row: "row \<in> set (event_users (committed w))" "Username row = name" "u = row\<lparr>UserLocation := UserLocation u\<rparr>"
    using UserFindByUsername_result(3) [OF assms refl] by blast
  then show "is_user (committed w) u" unfolding is_user_def by blast
  show "Username u = name" using row(2,3) by (metis User.select_convs(3) User.surjective User.update_convs(10))
qed

lemma wp_db_read:
  assumes "read_stmt s"
  shows "wp (db_exec s) (\<lambda>_ d'. d' = d) (\<lambda>_. True) d"
proof (rule wpI)
  fix w r w' assume view: "db_view w = d" and run: "db_exec s w = (r, w')"
  note same = only_readsD [OF reads_db_exec [OF assms] run]
  show "tx_frame w w'" using same by (simp add: tx_frame_def same_view_def)
next
  fix w v w' assume "db_view w = d" "db_exec s w = (Inr v, w')"
  with only_readsD [OF reads_db_exec [OF assms]] show "db_view w' = d" by (auto simp: same_view_def)
next
  fix w e w' assume "db_exec s w = (Inl e, w')"
  then show "e \<noteq> NotReturned \<and> (pending w' < pending w \<or> True \<and> \<not> shouldRetry e)"
    by (auto simp: db_exec_def dest: next_fault_Some_pending split: prod.splits option.splits sum.splits)
qed

lemma wp_read_step:
  assumes "read_stmt s" and "\<And>v. s d = Inr (v, d) \<Longrightarrow> wp (f v) Q (\<lambda>_. True) d"
  shows "wp (tx_bind (tx_at c (eq_exec s)) f) Q (\<lambda>_. True) d"
proof (rule wp_bind, rule wp_at, rule wp_exec, cases "s d")
  case (Inr p)
  then have "snd p = d" using assms(1) by (cases p) (simp add: read_stmt_def)
  with Inr assms(2) [of "fst p"] show "case s d of Inl x \<Rightarrow> True | Inr (v, d') \<Rightarrow> wp (f v) Q (\<lambda>_. True) d'"
    by (cases p) simp
qed simp

lemma wp_db_step:
  assumes "read_stmt s" and "\<And>v. wp (f v) Q (\<lambda>_. True) d"
  shows "wp (tx_bind (tx_at c (db_exec s)) f) Q (\<lambda>_. True) d"
  using assms by (intro wp_bind wp_at wp_mono [OF wp_db_read]) auto

interpretation find_full: tx_contract "discussionFindByIdFull_body tz db_exec did" "\<lambda>_. True"
  "\<lambda>d v d'. d' = d \<and> (\<forall>df. v = Some df \<longrightarrow> discussion_of d did = Some (TheDiscussion df))" "\<lambda>_ _. True" for tz did
proof
  fix d
  have get: "v = discussion_of d did"
    if "sql_opt (sql_get (\<lambda>d. filter (\<lambda>x. DiscussionID x = did) (event_discussions d))) d = Inr (v, d)" for v
    using that unfolding sql_opt_get discussion_of_def
    by (simp add: case_filter_find [where f = "\<lambda>x. x", simplified] split: option.splits)
  show "wp (discussionFindByIdFull_body tz db_exec did)
      (\<lambda>v d'. d' = d \<and> (\<forall>df. v = Some df \<longrightarrow> discussion_of d did = Some (TheDiscussion df))) (\<lambda>_. True) d"
    unfolding discussionFindByIdFull_body_def
    by (intro wp_read_step wp_db_step wp_case_option wp_return wp_fail reads)
      (auto dest!: get split: option.splits)
qed

lemma DiscussionFindByIdFull_found:
  assumes "DiscussionFindByIdFull tz did w = (Inr (Some df), w')"
  shows "discussion_of (committed w) did = Some (TheDiscussion df)"
  using find_full.success [OF TrueI, of tz did w "Some df" w'] assms
  by (simp add: DiscussionFindByIdFull_def discussionFindByIdFullTx_def)

end
