(* ===== verification/Handlers.thy ===== *)
theory Handlers
  imports Web_Server
begin

text \<open>
  The handlers of \<^verbatim>\<open>handle_index.go\<close>, \<^verbatim>\<open>handle_session.go\<close>, \<^verbatim>\<open>handle_user.go\<close>, \<^verbatim>\<open>handle_schedule.go\<close> and
  \<^verbatim>\<open>handle_discussion.go\<close>, one definition each; the long \<open>HandleUid\<close> and \<open>HandleUidPost\<close> are split at
  their switches. Log messages are left out. A handler that returns without writing leaves the
  request to the next router. In the data of a page, \<open>TError err\<close> is the error or its text. What an
  operation has assigned to its argument on the way to an error is not part of the page that reports it.
\<close>

text \<open>The parameters of a route.\<close>

type_synonym params = "(string \<times> string) list"

definition ByName :: "params \<Rightarrow> string \<Rightarrow> string" where
  "ByName ps name = (case map_of ps name of None \<Rightarrow> '''' | Some v \<Rightarrow> v)"

definition HandleHome :: "web_env \<Rightarrow> request \<Rightarrow> unit web" where
  "HandleHome env r = RenderTemplate env r ''index/home'' []"

section \<open>Logging in and out\<close>

definition HandleSessionDestroy :: "web_env \<Rightarrow> request \<Rightarrow> unit web" where
  "HandleSessionDestroy env r =
    web_bind (sess_call (DeleteSessionByRequest (req_Cookie r))) (\<lambda>err.
    case err of
      Some e \<Rightarrow> web_panic e
    | None \<Rightarrow> RenderTemplate env r ''sessions/destroy'' [])"

definition HandleSessionNew :: "web_env \<Rightarrow> request \<Rightarrow> unit web" where
  "HandleSessionNew env r =
    RenderTemplate env r ''sessions/new'' [(''Next'', TString (Values_Get (req_Query r) ''next''))]"

definition FindUser :: "web_env \<Rightarrow> string \<Rightarrow> string \<Rightarrow> (error + User) web" where
  "FindUser env username password =
    web_bind (event_call (UserFindByUsername (we_tz env) username)) (\<lambda>found.
    web_return (case found of
      Inl err \<Rightarrow> Inl ErrInternal
    | Inr None \<Rightarrow> Inl ErrCredentialsIncorrect
    | Inr (Some u) \<Rightarrow> if \<not> CheckPassword (we_bcrypt env) u password then Inl ErrCredentialsIncorrect else Inr u))"

text \<open>Go's zero value of a user.\<close>

definition zero_user :: User where
  "zero_user = \<lparr>UserID = '''', HashedPassword = '''', Username = '''', IsAdmin = False, IsVerified = False,
     RealName = '''', Email = '''', Company = '''', UserDescription = '''', UserLocation = ''''\<rparr>"

text \<open>The rest of \<open>HandleSessionCreate\<close>, once \<open>FindUser\<close> has answered.\<close>

definition sessionCreate_for :: "web_env \<Rightarrow> request \<Rightarrow> error + User \<Rightarrow> unit web" where
  "sessionCreate_for env r found =
    (let next = FormValue r ''next'' in
     case found of
       Inl err \<Rightarrow>
         if IsValidationError (Some err)
         then RenderTemplate env r ''sessions/new''
                [(''Error'', TError err), (''User'', TUser (Some (zero_user\<lparr>Username := FormValue r ''username''\<rparr>))), (''Next'', TString next)]
         else web_panic err
     | Inr user \<Rightarrow>
         web_bind (kv_call (kv_GetBoolDef FlagActive)) (\<lambda>active.
         if \<not> active \<and> \<not> IsAdmin user then web_write (Redirect ''/login?flash=Website+Inactive'')
         else
           web_bind (sess_call (FindOrCreateSession (req_Cookie r) (UserID user))) (\<lambda>(session, err, cookie).
           web_bind (case cookie of None \<Rightarrow> web_return () | Some ck \<Rightarrow> raw_write (SetCookie ck)) (\<lambda>_.
           case err of
             Some e \<Rightarrow> web_panic e
           | None \<Rightarrow>
               web_write (Redirect ((if next = '''' then ''/''
                   else (case QueryUnescape next of None \<Rightarrow> ''/'' | Some n \<Rightarrow> n)) @ ''?flash=Signed+in''))))))"

definition HandleSessionCreate :: "web_env \<Rightarrow> request \<Rightarrow> unit web" where
  "HandleSessionCreate env r =
    web_bind (FindUser env (FormValue r ''username'') (FormValue r ''password'')) (sessionCreate_for env r)"

section \<open>Registration\<close>

definition HandleUserNew :: "web_env \<Rightarrow> request \<Rightarrow> unit web" where
  "HandleUserNew env r =
    RenderTemplate env r ''user/new''
      [(''DefaultLocation'', TString (DefaultLocation env)), (''Locations'', TStrings (TimezoneList env))]"

definition parseProfile :: "web_env \<Rightarrow> request \<Rightarrow> User \<Rightarrow> User" where
  "parseProfile env r user =
    (let user1 = user\<lparr>RealName := FormValue r ''RealName'', Company := FormValue r ''Company'',
           Email := FormValue r ''Email'', UserDescription := FormValue r ''Description''\<rparr>;
         loc = FormValue r ''Location''
     in if loc \<noteq> '''' then
          (case LoadLocation (we_tz env) loc of Inl _ \<Rightarrow> user1 | Inr tzl \<Rightarrow> user1\<lparr>UserLocation := tzl\<rparr>)
        else user1)"

text \<open>The code after the label \<open>fail\<close>.\<close>

definition userCreate_fail :: "web_env \<Rightarrow> request \<Rightarrow> User \<Rightarrow> tvalue \<Rightarrow> unit web" where
  "userCreate_fail env r user e =
    RenderTemplate env r ''user/new''
      [(''Error'', e), (''Username'', TString (Username user)),
       (''Profile'', TProfile \<lparr>pfRealName = RealName user, pfEmail = Email user, pfCompany = Company user,
                                pfDescription = UserDescription user\<rparr>)]"

text \<open>The rest of \<open>HandleUserCreate\<close>, after the verification code was looked at.\<close>

definition userCreate_register :: "web_env \<Rightarrow> request \<Rightarrow> User \<Rightarrow> unit web" where
  "userCreate_register env r user =
    web_bind (event_call (NewUser (we_bcrypt env) (we_tz env) (FormValue r ''Password'') user)) (\<lambda>new.
    case new of
      Inl err \<Rightarrow> if IsValidationError (Some err) then userCreate_fail env r user (TError err) else web_panic err
    | Inr u \<Rightarrow>
        web_bind (sess_call (NewSession (UserID u))) (\<lambda>(session, err, cookie).
        web_bind (raw_write (SetCookie cookie)) (\<lambda>_.
        case err of
          Some e \<Rightarrow> web_panic e
        | None \<Rightarrow> web_write (Redirect ''/?flash=User+created''))))"

definition HandleUserCreate :: "web_env \<Rightarrow> request \<Rightarrow> unit web" where
  "HandleUserCreate env r =
    (let user = parseProfile env r (zero_user\<lparr>Username := FormValue r ''Username''\<rparr>) in
    web_bind (kv_call (kv_Get VerificationCode)) (\<lambda>got.
    case got of
      Inl _ \<Rightarrow> userCreate_fail env r user (TString ''Internal error'')
    | Inr evcode \<Rightarrow>
        if FormValue r ''Vcode'' = evcode then userCreate_register env r (user\<lparr>IsVerified := True\<rparr>)
        else
          web_bind (kv_call (kv_GetBoolDef FlagRequireVerification)) (\<lambda>need.
          if need then userCreate_fail env r user (TString ''Incorrect Verification Code'')
          else userCreate_register env r user)))"

section \<open>The schedule\<close>

definition HandleScheduleView :: "web_env \<Rightarrow> request \<Rightarrow> unit web" where
  "HandleScheduleView env r =
    web_bind (kv_call (kv_GetBoolDef FlagScheduleActive)) (\<lambda>active.
    if \<not> active then web_write (Redirect ''/'')
    else
      web_bind (RequestUser env r) (\<lambda>cur.
      let loc = FormValue r ''location'';
          dflt = (DefaultLocation env, DefaultLocationTZ (we_display env)) in
      web_bind (if loc \<noteq> '''' then
                  web_return (case LoadLocation (we_tz env) loc of Inl _ \<Rightarrow> dflt | Inr tz \<Rightarrow> (loc, tz))
                else
                  (case cur of
                     None \<Rightarrow> web_return dflt
                   | Some u \<Rightarrow> web_bind (event_call (GetLocationTZ (we_tz env) u)) (\<lambda>tz.
                       web_return (case tz of Inl _ \<Rightarrow> dflt | Inr tz \<Rightarrow> (tz, tz))))) (\<lambda>(name, tz).
      web_bind (event_call (GetTimetable (denv_time (we_display env)) ''3:04pm Jan 2'' (Some tz))) (\<lambda>tt.
      RenderTemplate env r ''schedule/view''
        [(''Timetable'', TTimetable (case tt of Inl _ \<Rightarrow> \<lparr>Days = []\<rparr> | Inr t \<Rightarrow> t)),
         (''CurrentLocation'', TString name), (''Locations'', TStrings (TimezoneList env))]))))"

section \<open>Discussions\<close>

text \<open>The safety catches: a nil user or subject may do nothing.\<close>

definition web_MayEditDiscussion :: "User option \<Rightarrow> Discussion option \<Rightarrow> bool" where
  "web_MayEditDiscussion u d = (case (u, d) of (Some u', Some d') \<Rightarrow> MayEditDiscussion u' d' | _ \<Rightarrow> False)"

definition web_MayEditUser :: "User option \<Rightarrow> User option \<Rightarrow> bool" where
  "web_MayEditUser cur tgt = (case (cur, tgt) of (Some c, Some t) \<Rightarrow> MayEditUser c t | _ \<Rightarrow> False)"

definition web_IsAdmin :: "User option \<Rightarrow> bool" where
  "web_IsAdmin u = (case u of None \<Rightarrow> False | Some u' \<Rightarrow> IsAdmin u')"

definition web_IsVerified :: "User option \<Rightarrow> bool" where
  "web_IsVerified u = (case u of None \<Rightarrow> False | Some u' \<Rightarrow> IsVerified u' \<or> IsAdmin u')"

definition HandleDiscussionNew :: "web_env \<Rightarrow> request \<Rightarrow> unit web" where
  "HandleDiscussionNew env r =
    web_bind (kv_call (kv_GetBoolDef FlagRequireVerification)) (\<lambda>need.
    web_bind (if need then web_bind (RequestUser env r) (\<lambda>cur. web_return (web_IsVerified cur))
              else web_return True) (\<lambda>ok.
    if \<not> ok then web_write (Redirect ''/uid/user/self/view'')
    else RenderTemplate env r ''discussion/new'' []))"

definition HandleDiscussionNotFound :: "web_env \<Rightarrow> request \<Rightarrow> unit web" where
  "HandleDiscussionNotFound env r = RenderTemplate env r ''discussion/notfound'' []"

definition newDiscussion_form :: "request \<Rightarrow> User \<Rightarrow> Discussion" where
  "newDiscussion_form r owner = \<lparr>DiscussionID = '''', Owner = UserID owner, Title = FormValue r ''title'',
     Description = FormValue r ''description'', ApprovedTitle = '''', ApprovedDescription = '''', IsPublic = False\<rparr>"

definition HandleDiscussionCreate :: "web_env \<Rightarrow> request \<Rightarrow> unit web" where
  "HandleDiscussionCreate env r =
    web_bind (RequestUser env r) (\<lambda>cur.
    web_bind (kv_call (kv_GetBoolDef FlagRequireVerification)) (\<lambda>need.
    if need \<and> \<not> web_IsVerified cur then web_write (Redirect ''/uid/user/self/view'')
    else
      (case cur of
         None \<Rightarrow> web_panic (Panic ''nil pointer dereference'')
       | Some owner \<Rightarrow>
           let d = newDiscussion_form r owner in
           web_bind (event_call (NewDiscussion d)) (\<lambda>new.
           case new of
             Inl err \<Rightarrow>
               if IsValidationError (Some err) then
                 web_bind (event_get (DiscussionGetDisplayRetry (we_display env)
                   \<lparr>TheDiscussion = d, OwnerInfo = zero_user, DiscussionLocation = zero_location,
                    DiscussionTime = zero_time, IsFinal = False, PossibleSlots = []\<rparr> (Some owner))) (\<lambda>dd.
                 RenderTemplate env r ''discussion/new''
                   [(''Error'', TError err), (''Discussion'', TDiscussion (Some dd))])
               else web_panic err
           | Inr d1 \<Rightarrow> web_write (Redirect (Discussion_GetURL d1 @ ''?flash=Session+Created''))))))"

definition HandleList :: "web_env \<Rightarrow> request \<Rightarrow> (string \<times> string) list \<Rightarrow> unit web" where
  "HandleList env r ps =
    web_bind (RequestUser env r) (\<lambda>cur.
    let itype = ByName ps ''itype'' in
    if itype = ''discussion'' then
      web_bind (event_get (DiscussionGetList (we_display env) cur)) (\<lambda>ds.
      RenderTemplate env r (itype @ ''/list'') [(''List'', TDiscussions ds), (''redirectURL'', TString '''')])
    else if itype = ''user'' then
      web_bind (event_get (UserGetUsersDisplay (we_display env) cur)) (\<lambda>us.
      RenderTemplate env r (itype @ ''/list'') [(''List'', TUsers us)])
    else web_return ())"

section \<open>Viewing one user or discussion\<close>

text \<open>The page of a user or a discussion. \<open>None\<close> is the nil \<open>Display\<close>; the result of the function is \<open>None\<close> if it has replied.\<close>

definition uid_discussion :: "web_env \<Rightarrow> request \<Rightarrow> User option \<Rightarrow> string \<Rightarrow> string \<Rightarrow> (string \<times> tvalue) list option web" where
  "uid_discussion env r cur uid action =
    web_bind (event_call (DiscussionFindByIdFull (we_tz env) uid)) (\<lambda>found.
    case found of
      Inl _ \<Rightarrow> web_return (Some [])
    | Inr None \<Rightarrow> web_return (Some [])
    | Inr (Some df) \<Rightarrow>
        web_bind (if action = ''edit'' then kv_call (kv_GetBoolDef FlagRequireVerification) else web_return False) (\<lambda>need.
        if need \<and> \<not> web_IsVerified cur
        then web_bind (web_write (Redirect ''/uid/user/self/view'')) (\<lambda>_. web_return None)
        else if (action = ''edit'' \<or> action = ''delete'') \<and> \<not> web_MayEditDiscussion cur (Some (TheDiscussion df))
        then web_return (Some [])
        else web_bind (event_get (DiscussionGetDisplay (we_display env) df cur)) (\<lambda>dd.
          web_return (Some (case dd of None \<Rightarrow> [] | Some x \<Rightarrow> [(''Display'', TDiscussion (Some x))])))))"

definition uid_user :: "web_env \<Rightarrow> User option \<Rightarrow> string \<Rightarrow> string \<Rightarrow> (string \<times> tvalue) list web" where
  "uid_user env cur uid action =
    web_bind (event_call (UserFind (we_tz env) uid)) (\<lambda>found.
    case found of
      Inl _ \<Rightarrow> web_return []
    | Inr None \<Rightarrow> web_return []
    | Inr (Some user) \<Rightarrow>
        if action = ''edit'' \<and> \<not> web_MayEditUser cur (Some user) then web_return []
        else
          (let locations = (if action = ''edit'' then [(''Locations'', TStrings (TimezoneList env))] else [])
           in if action = ''delete'' \<and> \<not> web_IsAdmin cur then web_return locations
              else web_bind (event_get (UserGetDisplay (we_display env) user cur)) (\<lambda>ud.
                web_return ((''Display'', TUserDisplay ud) # locations))))"

text \<open>The end of \<open>HandleUid\<close>: the page, or \<open>notfound\<close> if there is nothing to display.\<close>

definition uid_page :: "web_env \<Rightarrow> request \<Rightarrow> string \<Rightarrow> string \<Rightarrow> (string \<times> tvalue) list \<Rightarrow> unit web" where
  "uid_page env r itype action data =
    (if map_of data ''Display'' = None
     then RenderTemplate env r ''uid/notfound'' [(''Utype'', TString itype)]
     else RenderTemplate env r (itype @ ''/'' @ action) data)"

definition HandleUid :: "web_env \<Rightarrow> request \<Rightarrow> params \<Rightarrow> unit web" where
  "HandleUid env r ps =
    web_bind (RequestUser env r) (\<lambda>cur.
    let uid0 = ByName ps ''uid''; action = ByName ps ''action''; itype = ByName ps ''itype'';
        self = (itype = ''user'' \<and> uid0 = ''self'') in
    if self \<and> cur = None then web_return ()
    else
      let uid = (if self then (case cur of None \<Rightarrow> uid0 | Some u \<Rightarrow> UserID u) else uid0) in
      if \<not> (action \<in> set [''view'', ''edit'', ''delete''] \<and> itype \<in> set [''user'', ''discussion'']) then web_return ()
      else if (action = ''edit'' \<or> action = ''delete'') \<and> cur = None then RequireLogin r
      else if itype = ''discussion'' then
        web_bind (uid_discussion env r cur uid action) (\<lambda>data.
        case data of None \<Rightarrow> web_return () | Some x \<Rightarrow> uid_page env r itype action x)
      else
        web_bind (uid_user env cur uid action) (\<lambda>data. uid_page env r itype action data))"

section \<open>Changing one user or discussion\<close>

definition FormCheckToSlotID :: "string list \<Rightarrow> error + string list" where
  "FormCheckToSlotID formData = Inr formData"

text \<open>Each action ends the request, \<open>None\<close>, or goes on to the redirect at the end of the function.\<close>

definition or_redirect :: "request \<Rightarrow> string \<Rightarrow> string" where
  "or_redirect r dflt = (let tmp = FormValue r ''redirectURL'' in if tmp \<noteq> '''' then tmp else dflt)"

definition post_setinterest :: "request \<Rightarrow> User \<Rightarrow> DiscussionFull \<Rightarrow> string option web" where
  "post_setinterest r cur df =
    (if Username cur = AdminUsername then web_return None
     else
       (case Atoi (FormValue r ''interest'') of
          None \<Rightarrow> web_return None
        | Some interest \<Rightarrow>
            if \<not> interest \<ge> 0 then web_return None
            else web_bind (event_call (SetInterest cur (TheDiscussion df) interest)) (\<lambda>_.
              web_return (Some (or_redirect r ''view'')))))"

definition post_edit_discussion :: "web_env \<Rightarrow> request \<Rightarrow> User \<Rightarrow> DiscussionFull \<Rightarrow> string option web" where
  "post_edit_discussion env r cur df =
    (if \<not> MayEditDiscussion cur (TheDiscussion df) then web_return None
     else
       web_bind (kv_call (kv_GetBoolDef FlagRequireVerification)) (\<lambda>need.
       if need \<and> \<not> web_IsVerified (Some cur)
       then web_bind (web_write (Redirect ''/uid/user/self/view'')) (\<lambda>_. web_return None)
       else
         let d1 = (TheDiscussion df)\<lparr>Title := FormValue r ''title'', Description := FormValue r ''description''\<rparr>;
             possibleSlots = (if IsAdmin cur
               then (case FormCheckToSlotID (FormValues r ''possible'') of Inl _ \<Rightarrow> None | Inr ps \<Rightarrow> Some ps) else None);
             d2 = (if IsAdmin cur then d1\<lparr>Owner := FormValue r ''owner''\<rparr> else d1) in
         web_bind (event_call (DiscussionUpdate d2)) (\<lambda>upd.
         if (case upd of Inl err \<Rightarrow> IsValidationError (Some err) | Inr _ \<Rightarrow> False)
         then web_bind (event_get (DiscussionGetDisplayRetry (we_display env) (df\<lparr>TheDiscussion := d2\<rparr>) (Some cur))) (\<lambda>dd.
              web_bind (RenderTemplate env r ''discussion/edit''
                [(''Error'', TError (case upd of Inl err \<Rightarrow> err | Inr _ \<Rightarrow> ErrInternal)), (''Display'', TDiscussion (Some dd))]) (\<lambda>_.
              web_return None))
         else
           web_bind (case possibleSlots of
               None \<Rightarrow> web_return ()
             | Some ps \<Rightarrow> web_bind (event_call (DiscussionSetPossibleSlots (empty_NamedExec env) (DiscussionID d2) ps))
                            (\<lambda>_. web_return ())) (\<lambda>_.
           web_return (Some ''view'')))))"

definition post_delete_discussion :: "User \<Rightarrow> DiscussionFull \<Rightarrow> string option web" where
  "post_delete_discussion cur df =
    (if \<not> MayEditDiscussion cur (TheDiscussion df) then web_return None
     else
       web_bind (event_call (DeleteDiscussion (DiscussionID (TheDiscussion df)))) (\<lambda>_.
       web_bind (web_write (Redirect ''/list/discussion'')) (\<lambda>_. web_return None)))"

definition post_setpublic :: "request \<Rightarrow> User \<Rightarrow> DiscussionFull \<Rightarrow> string option web" where
  "post_setpublic r cur df =
    (if \<not> IsAdmin cur then web_return None
     else
       web_bind (event_call (DiscussionSetPublic (DiscussionID (TheDiscussion df)) (FormValue r ''newvalue'' = ''true''))) (\<lambda>_.
       web_return (Some (or_redirect r ''view''))))"

definition uidPost_discussion :: "web_env \<Rightarrow> request \<Rightarrow> User \<Rightarrow> string \<Rightarrow> string \<Rightarrow> string option web" where
  "uidPost_discussion env r cur uid action =
    web_bind (event_call (DiscussionFindByIdFull (we_tz env) uid)) (\<lambda>found.
    case found of
      Inl _ \<Rightarrow> web_return None
    | Inr None \<Rightarrow> web_return None
    | Inr (Some df) \<Rightarrow>
        if action = ''setinterest'' then post_setinterest r cur df
        else if action = ''edit'' then post_edit_discussion env r cur df
        else if action = ''delete'' then post_delete_discussion cur df
        else post_setpublic r cur df)"

definition post_edit_user :: "web_env \<Rightarrow> request \<Rightarrow> User \<Rightarrow> User \<Rightarrow> string option web" where
  "post_edit_user env r cur user =
    (let userNext = parseProfile env r user in
    web_bind (event_call (UserUpdate (we_bcrypt env) userNext cur (FormValue r ''currentPassword'') (FormValue r ''newPassword''))) (\<lambda>upd.
    case upd of
      Inl err \<Rightarrow>
        if IsValidationError (Some err)
        then web_bind (RenderTemplate env r ''user/edit'' [(''Error'', TError err), (''User'', TUser (Some userNext))]) (\<lambda>_. web_return None)
        else web_panic err
    | Inr _ \<Rightarrow> web_return (Some ''view'')))"

definition post_setverified :: "request \<Rightarrow> User \<Rightarrow> User \<Rightarrow> string option web" where
  "post_setverified r cur user =
    (if \<not> IsAdmin cur then web_return None
     else web_bind (event_call (SetVerified user (FormValue r ''newvalue'' = ''true''))) (\<lambda>_.
       web_return (Some (or_redirect r ''view''))))"

text \<open>The error of reading the code is dropped; the value beside it is the empty string.\<close>

definition post_verify :: "request \<Rightarrow> User \<Rightarrow> string option web" where
  "post_verify r user =
    web_bind (kv_call (kv_Get VerificationCode)) (\<lambda>got.
    let evcode = (case got of Inl _ \<Rightarrow> '''' | Inr v \<Rightarrow> v) in
    if FormValue r ''Vcode'' \<noteq> evcode then web_return (Some ''view?flash=Invalid+Validation+Code'')
    else web_bind (event_call (SetVerified user True)) (\<lambda>_.
      web_return (Some ''view?flash=Account+Verified'')))"

definition post_delete_user :: "User \<Rightarrow> User \<Rightarrow> string option web" where
  "post_delete_user cur user =
    (if \<not> IsAdmin cur then web_return None
     else
       web_bind (event_call (DeleteUser (UserID user))) (\<lambda>_.
       web_bind (web_write (Redirect ''/list/user'')) (\<lambda>_. web_return None)))"

definition uidPost_user :: "web_env \<Rightarrow> request \<Rightarrow> User \<Rightarrow> string \<Rightarrow> string \<Rightarrow> string option web" where
  "uidPost_user env r cur uid action =
    web_bind (event_call (UserFind (we_tz env) uid)) (\<lambda>found.
    case found of
      Inl _ \<Rightarrow> web_return None
    | Inr None \<Rightarrow> web_return None
    | Inr (Some user) \<Rightarrow>
        if \<not> MayEditUser cur user then web_return None
        else if action = ''edit'' then post_edit_user env r cur user
        else if action = ''setverified'' then post_setverified r cur user
        else if action = ''verify'' then post_verify r user
        else post_delete_user cur user)"

definition HandleUidPost :: "web_env \<Rightarrow> request \<Rightarrow> params \<Rightarrow> unit web" where
  "HandleUidPost env r ps =
    web_bind (RequestUser env r) (\<lambda>who.
    case who of
      None \<Rightarrow> web_return ()
    | Some cur \<Rightarrow>
        let itype = ByName ps ''itype''; uid0 = ByName ps ''uid'';
            uid = (if itype = ''user'' \<and> uid0 = ''self'' then UserID cur else uid0);
            action = ByName ps ''action'' in
        if \<not> ((itype = ''discussion'' \<and> action \<in> set [''setinterest'', ''edit'', ''delete'', ''setpublic''])
             \<or> (itype = ''user'' \<and> action \<in> set [''edit'', ''setverified'', ''verify'', ''delete'']))
        then web_return ()
        else
          web_bind (if itype = ''discussion'' then uidPost_discussion env r cur uid action
                    else uidPost_user env r cur uid action) (\<lambda>goto.
          case goto of None \<Rightarrow> web_return () | Some url \<Rightarrow> web_write (Redirect url)))"

end
