(* ===== verification/Admin_Handlers.thy ===== *)
theory Admin_Handlers
  imports Handlers
begin

text \<open>
  The admin pages: \<^verbatim>\<open>handle_admin.go\<close>, with \<open>MakeSchedule\<close> and \<open>getSearchDuration\<close> of \<^verbatim>\<open>main.go\<close>, which read the
  search options from the configuration. \<open>event.MakeSchedule\<close> ignores its options; here they are
  computed and dropped. \<open>SchedLastUpdate\<close> and \<open>SchedGetState\<close> are constants in the source.
\<close>

section \<open>The console\<close>

definition SchedLastUpdate :: string where "SchedLastUpdate = ''Never''"

datatype SchedState = SchedStateCurrent | SchedStateModified | SchedStateRunning

definition SchedGetState :: SchedState where "SchedGetState = SchedStateCurrent"

text \<open>What the console shows in addition to the locations.\<close>

definition console_content :: "web_env \<Rightarrow> (string \<times> tvalue) list web" where
  "console_content env =
    web_bind (kv_call (kv_Get VerificationCode)) (\<lambda>got.
    web_bind (event_get TimetableGetLockedSlots) (\<lambda>ls.
    web_return
      [(''Vcode'', TString (case got of Inl _ \<Rightarrow> '''' | Inr v \<Rightarrow> v)),
       (''SinceLastSchedule'', TString SchedLastUpdate),
       (case SchedGetState of SchedStateRunning \<Rightarrow> ''IsInProgress'' | SchedStateModified \<Rightarrow> ''IsStale''
          | SchedStateCurrent \<Rightarrow> ''IsCurrent'', TBool True),
       (''LockedSlots'', TSlots (SlotsSetTimeDisplay (denv_time (we_display env)) ls slotTimeFormat))]))"

definition HandleAdminConsole :: "web_env \<Rightarrow> request \<Rightarrow> params \<Rightarrow> unit web" where
  "HandleAdminConsole env r ps =
    web_bind (RequestUser env r) (\<lambda>who.
    case who of
      None \<Rightarrow> web_return ()
    | Some user \<Rightarrow>
        if \<not> IsAdmin user then web_return ()
        else
          let tmpl = ByName ps ''template'' in
          if \<not> (tmpl = ''console'' \<or> tmpl = ''locations'') then web_return ()
          else
            web_bind (if tmpl = ''console'' then console_content env else web_return []) (\<lambda>content.
            web_bind (event_call LocationGetAll) (\<lambda>ls.
            RenderTemplate env r (''admin/'' @ tmpl)
              ([(''User'', TUser (Some user))] @ content @
               [(''Locations'', TLocations (case ls of Inl _ \<Rightarrow> [] | Inr xs \<Rightarrow> xs)), (tmpl, TBool True)]))))"

section \<open>Running the scheduler\<close>

definition SearchAlgo :: string where "SearchAlgo = ''EventSearchAlgo''"
definition SearchDuration :: string where "SearchDuration = ''EventSearchDuration''"
definition Validate :: string where "Validate = ''EventValidate''"
definition ScheduleDebug :: string where "ScheduleDebug = ''EventScheduleDebug''"
definition ScheduleDebugVerbose :: string where "ScheduleDebugVerbose = ''EventScheduleDebugVerbose''"
definition SearchRandom :: string where "SearchRandom = ''random''"

record SearchOptions =
  opt_Async :: bool
  opt_Algo :: string
  opt_Validate :: bool
  opt_DebugLevel :: int
  opt_SearchDuration :: int

text \<open>
  The condition is inverted: the stored duration is parsed only if reading it failed, and then it is
  the empty string, of which \<open>time.ParseDuration\<close> makes an error; a duration that was stored becomes
  zero. Durations are in nanoseconds.
\<close>

definition getSearchDuration :: "int web" where
  "getSearchDuration =
    web_bind (kv_call (kv_Get SearchDuration)) (\<lambda>got.
    web_return (case got of
      Inl _ \<Rightarrow> 5 * nanos
    | Inr _ \<Rightarrow> 0))"

definition main_MakeSchedule :: "web_env \<Rightarrow> bool \<Rightarrow> (error + unit) web" where
  "main_MakeSchedule env async =
    web_bind (kv_call (kv_Get SearchAlgo)) (\<lambda>got.
    if (case got of Inl e \<Rightarrow> e \<noteq> ErrNoRows | Inr _ \<Rightarrow> False) then web_exit ''Error getting keyvalue''
    else
      let algo = (case got of Inl _ \<Rightarrow> SearchRandom | Inr s \<Rightarrow> s) in
      web_bind (kv_call (kv_GetBoolDef Validate)) (\<lambda>val.
      web_bind (kv_call (kv_GetBoolDef ScheduleDebug)) (\<lambda>debug.
      web_bind (if debug then kv_call (kv_GetBoolDef ScheduleDebugVerbose) else web_return False) (\<lambda>verbose.
      web_bind (getSearchDuration) (\<lambda>duration.
      let opt = \<lparr>opt_Async = async, opt_Algo = algo, opt_Validate = val,
                 opt_DebugLevel = (if debug then if verbose then 2 else 1 else 0), opt_SearchDuration = duration\<rparr> in
      event_call (MakeSchedule (sort_Slice env) (we_tz env)))))))"

section \<open>Actions\<close>

definition admin_runschedule :: "web_env \<Rightarrow> unit web" where
  "admin_runschedule env =
    web_bind (main_MakeSchedule env False) (\<lambda>err.
    web_write (Redirect (case err of
      Inr _ \<Rightarrow> ''console?flash=Schedule+Finished''
    | Inl _ \<Rightarrow> ''console?flash=Error+starting+schedule: See Log'')))"

definition admin_setvcode :: "web_env \<Rightarrow> request \<Rightarrow> User \<Rightarrow> unit web" where
  "admin_setvcode env r user =
    (let newvcode = FormValue r ''vcode'' in
     if newvcode = '''' then
       web_bind (kv_call (kv_Get VerificationCode)) (\<lambda>got.
       RenderTemplate env r ''console?flash=Invalid+Vcode''
         [(''User'', TUser (Some user)), (''console'', TBool True),
          (''Vcode'', TString (case got of Inl _ \<Rightarrow> '''' | Inr v \<Rightarrow> v))])
     else
       web_bind (kv_call (kv_Set VerificationCode newvcode)) (\<lambda>err.
       web_write (Redirect (''console?flash='' @ (case err of
         Inr _ \<Rightarrow> ''Verification+code+updated'' | Inl _ \<Rightarrow> ''Verification+code+not+updated'')))))"

text \<open>The values ticked in the status form, or \<open>None\<close> if one of them is not known.\<close>

definition status_of :: "string \<Rightarrow> string option" where
  "status_of status =
    (if status = ''websiteActive'' then Some ''website''
     else if status = ''scheduleActive'' then Some ''schedule''
     else if status = ''vcodeSent'' then Some ''vcodesent''
     else if status = ''requireVerification'' then Some ''verification'' else None)"

fun newval_of :: "string list \<Rightarrow> string list option" where
  "newval_of [] = Some []"
| "newval_of (s # ss) =
    (case status_of s of None \<Rightarrow> None | Some k \<Rightarrow> map_option ((#) k) (newval_of ss))"

text \<open>The closure \<open>flashAccumulator\<close>; it returns a nil error whatever \<open>ExchangeBool\<close> returned, with the zero value beside it.\<close>

definition flashAccumulator :: "bool \<Rightarrow> string \<Rightarrow> string \<Rightarrow> string \<Rightarrow> string \<Rightarrow> string web" where
  "flashAccumulator nv flash dbkey ftt ttf =
    web_bind (kv_call (kv_ExchangeBool dbkey nv)) (\<lambda>got.
    let ov = (case got of Inl _ \<Rightarrow> False | Inr b \<Rightarrow> b) in
    web_return (if ov \<noteq> nv then (if flash \<noteq> '''' then flash @ '', '' else flash) @ (if nv then ftt else ttf) else flash))"

definition admin_setstatus :: "request \<Rightarrow> unit web" where
  "admin_setstatus r =
    (case newval_of (FormValues r ''status'') of
       None \<Rightarrow> web_write (Redirect ''console?flash=Invalid form result: Report this error to the admin'')
     | Some ks \<Rightarrow>
         web_bind (flashAccumulator (''website'' \<in> set ks) '''' FlagActive ''Website+Activated'' ''Website+Deactivated'') (\<lambda>f1.
         web_bind (flashAccumulator (''schedule'' \<in> set ks) f1 FlagScheduleActive ''Schedule+Activated'' ''Schedule+Deactivated'') (\<lambda>f2.
         web_bind (flashAccumulator (''vcodesent'' \<in> set ks) f2 FlagVerificationCodeSent ''Verification+Code+Sent'' ''Verification+Code+Not+Sent'') (\<lambda>f3.
         web_bind (flashAccumulator (''verification'' \<in> set ks) f3 FlagRequireVerification ''Verification+Required'' ''Verification+Not+Required'') (\<lambda>f4.
         web_write (Redirect (''console?flash='' @ f4)))))))"

definition admin_setLocked :: "request \<Rightarrow> unit web" where
  "admin_setLocked r =
    (case FormCheckToSlotID (FormValues r ''locked'') of
       Inl _ \<Rightarrow> web_return ()
     | Inr locked \<Rightarrow>
         web_bind (event_call (TimetableSetLockedSlots locked)) (\<lambda>err.
         web_write (Redirect (case err of
           Inl _ \<Rightarrow> ''console?flash=Error+setting+slots'' | Inr _ \<Rightarrow> ''console?flash=Locked+slots+updated''))))"

text \<open>
  The location of the form: its identifier for an update, then its capacity. \<open>Inl\<close> is the flash of an
  error. A form without capacity keeps the zero values.
\<close>

definition form_location :: "request \<Rightarrow> bool \<Rightarrow> string + Location" where
  "form_location r update =
    (let l = \<lparr>LocationID = 0, LocationName = FormValue r ''locName'', LocationURL = FormValue r ''locURL'',
              IsPlace = False, Capacity = 0\<rparr>;
         lid = Atoi (FormValue r ''locID'');
         cstring = FormValue r ''locCapacity''
     in if update \<and> lid = None then Inl ''?flash=Website+Error''
        else
          (let l1 = (if update then l\<lparr>LocationID := the lid\<rparr> else l)
           in if cstring = '''' then Inr l1
              else (case Atoi cstring of
                      None \<Rightarrow> Inl ''?flash=Capacity+must+be+a+number''
                    | Some capacity \<Rightarrow> Inr (l1\<lparr>IsPlace := True, Capacity := capacity\<rparr>))))"

definition admin_location :: "request \<Rightarrow> bool \<Rightarrow> unit web" where
  "admin_location r update =
    web_bind (case form_location r update of
       Inl flash \<Rightarrow> web_return flash
     | Inr l \<Rightarrow>
         web_bind (if update then event_call (LocationUpdate l)
                   else web_bind (event_call (NewLocation l)) (\<lambda>new. web_return (case new of Inl e \<Rightarrow> Inl e | Inr _ \<Rightarrow> Inr ()))) (\<lambda>err.
         web_return (case err of
           Inl e \<Rightarrow> if IsValidationError (Some e) then ''?flash=Validation+Error'' else ''?flash=Internal+Error''
         | Inr _ \<Rightarrow> ''''))) (\<lambda>flash.
    web_write (Redirect (''locations'' @ flash)))"

definition HandleAdminAction :: "web_env \<Rightarrow> request \<Rightarrow> params \<Rightarrow> unit web" where
  "HandleAdminAction env r ps =
    web_bind (RequestUser env r) (\<lambda>who.
    case who of
      None \<Rightarrow> web_return ()
    | Some user \<Rightarrow>
        if \<not> IsAdmin user then web_return ()
        else
          let action = ByName ps ''action'' in
          if action = ''runschedule'' then admin_runschedule env
          else if action = ''setvcode'' then admin_setvcode env r user
          else if action = ''setstatus'' then admin_setstatus r
          else if action = ''setLocked'' then admin_setLocked r
          else if action = ''newLocation'' then admin_location r False
          else if action = ''updateLocation'' then admin_location r True
          else web_return ())"

section \<open>Test mode\<close>

definition set_test_mode :: "bool \<Rightarrow> string \<Rightarrow> string web" where
  "set_test_mode b flash =
    web_bind (kv_call (kv_SetBool FlagTestMode b)) (\<lambda>err.
    web_return (case err of Inl _ \<Rightarrow> ''Set+test+mode+failed'' | Inr _ \<Rightarrow> flash))"

definition HandleTestAction :: "web_env \<Rightarrow> request \<Rightarrow> params \<Rightarrow> unit web" where
  "HandleTestAction env r ps =
    web_bind (RequestUser env r) (\<lambda>who.
    case who of
      None \<Rightarrow> web_return ()
    | Some user \<Rightarrow>
        if \<not> IsAdmin user then web_return ()
        else
          let action = ByName ps ''action'';
              finish = (\<lambda>flash. web_write (Redirect (''/admin/test?flash='' @ flash))) in
          web_bind (kv_call (kv_GetBoolDef FlagTestMode)) (\<lambda>test.
          if \<not> test then
            if action \<noteq> ''enabletest'' then web_return ()
            else if FormValue r ''confirm'' \<noteq> ''SafetyOff''
            then RenderTemplate env r ''admin/test'' [(''MustConfirm'', TBool True)]
            else web_bind (set_test_mode True ''Test+mode+enabled'') finish
          else if action = ''disabletest'' then web_bind (set_test_mode False ''Test+mode+disabled'') finish
          else if action = ''enabletest'' then finish ''Test+mode+already+disabled''
          else web_return ()))"

end
