(* ===== verification/Middleware.thy ===== *)
theory Middleware
  imports Admin_Handlers
begin

text \<open>
  The way of a request to its handler: the four routers \<open>serve\<close> of \<^verbatim>\<open>serve.go\<close> fills and \<open>ServeHTTP\<close> of
  \<^verbatim>\<open>middleware.go\<close>, which asks one after the other until one of them has written something. Matching a
  path against the patterns is the business of \<^verbatim>\<open>httprouter\<close>; \<open>Lookup\<close> is a parameter.
\<close>

datatype route =
    Route_Home | Route_SessionNew | Route_SessionCreate | Route_File string | Route_Assets
  | Route_UserNew | Route_UserCreate | Route_DiscussionNotFound | Route_ScheduleView
  | Route_List | Route_Uid | Route_UidPost
  | Route_SessionDestroy | Route_DiscussionNew | Route_DiscussionCreate
  | Route_AdminConsole | Route_AdminAction | Route_TestAction

text \<open>Method, pattern and handler of every route.\<close>

type_synonym router = "(string \<times> string \<times> route) list"

definition always_router :: router where
  "always_router =
    [(''GET'', ''/'', Route_Home), (''GET'', ''/login'', Route_SessionNew), (''POST'', ''/login'', Route_SessionCreate),
     (''GET'', ''/robots.txt'', Route_File ''assets/robots.txt''), (''GET'', ''/favicon.ico'', Route_File ''assets/favicon.ico''),
     (''GET'', ''/assets/*filepath'', Route_Assets)]"

definition public_router :: router where
  "public_router =
    [(''GET'', ''/register'', Route_UserNew), (''POST'', ''/register'', Route_UserCreate),
     (''GET'', ''/discussion/notfound'', Route_DiscussionNotFound), (''GET'', ''/schedule'', Route_ScheduleView),
     (''GET'', ''/list/:itype'', Route_List), (''GET'', ''/uid/:itype/:uid/:action'', Route_Uid),
     (''POST'', ''/uid/:itype/:uid/:action'', Route_UidPost)]"

definition userAuth_router :: router where
  "userAuth_router =
    [(''GET'', ''/sign-out'', Route_SessionDestroy), (''GET'', ''/discussion/new'', Route_DiscussionNew),
     (''POST'', ''/discussion/new'', Route_DiscussionCreate)]"

definition admin_router :: router where
  "admin_router =
    [(''GET'', ''/admin/:template'', Route_AdminConsole), (''POST'', ''/admin/:action'', Route_AdminAction),
     (''POST'', ''/testaction/:action'', Route_TestAction)]"

type_synonym lookup = "router \<Rightarrow> string \<Rightarrow> string \<Rightarrow> (route \<times> params) option"

primrec dispatch :: "web_env \<Rightarrow> request \<Rightarrow> params \<Rightarrow> route \<Rightarrow> unit web" where
  "dispatch env r ps Route_Home = HandleHome env r"
| "dispatch env r ps Route_SessionNew = HandleSessionNew env r"
| "dispatch env r ps Route_SessionCreate = HandleSessionCreate env r"
| "dispatch env r ps (Route_File name) = web_write (ServeFile name)"
| "dispatch env r ps Route_Assets = web_write (ServeFile (''assets/'' @ ByName ps ''filepath''))"
| "dispatch env r ps Route_UserNew = HandleUserNew env r"
| "dispatch env r ps Route_UserCreate = HandleUserCreate env r"
| "dispatch env r ps Route_DiscussionNotFound = HandleDiscussionNotFound env r"
| "dispatch env r ps Route_ScheduleView = HandleScheduleView env r"
| "dispatch env r ps Route_List = HandleList env r ps"
| "dispatch env r ps Route_Uid = HandleUid env r ps"
| "dispatch env r ps Route_UidPost = HandleUidPost env r ps"
| "dispatch env r ps Route_SessionDestroy = HandleSessionDestroy env r"
| "dispatch env r ps Route_DiscussionNew = HandleDiscussionNew env r"
| "dispatch env r ps Route_DiscussionCreate = HandleDiscussionCreate env r"
| "dispatch env r ps Route_AdminConsole = HandleAdminConsole env r ps"
| "dispatch env r ps Route_AdminAction = HandleAdminAction env r ps"
| "dispatch env r ps Route_TestAction = HandleTestAction env r ps"

definition LogRequest :: "web_env \<Rightarrow> request \<Rightarrow> unit web" where
  "LogRequest env r = web_bind (RequestUser env r) (\<lambda>_. web_return ())"

definition NewMiddlewareResponseWriter :: "unit web" where
  "NewMiddlewareResponseWriter sv = (Inr (), sv\<lparr>sv_replies := [], sv_written := False\<rparr>)"

text \<open>\<open>if mw.written { return }\<close>\<close>

definition unless_written :: "unit web \<Rightarrow> unit web" where
  "unless_written m sv = (if sv_written sv then (Inr (), sv) else m sv)"

definition route_via :: "web_env \<Rightarrow> lookup \<Rightarrow> request \<Rightarrow> router \<Rightarrow> (unit web \<Rightarrow> unit web) \<Rightarrow> unit web" where
  "route_via env Lookup r router guard =
    (case Lookup router (req_Method r) (req_Path r) of
       None \<Rightarrow> web_return ()
     | Some (h, ps) \<Rightarrow> guard (dispatch env r ps h))"

text \<open>The redirect of the inactive site goes past the wrapped writer, so the search goes on.\<close>

definition active_guard :: "User option \<Rightarrow> unit web \<Rightarrow> unit web" where
  "active_guard u handler =
    web_bind (kv_call (kv_GetBoolDef FlagActive)) (\<lambda>active.
    if active \<or> u \<noteq> None then handler else raw_write (Redirect ''/''))"

definition ServeHTTP :: "web_env \<Rightarrow> lookup \<Rightarrow> request \<Rightarrow> unit web" where
  "ServeHTTP env Lookup r =
    web_bind NewMiddlewareResponseWriter (\<lambda>_.
    web_bind (LogRequest env r) (\<lambda>_.
    web_bind (route_via env Lookup r always_router (\<lambda>h. h)) (\<lambda>_. unless_written (
    web_bind (RequestUser env r) (\<lambda>u.
    web_bind (route_via env Lookup r public_router (active_guard u)) (\<lambda>_. unless_written (
    web_bind (route_via env Lookup r userAuth_router (\<lambda>h. if u = None then RequireLogin r else h)) (\<lambda>_. unless_written (
    web_bind (route_via env Lookup r admin_router (\<lambda>h. if web_IsAdmin u then h else web_return ())) (\<lambda>_. unless_written (
    raw_write NotFoundPage)))))))))))"

section \<open>An instance\<close>

text \<open>
  A router for the instances: patterns are matched segment by segment, \<open>:name\<close> takes one segment and
  \<open>*name\<close> the rest.
\<close>

fun path_segments :: "string \<Rightarrow> string \<Rightarrow> string list" where
  "path_segments acc [] = [acc]"
| "path_segments acc (c # cs) = (if c = CHR ''/'' then acc # path_segments [] cs else path_segments (acc @ [c]) cs)"

fun match_segments :: "string list \<Rightarrow> string list \<Rightarrow> params option" where
  "match_segments [] [] = Some []"
| "match_segments (p # ps) (s # ss) =
    (if p \<noteq> [] \<and> hd p = CHR ''*'' then Some [(tl p, concat (map (\<lambda>x. CHR ''/'' # x) (s # ss)))]
     else if p \<noteq> [] \<and> hd p = CHR '':'' then map_option ((#) (tl p, s)) (match_segments ps ss)
     else if p = s then match_segments ps ss else None)"
| "match_segments _ _ = None"

fun sample_lookup :: lookup where
  "sample_lookup [] m p = None"
| "sample_lookup ((m', pat, h) # routes) m p =
    (case (if m' = m then match_segments (path_segments [] pat) (path_segments [] p) else None) of
       None \<Rightarrow> sample_lookup routes m p
     | Some ps \<Rightarrow> Some (h, ps))"

definition sample_env :: web_env where
  "sample_env = \<lparr>we_display = sample_denv, we_bcrypt = sample_bcrypt, DefaultLocation = ''Europe/Berlin'',
     TimezoneList = [''Europe/Berlin'', ''UTC''], sort_Slice = stable_slice, empty_NamedExec = (\<lambda>d. Inl (DriverError ''length of array is 0''))\<rparr>"

text \<open>The sample event, in which Bob's password is \<open>swordfish\<close>, on an active site without sessions.\<close>

definition sample_server :: server where
  "sample_server = \<lparr>sv_event = sample_world\<lparr>committed := update_user ''usr_b'' (\<lambda>u. u\<lparr>HashedPassword := ''$swordfish''\<rparr>) sample_db\<rparr>,
     sv_kvs = sample_kv, sv_sessions = sample_sessions, sv_replies = [], sv_written = False\<rparr>"

definition sample_request :: "string \<Rightarrow> string \<Rightarrow> url_values \<Rightarrow> string option \<Rightarrow> request" where
  "sample_request m p form cookie = \<lparr>req_Method = m, req_Path = p, req_URL = p, req_Query = [], req_Form = form, req_Cookie = cookie\<rparr>"

definition bob_logs_in :: request where
  "bob_logs_in = sample_request ''POST'' ''/login'' [(''username'', [''bob'']), (''password'', [''swordfish''])] None"

fun reply_cookie :: "reply list \<Rightarrow> string option" where
  "reply_cookie (SetCookie ck # _) = Some (cookie_Value ck)"
| "reply_cookie (_ # xs) = reply_cookie xs"
| "reply_cookie [] = None"

lemma sample_server_inv: "event_inv (committed (sv_event sample_server))"
  by (simp add: sample_server_def inv_update_user sample_inv)

lemma bob_logged_in:
  "case ServeHTTP sample_env sample_lookup bob_logs_in sample_server of (x, sv) \<Rightarrow>
     x = Inr () \<and> (case RequestUser sample_env (sample_request ''GET'' ''/'' [] (reply_cookie (sv_replies sv))) sv of
       (Inr (Some u), _) \<Rightarrow> UserID u = ''usr_b'' | _ \<Rightarrow> False)"
  by code_simp

end
