(* ===== verification/Authorization.thy ===== *)
theory Authorization
  imports Middleware
begin

text \<open>
  What requests can do, for every handler and for the way through the routers: they keep the
  invariant of the event and never make an admin; a request that no admin sends changes nothing but
  what belongs to its sender; and sessions come from logins and registrations only. The theorems
  about whole histories of requests are in the root theory.
\<close>

abbreviation sv_db :: "server \<Rightarrow> database" where
  "sv_db sv \<equiv> committed (sv_event sv)"

section \<open>The invariant\<close>

definition keeps_event :: "server \<Rightarrow> server \<Rightarrow> bool" where
  "keeps_event sv sv' \<longleftrightarrow> (event_inv (sv_db sv) \<longrightarrow> event_inv (sv_db sv') \<and> admin_ids (sv_db sv') \<subseteq> admin_ids (sv_db sv))"

interpretation keeping: server_rel keeps_event
  by unfold_locales (auto simp: keeps_event_def same_state_def)

named_theorems keeps \<open>calls that keep the invariant of the event\<close>

declare keeping.steps [keeps] keeping.reading [OF RequestUser_reads, keeps] keeping.reading [OF RenderTemplate_reads, keeps]
  keeping.reading [OF RequireLogin_reads, keeps]

lemma keeps_other [keeps]: "web_rel keeps_event (kv_call f)" "web_rel keeps_event (sess_call g)"
  by (auto simp: web_rel_def keeps_event_def kv_call_def sess_call_def split: prod.splits)

lemma keeps_read [keeps]: "only_reads m \<Longrightarrow> web_rel keeps_event (event_get m)"
  by (auto intro!: keeping.reading web_reads)

text \<open>The queries the handlers make.\<close>

lemmas query_reads = event_call_reads [OF reads_UserFind] event_call_reads [OF reads_UserFindByUsername]
  event_call_reads [OF reads_GetLocationTZ] event_call_reads [OF reads_GetTimetable]
  event_call_reads [OF reads_DiscussionFindByIdFull] event_call_reads [OF reads_LocationGetAll]

declare query_reads [THEN keeping.reading, keeps]

lemma keeps_effect:
  assumes "effects R m" and "\<And>d d'. R d d' \<Longrightarrow> admin_ids d' \<subseteq> admin_ids d"
  shows "web_rel keeps_event (event_call m)"
proof (rule web_relI)
  fix sv r sv' assume "event_call m sv = (r, sv')"
  then obtain x w where m: "m (sv_event sv) = (x, w)" "sv' = sv\<lparr>sv_event := w\<rparr>" by (rule event_call_run)
  show "keeps_event sv sv'"
    unfolding keeps_event_def using effectsD [OF assms(1) m(1)] assms(2) [of "sv_db sv" "committed w"] m(2)
    by (metis order_refl server.select_convs(1) server.surjective server.update_convs(1))
qed

lemma admin_ids_same_users: "same_users d d' \<Longrightarrow> admin_ids d' \<subseteq> admin_ids d"
  by (simp add: same_users_def admin_ids_def)

lemma admin_ids_update_user:
  assumes "\<And>u. UserID (g u) = UserID u" and "\<And>u. IsAdmin (g u) = IsAdmin u"
  shows "admin_ids (update_user uid g d) = admin_ids d"
  using confined_update_user [OF assms] by (simp add: confined_def)

lemma admin_ids_with_user: "\<not> IsAdmin u \<Longrightarrow> admin_ids (with_user u d) = admin_ids d"
  by (auto simp: admin_ids_def with_user_def)

lemma discussion_update_users:
  assumes "discussion_update_post disc d v d'"
  shows "event_users d' = event_users d"
proof -
  obtain b d1 where d: "d' = update_discussion (DiscussionID disc) (discussionUpdateRow disc b) d1"
    "d1 = d \<or> setInterestTx (Owner disc) (DiscussionID disc) InterestMax d = Inr ((), d1)"
    using assms unfolding discussion_update_post_def by (metis (full_types))
  have "event_users d1 = event_users d" using d(2) interest_by_setInterestTx interest_onlyD(1) by (auto simp: interest_by_def)
  then show ?thesis by (simp add: d(1) update_discussion_def)
qed

lemma keeps_admin_operations [keeps]:
  "web_rel keeps_event (event_call (DiscussionSetPublic did public))"
  "empty_batch_ok eb \<Longrightarrow> web_rel keeps_event (event_call (DiscussionSetPossibleSlots eb did ps))"
  "web_rel keeps_event (event_call (NewLocation l))"
  "web_rel keeps_event (event_call (LocationUpdate l))"
  "web_rel keeps_event (event_call (TimetableSetLockedSlots ps))"
  "slice_sort ss \<Longrightarrow> web_rel keeps_event (event_call (MakeSchedule ss tz))"
  using keeps_effect [OF effects_SetPublic admin_ids_same_users] keeps_effect [OF effects_SetPossibleSlots admin_ids_same_users]
    keeps_effect [OF effects_NewLocation admin_ids_same_users] keeps_effect [OF effects_LocationUpdate admin_ids_same_users]
    keeps_effect [OF effects_SetLocked admin_ids_same_users] keeps_effect [OF slice_sort.effects_MakeSchedule admin_ids_same_users]
  by blast+

lemma keeps_DeleteUser [keeps]: "web_rel keeps_event (event_call (DeleteUser uid))"
  by (rule keeps_effect [OF effects_DeleteUser]) (auto simp: admin_ids_def drop_user_def)

lemma keeps_account_operations [keeps]:
  "web_rel keeps_event (event_call (SetVerified user b))"
  "web_rel keeps_event (event_call (UserUpdate bc userNext modifier cur new))"
  "\<not> IsAdmin user \<Longrightarrow> web_rel keeps_event (event_call (NewUser bc tz pw user))"
proof -
  show "web_rel keeps_event (event_call (SetVerified user b))"
    by (rule keeps_effect [OF effects_SetVerified]) (simp add: admin_ids_update_user)
  show "web_rel keeps_event (event_call (UserUpdate bc userNext modifier cur new))"
    by (rule keeps_effect [OF effects_UserUpdate]) (auto simp: admin_ids_update_user userUpdateRow_def)
  show "web_rel keeps_event (event_call (NewUser bc tz pw user))" if "\<not> IsAdmin user"
    by (rule keeps_effect [OF effects_NewUser]) (use that in \<open>auto simp: registers_def admin_ids_with_user\<close>)
qed

lemma keeps_discussion_operations [keeps]:
  "web_rel keeps_event (event_call (SetInterest user disc i))"
  "web_rel keeps_event (event_call (NewDiscussion disc))"
  "web_rel keeps_event (event_call (DiscussionUpdate disc))"
  "web_rel keeps_event (event_call (DeleteDiscussion did))"
proof -
  show "web_rel keeps_event (event_call (SetInterest user disc i))"
    by (rule keeps_effect [OF effects_SetInterest]) (auto simp: admin_ids_def interest_by_def interest_onlyD(1))
  show "web_rel keeps_event (event_call (NewDiscussion disc))"
    by (rule keeps_effect [OF effects_NewDiscussion]) (auto simp: admin_ids_def new_discussion_post_def with_discussion_def)
  show "web_rel keeps_event (event_call (DiscussionUpdate disc))"
    by (rule keeps_effect [OF effects_DiscussionUpdate]) (auto simp: admin_ids_def discussion_update_users)
  show "web_rel keeps_event (event_call (DeleteDiscussion did))"
    by (rule keeps_effect [OF effects_DeleteDiscussion]) (auto simp: admin_ids_def drop_discussions_def)
qed

text \<open>Every handler, and so every request, keeps the invariant and makes nobody an admin.\<close>

definition env_ok :: "web_env \<Rightarrow> bool" where
  "env_ok env \<longleftrightarrow> slice_sort (sort_Slice env) \<and> empty_batch_ok (empty_NamedExec env)"

lemma parseProfile_sel [simp]:
  "UserID (parseProfile env r u) = UserID u" "IsAdmin (parseProfile env r u) = IsAdmin u"
  by (simp_all add: parseProfile_def Let_def split: sum.split)

lemma keeps_session_handlers [keeps]:
  "web_rel keeps_event (HandleHome env r)" "web_rel keeps_event (HandleSessionNew env r)"
  "web_rel keeps_event (HandleSessionDestroy env r)" "web_rel keeps_event (HandleSessionCreate env r)"
  unfolding HandleHome_def HandleSessionNew_def HandleSessionDestroy_def HandleSessionCreate_def sessionCreate_for_def FindUser_def Let_def
  by (intro keeps reads)+

lemma keeps_user_handlers [keeps]: "web_rel keeps_event (HandleUserNew env r)" "web_rel keeps_event (HandleUserCreate env r)"
  unfolding HandleUserNew_def HandleUserCreate_def userCreate_register_def userCreate_fail_def Let_def
  by (intro keeps; simp add: zero_user_def)+

lemma keeps_view_handlers [keeps]:
  "web_rel keeps_event (HandleScheduleView env r)" "web_rel keeps_event (HandleDiscussionNew env r)"
  "web_rel keeps_event (HandleDiscussionNotFound env r)" "web_rel keeps_event (HandleDiscussionCreate env r)"
  "web_rel keeps_event (HandleList env r ps)" "web_rel keeps_event (HandleUid env r ps)"
  unfolding HandleScheduleView_def HandleDiscussionNew_def HandleDiscussionNotFound_def HandleDiscussionCreate_def
    HandleList_def HandleUid_def uid_discussion_def uid_user_def uid_page_def Let_def
  by (intro keeps reads)+

lemma keeps_UidPost [keeps]: "env_ok env \<Longrightarrow> web_rel keeps_event (HandleUidPost env r ps)"
  unfolding HandleUidPost_def uidPost_discussion_def uidPost_user_def post_setinterest_def post_edit_discussion_def
    post_delete_discussion_def post_setpublic_def post_edit_user_def post_setverified_def post_verify_def post_delete_user_def Let_def
  by (intro keeps reads) (simp_all add: env_ok_def)

lemma keeps_admin_handlers [keeps]:
  "web_rel keeps_event (HandleAdminConsole env r ps)" "web_rel keeps_event (HandleTestAction env r ps)"
  "env_ok env \<Longrightarrow> web_rel keeps_event (HandleAdminAction env r ps)"
proof -
  show "web_rel keeps_event (HandleAdminConsole env r ps)" "web_rel keeps_event (HandleTestAction env r ps)"
    unfolding HandleAdminConsole_def console_content_def HandleTestAction_def set_test_mode_def Let_def by (intro keeps reads)+
  show "web_rel keeps_event (HandleAdminAction env r ps)" if "env_ok env"
    unfolding HandleAdminAction_def admin_runschedule_def main_MakeSchedule_def getSearchDuration_def admin_setvcode_def
      admin_setstatus_def flashAccumulator_def admin_setLocked_def admin_location_def Let_def
    by (intro keeps) (use that in \<open>simp_all add: env_ok_def\<close>)
qed

lemma keeps_dispatch [keeps]: "env_ok env \<Longrightarrow> web_rel keeps_event (dispatch env r ps h)"
  by (cases h) (simp_all add: keeps)

lemma keeps_ServeHTTP: "env_ok env \<Longrightarrow> web_rel keeps_event (ServeHTTP env Lookup r)"
proof -
  assume env: "env_ok env"
  have new: "web_rel keeps_event NewMiddlewareResponseWriter"
    by (simp add: web_rel_def NewMiddlewareResponseWriter_def keeps_event_def)
  have unless: "web_rel keeps_event (unless_written m)" if "web_rel keeps_event m" for m
    using that by (auto simp: web_rel_def unless_written_def keeps_event_def split: if_splits)
  have via: "web_rel keeps_event (route_via env Lookup r router guard)"
    if "\<And>h ps. web_rel keeps_event (guard (dispatch env r ps h))" for router guard
    unfolding route_via_def by (auto intro!: keeps that split: option.split prod.split)
  show ?thesis
    unfolding ServeHTTP_def LogRequest_def active_guard_def by (intro new unless via keeps env)
qed

section \<open>Nobody acts for somebody else\<close>

text \<open>The account the cookie of a request stands for.\<close>

definition acting :: "server \<Rightarrow> request \<Rightarrow> string option" where
  "acting sv r = (case req_Cookie r of None \<Rightarrow> None | Some c \<Rightarrow> map_option fst (holder (sv_sessions sv) c))"

lemma RequestUser_found:
  assumes run: "RequestUser env r sv = (Inr (Some u), sv')" and ok: "sess_ok (sv_sessions sv)"
  shows "acting sv r = Some (UserID u)" and "is_user (sv_db sv) u"
proof -
  obtain s db where s: "RequestSession (req_Cookie r) (sv_sessions sv) = (Some s, db)"
    and f: "event_call (UserFind (we_tz env) (sess_UserID s)) (sv\<lparr>sv_sessions := db\<rparr>) = (Inr (Inr (Some u)), sv')"
    using run by (auto simp: RequestUser_def web_bind_def sess_call_def web_return_def web_panic_def
        split: prod.splits option.splits if_splits sum.splits)
  obtain w where "UserFind (we_tz env) (sess_UserID s) (sv_event sv) = (Inr (Some u), w)"
    using f by (auto simp: event_call_def split: prod.splits sum.splits error.splits)
  note found = UserFind_found [OF this]
  show "is_user (sv_db sv) u" by (rule found(1))
  show "acting sv r = Some (UserID u)"
    using RequestSession_holder(2) [OF s ok refl] found(2) by (simp add: acting_def)
qed

text \<open>
  The part of the database that is none of \<open>who\<close>'s business, and the changes \<open>who\<close> may make: none to that
  part, and no admins; anybody may register accounts.
\<close>

definition rest :: "string option \<Rightarrow> database \<Rightarrow> database" where
  "rest who d = (case who of None \<Rightarrow> d | Some uid \<Rightarrow> drop_user uid d)"

definition limited :: "string option \<Rightarrow> database \<Rightarrow> database \<Rightarrow> bool" where
  "limited who d d' \<longleftrightarrow> (\<exists>us.
     rest who d' = (rest who d)\<lparr>event_users := event_users (rest who d) @ filter (\<lambda>u. Some (UserID u) \<noteq> who) us\<rparr>
     \<and> (\<forall>u \<in> set us. \<not> IsAdmin u \<and> UserID u \<notin> user_ids d)
     \<and> user_ids d' = user_ids d \<union> UserID ` set us \<and> admin_ids d' = admin_ids d)"

lemma limited_refl [simp]: "limited who d d"
  unfolding limited_def by (rule exI [of _ "[]"]) simp

lemma limited_trans:
  assumes "limited who d d1" and "limited who d1 d2"
  shows "limited who d d2"
proof -
  obtain us where us: "rest who d1 = (rest who d)\<lparr>event_users := event_users (rest who d) @ filter (\<lambda>u. Some (UserID u) \<noteq> who) us\<rparr>"
    "\<forall>u \<in> set us. \<not> IsAdmin u \<and> UserID u \<notin> user_ids d" "user_ids d1 = user_ids d \<union> UserID ` set us" "admin_ids d1 = admin_ids d"
    using assms(1) unfolding limited_def by blast
  obtain vs where vs: "rest who d2 = (rest who d1)\<lparr>event_users := event_users (rest who d1) @ filter (\<lambda>u. Some (UserID u) \<noteq> who) vs\<rparr>"
    "\<forall>u \<in> set vs. \<not> IsAdmin u \<and> UserID u \<notin> user_ids d1" "user_ids d2 = user_ids d1 \<union> UserID ` set vs" "admin_ids d2 = admin_ids d1"
    using assms(2) unfolding limited_def by blast
  show ?thesis
    unfolding limited_def by (rule exI [of _ "us @ vs"]) (use us vs in \<open>auto simp: Un_assoc image_Un\<close>)
qed

lemma limited_confined: "confined uid d d' \<Longrightarrow> limited (Some uid) d d'"
  unfolding limited_def by (rule exI [of _ "[]"]) (simp add: confined_def rest_def)

lemma limited_registers:
  assumes "registers False d d'"
  shows "limited who d d'"
proof -
  obtain u where u: "d' = with_user u d" "UserID u \<notin> user_ids d" "\<not> IsAdmin u" using assms by (auto simp: registers_def)
  let ?u = "u\<lparr>UserLocation := TZLocation_Value (UserLocation u)\<rparr>"
  have d': "d' = d\<lparr>event_users := event_users d @ [?u]\<rparr>" by (simp add: u(1) with_user_def)
  have own: "owned_by uid d' = owned_by uid d" for uid by (simp add: d' owned_by_def fun_eq_iff)
  have "rest who d' = (rest who d)\<lparr>event_users := event_users (rest who d) @ filter (\<lambda>v. Some (UserID v) \<noteq> who) [?u]\<rparr>"
    by (cases who) (simp_all add: rest_def drop_user_def own, simp_all add: d')
  moreover have "user_ids d' = user_ids d \<union> UserID ` set [?u]" by (auto simp: user_ids_def d')
  moreover have "admin_ids d' = admin_ids d" using u(3) by (simp add: u(1) admin_ids_with_user)
  ultimately show ?thesis unfolding limited_def by (intro exI [of _ "[?u]"]) (use u in simp)
qed

text \<open>
  Requests of \<open>who\<close>, who is nobody or not an admin. The relation carries its own precondition along,
  so that it composes.
\<close>

definition legit :: "string option \<Rightarrow> request \<Rightarrow> server \<Rightarrow> bool" where
  "legit who r sv \<longleftrightarrow> sess_ok (sv_sessions sv) \<and> event_inv (sv_db sv) \<and> (acting sv r = None \<or> acting sv r = who)
     \<and> (\<forall>uid. who = Some uid \<longrightarrow> uid \<notin> admin_ids (sv_db sv))"

definition bounded :: "string option \<Rightarrow> request \<Rightarrow> server \<Rightarrow> server \<Rightarrow> bool" where
  "bounded who r sv sv' \<longleftrightarrow> (legit who r sv \<longrightarrow>
     legit who r sv' \<and> limited who (sv_db sv) (sv_db sv') \<and> kv_table (sv_kvs sv') = kv_table (sv_kvs sv))"

lemma acting_shrinks:
  assumes "holder (sv_sessions sv') \<subseteq>\<^sub>m holder (sv_sessions sv)"
  shows "acting sv' r = None \<or> acting sv' r = acting sv r"
proof (cases "req_Cookie r")
  case (Some c)
  with assms show ?thesis
    by (cases "holder (sv_sessions sv') c") (auto simp: acting_def map_le_def dom_def)
qed (simp add: acting_def)

lemma same_state_bounded: "same_state a b \<Longrightarrow> bounded who r a b"
  using acting_shrinks [of b a r] by (auto simp: bounded_def legit_def same_state_def)

interpretation bounding: server_rel "bounded who r" for who r
proof
  show "bounded who r a c" if "bounded who r a b" "bounded who r b c" for a b c
    using that by (auto simp: bounded_def intro: limited_trans)
qed (rule same_state_bounded)

lemma bounded_user:
  assumes "web_rel (bounded who r) (f None)"
    and "\<And>u. who = Some (UserID u) \<Longrightarrow> \<not> IsAdmin u \<Longrightarrow> web_rel (bounded who r) (f (Some u))"
  shows "web_rel (bounded who r) (web_bind (RequestUser env r) f)"
proof (rule web_relI)
  fix sv x sv' assume run: "web_bind (RequestUser env r) f sv = (x, sv')"
  show "bounded who r sv sv'"
  proof (cases "legit who r sv")
    case True
    obtain y sv1 where y: "RequestUser env r sv = (y, sv1)" by fastforce
    have s: "bounded who r sv sv1" by (rule same_state_bounded [OF web_relD [OF RequestUser_reads y]])
    show ?thesis
    proof (cases y)
      case (Inl a)
      with run y s show ?thesis by (simp add: web_bind_def)
    next
      case (Inr cur)
      have f: "f cur sv1 = (x, sv')" using run y Inr by (simp add: web_bind_def)
      have "bounded who r sv1 sv'"
      proof (cases cur)
        case None
        with f assms(1) show ?thesis by (simp add: web_relD)
      next
        case (Some u)
        note found = RequestUser_found [OF y [unfolded Inr Some]]
        have ok: "sess_ok (sv_sessions sv)" using True by (simp add: legit_def)
        obtain row where row: "row \<in> set (event_users (sv_db sv))" "UserID row = UserID u" "IsAdmin row = IsAdmin u"
          using is_userD [OF found(2) [OF ok]] by metis
        have who: "who = Some (UserID u)" using True found(1) [OF ok] by (auto simp: legit_def)
        then have "UserID u \<notin> admin_ids (sv_db sv)" using True by (simp add: legit_def)
        moreover have "UserID u \<in> admin_ids (sv_db sv)" if "IsAdmin u"
          unfolding admin_ids_def using row that by (intro image_eqI [of _ _ row]) auto
        ultimately have "\<not> IsAdmin u" by blast
        from web_relD [OF assms(2) [OF who this] f [unfolded Some]] show ?thesis .
      qed
      with s show ?thesis by (rule bounding.rel_trans)
    qed
  qed (simp add: bounded_def)
qed

text \<open>Runs from states with a property of the database.\<close>

definition web_from :: "(database \<Rightarrow> bool) \<Rightarrow> (server \<Rightarrow> server \<Rightarrow> bool) \<Rightarrow> 'a web \<Rightarrow> bool" where
  "web_from P R m \<longleftrightarrow> (\<forall>sv r sv'. m sv = (r, sv') \<longrightarrow> P (sv_db sv) \<longrightarrow> R sv sv')"

lemma web_from_rel: "web_rel R m \<Longrightarrow> web_from P R m"
  by (simp add: web_from_def web_rel_def)

lemma web_from_if: "(b \<Longrightarrow> web_from P R m) \<Longrightarrow> (\<not> b \<Longrightarrow> web_from P R m') \<Longrightarrow> web_from P R (if b then m else m')"
  by simp

lemma bounded_read:
  assumes m: "web_rel same_state m" and f: "\<And>v. web_from P (bounded who r) (f v)"
  shows "web_from P (bounded who r) (web_bind m f)"
  unfolding web_from_def
proof (intro allI impI)
  fix sv x sv' assume run: "web_bind m f sv = (x, sv')" and P: "P (sv_db sv)"
  obtain y sv1 where y: "m sv = (y, sv1)" by fastforce
  note s = web_relD [OF m y]
  then have "sv_db sv1 = sv_db sv" by (simp add: same_state_def)
  with run y f P have "bounded who r sv1 sv' \<or> sv1 = sv'"
    by (cases y) (auto simp: web_bind_def web_from_def)
  with same_state_bounded [OF s] show "bounded who r sv sv'" by (auto intro: bounding.rel_trans)
qed

lemma bounded_then:
  assumes m: "web_from P (bounded who r) m" and f: "\<And>v. web_rel (bounded who r) (f v)"
  shows "web_from P (bounded who r) (web_bind m f)"
  unfolding web_from_def
proof (intro allI impI)
  fix sv x sv' assume run: "web_bind m f sv = (x, sv')" and P: "P (sv_db sv)"
  obtain y sv1 where y: "m sv = (y, sv1)" by fastforce
  then have s: "bounded who r sv sv1" using m P by (auto simp: web_from_def)
  with run y f show "bounded who r sv sv'"
    by (cases y) (auto simp: web_bind_def intro: bounding.rel_trans web_relD)
qed

lemma bounded_effect:
  assumes "effects S m" and "\<And>d d'. P d \<Longrightarrow> event_inv d \<Longrightarrow> S d d' \<Longrightarrow> limited who d d'"
  shows "web_from P (bounded who r) (event_call m)"
  unfolding web_from_def
proof (intro allI impI)
  fix sv x sv' assume run: "event_call m sv = (x, sv')" and P: "P (sv_db sv)"
  obtain y w where m: "m (sv_event sv) = (y, w)" and sv': "sv' = sv\<lparr>sv_event := w\<rparr>" by (rule event_call_run [OF run])
  show "bounded who r sv sv'"
    unfolding bounded_def
  proof
    assume ok: "legit who r sv"
    then have inv: "event_inv (sv_db sv)" by (simp add: legit_def)
    note e = effectsD [OF assms(1) m inv]
    have l: "limited who (sv_db sv) (committed w)" using e(2) assms(2) [OF P inv] by auto
    then have "admin_ids (committed w) = admin_ids (sv_db sv)" by (auto simp: limited_def)
    with ok e(1) l show "legit who r sv' \<and> limited who (sv_db sv) (sv_db sv') \<and> kv_table (sv_kvs sv') = kv_table (sv_kvs sv)"
      by (simp add: sv' legit_def acting_def split: option.splits)
  qed
qed

lemma bounded_effect_rel:
  assumes "effects S m" and "\<And>d d'. event_inv d \<Longrightarrow> S d d' \<Longrightarrow> limited who d d'"
  shows "web_rel (bounded who r) (event_call m)"
  using bounded_effect [OF assms(1), of "\<lambda>_. True" who r] assms(2) by (simp add: web_from_def web_rel_def)

named_theorems bounds \<open>calls of a request that is not an admin's\<close>

declare bounding.steps [bounds] bounding.reading [OF RenderTemplate_reads, bounds] bounding.reading [OF RequireLogin_reads, bounds]
  kv_call_reads [THEN bounding.reading, bounds] query_reads [THEN bounding.reading, bounds]

lemma bounded_get [bounds]: "only_reads m \<Longrightarrow> web_rel (bounded who r) (event_get m)"
  by (auto intro!: bounding.reading web_reads)

lemma bounded_NewDiscussion [bounds]:
  "who = Some (Owner disc) \<Longrightarrow> web_rel (bounded who r) (event_call (NewDiscussion disc))"
  by (rule bounded_effect_rel [OF effects_NewDiscussion]) (auto intro: limited_confined confined_new_discussion)

lemma bounded_SetInterest [bounds]:
  "who = Some (UserID user) \<Longrightarrow> web_rel (bounded who r) (event_call (SetInterest user disc i))"
  by (rule bounded_effect_rel [OF effects_SetInterest]) (auto intro: limited_confined confined_interest_by)

lemma bounded_SetVerified [bounds]:
  "who = Some (UserID user) \<Longrightarrow> web_rel (bounded who r) (event_call (SetVerified user b))"
  by (rule bounded_effect_rel [OF effects_SetVerified]) (auto intro!: limited_confined confined_update_user)

lemma bounded_UserUpdate [bounds]:
  "who = Some (UserID userNext) \<Longrightarrow> web_rel (bounded who r) (event_call (UserUpdate bc userNext modifier cur new))"
  by (rule bounded_effect_rel [OF effects_UserUpdate]) (auto intro!: limited_confined confined_update_user simp: userUpdateRow_def)

lemma bounded_own_discussion:
  assumes "who = Some uid" and "Owner x = uid"
  shows "Owner disc = uid \<Longrightarrow> DiscussionID disc = did \<Longrightarrow>
      web_from (\<lambda>d. discussion_of d did = Some x) (bounded who r) (event_call (DiscussionUpdate disc))"
    and "web_from (\<lambda>d. discussion_of d did = Some x) (bounded who r) (event_call (DeleteDiscussion did))"
proof -
  show "web_from (\<lambda>d. discussion_of d did = Some x) (bounded who r) (event_call (DiscussionUpdate disc))"
    if "Owner disc = uid" "DiscussionID disc = did"
    by (rule bounded_effect [OF effects_DiscussionUpdate])
      (use that assms in \<open>auto intro!: limited_confined dest: confined_discussion_update\<close>)
  show "web_from (\<lambda>d. discussion_of d did = Some x) (bounded who r) (event_call (DeleteDiscussion did))"
    by (rule bounded_effect [OF effects_DeleteDiscussion])
      (use assms in \<open>auto intro!: limited_confined confined_drop_discussion\<close>)
qed

lemma bounded_find_discussion:
  assumes "\<And>e. web_rel (bounded who r) (f (Inl e))" and "web_rel (bounded who r) (f (Inr None))"
    and "\<And>df. DiscussionID (TheDiscussion df) = did \<Longrightarrow>
      web_from (\<lambda>d. discussion_of d did = Some (TheDiscussion df)) (bounded who r) (f (Inr (Some df)))"
  shows "web_rel (bounded who r) (web_bind (event_call (DiscussionFindByIdFull tz did)) f)"
proof (rule web_relI)
  fix sv x sv' assume run: "web_bind (event_call (DiscussionFindByIdFull tz did)) f sv = (x, sv')"
  obtain y sv1 where y: "event_call (DiscussionFindByIdFull tz did) sv = (y, sv1)" by fastforce
  have same: "same_state sv sv1" by (rule web_relD [OF event_call_reads [OF reads_DiscussionFindByIdFull] y])
  have "bounded who r sv1 sv' \<or> sv1 = sv'"
  proof (cases "\<exists>df. y = Inr (Inr (Some df))")
    case True
    then obtain df where df: "y = Inr (Inr (Some df))" by blast
    then obtain w where w: "DiscussionFindByIdFull tz did (sv_event sv) = (Inr (Some df), w)"
      using y by (auto simp: event_call_def split: prod.splits sum.splits error.splits)
    note found = DiscussionFindByIdFull_found [OF w]
    have "discussion_of (sv_db sv1) did = Some (TheDiscussion df)" using found same by (simp add: same_state_def)
    with assms(3) [of df] discussion_of_Some [OF found] run y df show ?thesis
      by (simp add: web_bind_def web_from_def)
  next
    case False
    with run y assms(1,2) show ?thesis
      by (cases y; cases "projr y"; cases "projr (projr y)") (auto simp: web_bind_def dest: web_relD)
  qed
  with same_state_bounded [OF same] show "bounded who r sv sv'" by (auto intro: bounding.rel_trans)
qed

lemma bounded_edit_discussion:
  assumes "who = Some (UserID cur)" and "\<not> IsAdmin cur" and "DiscussionID (TheDiscussion df) = did"
  shows "web_from (\<lambda>d. discussion_of d did = Some (TheDiscussion df)) (bounded who r) (post_edit_discussion env r cur df)"
proof (cases "MayEditDiscussion cur (TheDiscussion df)")
  case True
  then have own: "Owner (TheDiscussion df) = UserID cur" using assms(2) by (simp add: MayEditDiscussion_def)
  let ?d = "(TheDiscussion df)\<lparr>Title := FormValue r ''title'', Description := FormValue r ''description''\<rparr>"
  have d: "Owner ?d = UserID cur" "DiscussionID ?d = did" using own assms(3) by simp_all
  show ?thesis
    unfolding post_edit_discussion_def Let_def
    using True assms(2) own
    by (simp, intro bounded_read web_from_if bounded_then bounded_own_discussion(1) [OF assms(1) own d]
        web_from_rel [OF bounding.return] web_from_rel [OF bounding.writes(1)] bounds reads web_reads) simp_all
qed (simp add: post_edit_discussion_def web_from_rel [OF bounding.return])

lemma bounded_delete_discussion:
  assumes "who = Some (UserID cur)" and "\<not> IsAdmin cur" and "DiscussionID (TheDiscussion df) = did"
  shows "web_from (\<lambda>d. discussion_of d did = Some (TheDiscussion df)) (bounded who r) (post_delete_discussion cur df)"
proof (cases "MayEditDiscussion cur (TheDiscussion df)")
  case True
  then have own: "Owner (TheDiscussion df) = UserID cur" using assms(2) by (simp add: MayEditDiscussion_def)
  show ?thesis
    unfolding post_delete_discussion_def
    using True assms(3)
    by (simp, intro bounded_then bounded_own_discussion(2) [OF assms(1) own] bounds)
qed (simp add: post_delete_discussion_def web_from_rel [OF bounding.return])

lemma bounded_UidPost [bounds]: "web_rel (bounded who r) (HandleUidPost env r ps)"
proof -
  have disc: "web_rel (bounded who r) (uidPost_discussion env r cur uid action)"
    if "who = Some (UserID cur)" "\<not> IsAdmin cur" for cur uid action
  proof -
    have "web_rel (bounded who r) (post_setinterest r cur df)" "web_rel (bounded who r) (post_setpublic r cur df)" for df
      unfolding post_setinterest_def post_setpublic_def using that by (auto intro!: bounds)
    then show ?thesis
      unfolding uidPost_discussion_def
      by (intro bounded_find_discussion)
        (simp_all add: bounding.return bounded_edit_discussion bounded_delete_discussion web_from_rel that)
  qed
  have user: "web_rel (bounded who r) (uidPost_user env r cur uid action)"
    if "who = Some (UserID cur)" "\<not> IsAdmin cur" for cur uid action
  proof -
    have own: "who = Some (UserID user)" if "MayEditUser cur user" for user
      using that \<open>who = _\<close> \<open>\<not> IsAdmin cur\<close> by (simp add: MayEditUser_def)
    show ?thesis
      unfolding uidPost_user_def post_edit_user_def post_setverified_def post_verify_def post_delete_user_def Let_def
      using that(2) by (intro bounds) (auto dest: own)
  qed
  show ?thesis
    unfolding HandleUidPost_def Let_def
  proof (rule bounded_user, unfold option.case, goal_cases)
    case (2 cur)
    then show ?case by (intro bounds disc user)
  qed (rule bounding.return)
qed

lemma bounded_DiscussionCreate [bounds]: "web_rel (bounded who r) (HandleDiscussionCreate env r)"
  unfolding HandleDiscussionCreate_def Let_def
  by (rule bounded_user) (auto intro!: bounds reads simp: newDiscussion_form_def)

lemma bounded_views [bounds]:
  "web_rel (bounded who r) (HandleHome env r)" "web_rel (bounded who r) (HandleSessionNew env r)"
  "web_rel (bounded who r) (HandleUserNew env r)" "web_rel (bounded who r) (HandleScheduleView env r)"
  "web_rel (bounded who r) (HandleDiscussionNew env r)" "web_rel (bounded who r) (HandleDiscussionNotFound env r)"
  "web_rel (bounded who r) (HandleList env r ps)" "web_rel (bounded who r) (HandleUid env r ps)"
  unfolding HandleHome_def HandleSessionNew_def HandleUserNew_def HandleScheduleView_def HandleDiscussionNew_def
    HandleDiscussionNotFound_def HandleList_def HandleUid_def uid_discussion_def uid_user_def uid_page_def Let_def
  by (intro bounds bounding.reading [OF RequestUser_reads] reads)+

lemma bounded_admin [bounds]:
  "web_rel (bounded who r) (HandleAdminConsole env r ps)" "web_rel (bounded who r) (HandleAdminAction env r ps)"
  "web_rel (bounded who r) (HandleTestAction env r ps)"
  unfolding HandleAdminConsole_def HandleAdminAction_def HandleTestAction_def Let_def
  by (rule bounded_user; simp add: bounding.return)+

lemma DeleteSession_reads [web_reads]: "web_rel same_state (sess_call (DeleteSessionByRequest c))"
proof (rule web_relI)
  fix sv x sv' assume "sess_call (DeleteSessionByRequest c) sv = (x, sv')"
  then obtain e db where d: "DeleteSessionByRequest c (sv_sessions sv) = (e, db)" and sv': "sv' = sv\<lparr>sv_sessions := db\<rparr>"
    by (auto simp: sess_call_def split: prod.splits)
  obtain s db1 where s: "RequestSession c (sv_sessions sv) = (s, db1)" by fastforce
  have "sess_ok db \<and> holder db \<subseteq>\<^sub>m holder (sv_sessions sv)" if ok: "sess_ok (sv_sessions sv)"
  proof -
    note h = RequestSession_holder(1,3) [OF s ok]
    show ?thesis
    proof (cases s)
      case None
      with d s h show ?thesis by (simp add: DeleteSessionByRequest_def)
    next
      case (Some session)
      then have del: "Store_Delete session db1 = (e, db)" using d s by (simp add: DeleteSessionByRequest_def)
      have "holder db \<subseteq>\<^sub>m holder db1"
        using Store_Delete_holder(2,3) [OF del h(1)] by (cases e) (auto simp: map_le_def)
      with Store_Delete_holder(1) [OF del h(1)] h(2) show ?thesis by (blast intro: map_le_trans)
    qed
  qed
  then show "same_state sv sv'" by (simp add: same_state_def sv')
qed

lemma SessionDestroy_reads [web_reads]: "web_rel same_state (HandleSessionDestroy env r)"
  unfolding HandleSessionDestroy_def by (intro web_reads)

text \<open>
  The two handlers that issue sessions. What they do to the other stores does not depend on who sends
  the request, and once they are through they have written a reply.
\<close>

definition confines :: "string option \<Rightarrow> server \<Rightarrow> server \<Rightarrow> bool" where
  "confines who sv sv' \<longleftrightarrow> (event_inv (sv_db sv) \<longrightarrow>
     event_inv (sv_db sv') \<and> limited who (sv_db sv) (sv_db sv') \<and> kv_table (sv_kvs sv') = kv_table (sv_kvs sv))"

interpretation confining: server_rel "confines who" for who
proof
  show "confines who a c" if "confines who a b" "confines who b c" for a b c
    using that by (auto simp: confines_def intro: limited_trans)
qed (simp add: confines_def same_state_def)

lemma confines_sessions: "web_rel (confines who) (sess_call m)"
  by (auto simp: web_rel_def confines_def sess_call_def split: prod.splits)

lemma confines_NewUser:
  assumes "\<not> IsAdmin user"
  shows "web_rel (confines who) (event_call (NewUser bc tz pw user))"
proof (rule web_relI)
  fix sv r sv' assume "event_call (NewUser bc tz pw user) sv = (r, sv')"
  then obtain x w where m: "NewUser bc tz pw user (sv_event sv) = (x, w)" "sv' = sv\<lparr>sv_event := w\<rparr>" by (rule event_call_run)
  show "confines who sv sv'"
    using effectsD [OF effects_NewUser m(1)] m(2) assms limited_registers [of _ _ who] by (auto simp: confines_def)
qed

lemma confines_SessionCreate: "web_rel (confines who) (HandleSessionCreate env r)"
  unfolding HandleSessionCreate_def sessionCreate_for_def FindUser_def Let_def
  by (intro confining.steps confines_sessions confining.reading [OF RenderTemplate_reads]
      query_reads [THEN confining.reading] kv_call_reads [THEN confining.reading])

lemma confines_UserCreate: "web_rel (confines who) (HandleUserCreate env r)"
  unfolding HandleUserCreate_def userCreate_register_def userCreate_fail_def Let_def
  by (intro confining.steps confines_sessions confining.reading [OF RenderTemplate_reads]
      kv_call_reads [THEN confining.reading] confines_NewUser) (simp_all add: zero_user_def)

definition always_writes :: "'a web \<Rightarrow> bool" where
  "always_writes m \<longleftrightarrow> (\<forall>sv v sv'. m sv = (Inr v, sv') \<longrightarrow> sv_written sv')"

lemma writes_steps:
  "always_writes (web_write x)" "always_writes (web_panic e)"
  "(\<And>v. always_writes (f v)) \<Longrightarrow> always_writes (web_bind m f)"
  "(b \<Longrightarrow> always_writes m1) \<Longrightarrow> (\<not> b \<Longrightarrow> always_writes m2) \<Longrightarrow> always_writes (if b then m1 else m2)"
  "always_writes m1 \<Longrightarrow> (\<And>v. always_writes (g v)) \<Longrightarrow> always_writes (case y of None \<Rightarrow> m1 | Some v \<Rightarrow> g v)"
  "(\<And>e. always_writes (h e)) \<Longrightarrow> (\<And>v. always_writes (k v)) \<Longrightarrow> always_writes (case z of Inl e \<Rightarrow> h e | Inr v \<Rightarrow> k v)"
  "(\<And>a c. always_writes (p a c)) \<Longrightarrow> always_writes (case q of (a, c) \<Rightarrow> p a c)"
  by (auto simp: always_writes_def web_write_def web_panic_def web_bind_def split: prod.splits sum.splits option.splits)

lemma writes_RenderTemplate: "always_writes (RenderTemplate env r name data)"
  unfolding RenderTemplate_def by (intro writes_steps)

lemma writes_session_issuers: "always_writes (HandleSessionCreate env r)" "always_writes (HandleUserCreate env r)"
  unfolding HandleSessionCreate_def sessionCreate_for_def HandleUserCreate_def userCreate_register_def userCreate_fail_def Let_def
  by (intro writes_steps writes_RenderTemplate)+

text \<open>The way through the routers: a handler runs only while nothing is written.\<close>

definition serves :: "string option \<Rightarrow> request \<Rightarrow> unit web \<Rightarrow> bool" where
  "serves who r m \<longleftrightarrow> (\<forall>sv x sv'. m sv = (x, sv') \<longrightarrow> legit who r sv \<longrightarrow>
     confines who sv sv' \<and> (x = Inr () \<and> \<not> sv_written sv' \<longrightarrow> legit who r sv'))"

lemma serves_bounded: "web_rel (bounded who r) m \<Longrightarrow> serves who r m"
  by (auto simp: serves_def web_rel_def bounded_def confines_def legit_def)

lemma serves_issuer: "web_rel (confines who) m \<Longrightarrow> always_writes m \<Longrightarrow> serves who r m"
  by (auto simp: serves_def web_rel_def always_writes_def)

lemma serves_read:
  assumes m: "web_rel same_state m" and f: "\<And>v. serves who r (f v)"
  shows "serves who r (web_bind m f)"
  unfolding serves_def
proof (intro allI impI)
  fix sv x sv' assume run: "web_bind m f sv = (x, sv')" and ok: "legit who r sv"
  obtain y sv1 where y: "m sv = (y, sv1)" by fastforce
  have b: "legit who r sv1" "confines who sv sv1"
    using same_state_bounded [OF web_relD [OF m y], of who r] ok confining.rel_same [OF web_relD [OF m y]] by (auto simp: bounded_def)
  show "confines who sv sv' \<and> (x = Inr () \<and> \<not> sv_written sv' \<longrightarrow> legit who r sv')"
  proof (cases y)
    case (Inl a)
    with run y b show ?thesis by (auto simp: web_bind_def)
  next
    case (Inr v)
    with run y have "f v sv1 = (x, sv')" by (simp add: web_bind_def)
    with f [of v] b show ?thesis by (auto simp: serves_def intro: confining.rel_trans)
  qed
qed

lemma serves_then:
  assumes m: "serves who r m" and k: "serves who r k"
  shows "serves who r (web_bind m (\<lambda>_. unless_written k))"
  unfolding serves_def
proof (intro allI impI)
  fix sv x sv' assume run: "web_bind m (\<lambda>_. unless_written k) sv = (x, sv')" and ok: "legit who r sv"
  obtain y sv1 where y: "m sv = (y, sv1)" by fastforce
  have s: "confines who sv sv1" "y = Inr () \<Longrightarrow> \<not> sv_written sv1 \<Longrightarrow> legit who r sv1"
    using m y ok by (auto simp: serves_def)
  show "confines who sv sv' \<and> (x = Inr () \<and> \<not> sv_written sv' \<longrightarrow> legit who r sv')"
  proof (cases "y = Inr () \<and> \<not> sv_written sv1")
    case True
    with run y have "k sv1 = (x, sv')" by (simp add: web_bind_def unless_written_def)
    with k s True show ?thesis by (auto simp: serves_def intro: confining.rel_trans)
  next
    case False
    with run y have "sv' = sv1 \<and> (x = Inr () \<longrightarrow> sv_written sv1)"
      by (cases y) (auto simp: web_bind_def unless_written_def split: if_splits)
    with s(1) show ?thesis by auto
  qed
qed

lemma serves_dispatch: "serves who r (dispatch env r ps h)"
  by (cases h) (simp_all add: serves_bounded bounds bounding.reading [OF SessionDestroy_reads]
      serves_issuer confines_SessionCreate confines_UserCreate writes_session_issuers)

lemma serves_via:
  assumes "\<And>m. serves who r m \<Longrightarrow> serves who r (guard m)"
  shows "serves who r (route_via env Lookup r router guard)"
  unfolding route_via_def
  by (auto simp: serves_bounded bounding.return intro: assms serves_dispatch split: option.split)

lemma serves_ServeHTTP: "serves who r (ServeHTTP env Lookup r)"
proof -
  have new: "web_rel same_state NewMiddlewareResponseWriter"
    by (simp add: web_rel_def NewMiddlewareResponseWriter_def same_state_def)
  have log: "web_rel same_state (LogRequest env r)" unfolding LogRequest_def by (intro web_reads)
  have active: "serves who r (active_guard u m)" if "serves who r m" for u m
    unfolding active_guard_def
    by (rule serves_read [OF kv_call_reads(2)]) (simp add: that serves_bounded bounding.writes)
  show ?thesis
    unfolding ServeHTTP_def
    by (intro serves_read [OF new] serves_read [OF log] serves_read [OF RequestUser_reads] serves_then serves_via active
        serves_bounded [OF bounding.writes(2)])
      (simp_all add: serves_bounded bounding.return bounding.reading [OF RequireLogin_reads])
qed


definition sample_server1 :: server where
  "sample_server1 = snd (ServeHTTP sample_env sample_lookup bob_logs_in sample_server)"

definition bob_deletes :: request where
  "bob_deletes = sample_request ''POST'' ''/uid/discussion/disc_2/delete'' [] (reply_cookie (sv_replies sample_server1))"

lemma sample_env_ok: "env_ok sample_env"
  by (simp add: env_ok_def sample_env_def stable.slice_sort_axioms empty_batch_ok_def)

lemma sample_server1_inv: "event_inv (sv_db sample_server1)"
  using web_relD [OF keeps_ServeHTTP [OF sample_env_ok, of sample_lookup bob_logs_in] surjective_pairing, of sample_server] sample_server_inv
  by (simp add: keeps_event_def sample_server1_def)

lemma bob_deletes_run:
  "sess_ok (sv_sessions sample_server1) \<and> acting sample_server1 bob_deletes = Some ''usr_b''
   \<and> ''usr_b'' \<notin> admin_ids (sv_db sample_server1) \<and> discussion_of (sv_db sample_server1) ''disc_2'' \<noteq> None
   \<and> (case ServeHTTP sample_env sample_lookup bob_deletes sample_server1 of (x, sv) \<Rightarrow>
        x = Inr () \<and> discussion_of (sv_db sv) ''disc_2'' = None)"
proof -
  have "case ServeHTTP sample_env sample_lookup bob_logs_in sample_server of (_, sv1) \<Rightarrow>
      case sample_request ''POST'' ''/uid/discussion/disc_2/delete'' [] (reply_cookie (sv_replies sv1)) of r \<Rightarrow>
      sess_ok (sv_sessions sv1) \<and> acting sv1 r = Some ''usr_b''
      \<and> ''usr_b'' \<notin> admin_ids (sv_db sv1) \<and> discussion_of (sv_db sv1) ''disc_2'' \<noteq> None
      \<and> (case ServeHTTP sample_env sample_lookup r sv1 of (x, sv) \<Rightarrow> x = Inr () \<and> discussion_of (sv_db sv) ''disc_2'' = None)"
    by code_simp
  then show ?thesis by (simp add: split_beta sample_server1_def bob_deletes_def)
qed


section \<open>Where sessions come from\<close>

text \<open>
  The two ways to a session: the name and the password of an account, or an account that the request
  itself has registered with a name and a password.
\<close>

definition credentials :: "web_env \<Rightarrow> request \<Rightarrow> database \<Rightarrow> string \<Rightarrow> bool" where
  "credentials env r d uid \<longleftrightarrow> (\<exists>u \<in> set (event_users d). UserID u = uid \<and> Username u = FormValue r ''username''
     \<and> CheckPassword (we_bcrypt env) u (FormValue r ''password''))"

definition registered :: "web_env \<Rightarrow> request \<Rightarrow> database \<Rightarrow> database \<Rightarrow> string \<Rightarrow> bool" where
  "registered env r d d' uid \<longleftrightarrow> uid \<notin> user_ids d \<and> (\<exists>u \<in> set (event_users d'). UserID u = uid \<and> Username u = FormValue r ''Username''
     \<and> GenerateFromPassword (we_bcrypt env) (FormValue r ''Password'') hashCost = Inr (HashedPassword u))"

definition issues_for :: "string set \<Rightarrow> server \<Rightarrow> server \<Rightarrow> bool" where
  "issues_for U sv sv' \<longleftrightarrow> sv_db sv' = sv_db sv \<and> (sess_ok (sv_sessions sv) \<longrightarrow> sess_ok (sv_sessions sv') \<and>
     (\<forall>c uid e. holder (sv_sessions sv') c = Some (uid, e) \<longrightarrow> uid \<in> U \<or> holder (sv_sessions sv) c = Some (uid, e)))"

interpretation issuing: server_rel "issues_for U" for U
proof
  show "issues_for U a c" if "issues_for U a b" "issues_for U b c" for a b c
    using that unfolding issues_for_def by metis
  show "issues_for U a b" if "same_state a b" for a b
    using that unfolding issues_for_def same_state_def map_le_def dom_def by auto
qed

lemma issues_NewSession: "uid \<in> U \<Longrightarrow> web_rel (issues_for U) (sess_call (NewSession uid))"
proof (rule web_relI)
  fix sv x sv' assume uid: "uid \<in> U" and run: "sess_call (NewSession uid) sv = (x, sv')"
  then obtain s err ck db where n: "NewSession uid (sv_sessions sv) = ((s, err, ck), db)" and sv': "sv' = sv\<lparr>sv_sessions := db\<rparr>"
    by (auto simp: sess_call_def split: prod.splits)
  show "issues_for U sv sv'"
    unfolding issues_for_def sv'
    using NewSession_holder(1,6,7) [OF n] uid by (cases err) auto
qed

lemma issues_FindOrCreate: "uid \<in> U \<Longrightarrow> web_rel (issues_for U) (sess_call (FindOrCreateSession c uid))"
proof (rule web_relI)
  fix sv x sv' assume uid: "uid \<in> U" and run: "sess_call (FindOrCreateSession c uid) sv = (x, sv')"
  obtain s db1 where s: "RequestSession c (sv_sessions sv) = (s, db1)" by fastforce
  let ?sv1 = "sv\<lparr>sv_sessions := db1\<rparr>"
  have "sess_call (RequestSession c) sv = (Inr s, ?sv1)" using s by (simp add: sess_call_def)
  then have r: "issues_for U sv ?sv1" by (intro issuing.rel_same web_relD [OF RequestSession_reads])
  obtain z db2 where n: "NewSession uid db1 = (z, db2)" by fastforce
  then have "sess_call (NewSession uid) ?sv1 = (Inr z, sv\<lparr>sv_sessions := db2\<rparr>)" by (simp add: sess_call_def)
  then have "issues_for U ?sv1 (sv\<lparr>sv_sessions := db2\<rparr>)" by (rule web_relD [OF issues_NewSession [OF uid]])
  with r have "issues_for U sv (sv\<lparr>sv_sessions := db2\<rparr>)" by (rule issuing.rel_trans)
  moreover have "sv' = sv\<lparr>sv_sessions := db2\<rparr> \<or> sv' = ?sv1"
    using run s n by (auto simp: sess_call_def FindOrCreateSession_def Let_def split: prod.splits option.splits if_splits)
  ultimately show "issues_for U sv sv'" using r by auto
qed

lemma FindUser_credentials:
  assumes "FindUser env name pw sv = (Inr (Inr u), sv')"
  shows "\<exists>row \<in> set (event_users (sv_db sv)). UserID row = UserID u \<and> Username row = name \<and> CheckPassword (we_bcrypt env) row pw"
proof -
  obtain w where "UserFindByUsername (we_tz env) name (sv_event sv) = (Inr (Some u), w)" and pw: "CheckPassword (we_bcrypt env) u pw"
    using assms by (auto simp: FindUser_def web_bind_def web_return_def event_call_def
        split: prod.splits sum.splits option.splits if_splits error.splits)
  note found = UserFindByUsername_found [OF this(1)]
  obtain row where "row \<in> set (event_users (sv_db sv))" "UserID row = UserID u" "Username row = Username u" "HashedPassword row = HashedPassword u"
    using is_userD [OF found(1)] by metis
  then show ?thesis using found(2) pw by (auto simp: CheckPassword_def)
qed

lemma SessionCreate_issues:
  assumes "HandleSessionCreate env r sv = (x, sv')"
  shows "issues_for {uid. credentials env r (sv_db sv) uid} sv sv'"
proof -
  let ?U = "{uid. credentials env r (sv_db sv) uid}"
  obtain y sv1 where y: "FindUser env (FormValue r ''username'') (FormValue r ''password'') sv = (y, sv1)" by fastforce
  have "web_rel same_state (FindUser env (FormValue r ''username'') (FormValue r ''password''))"
    unfolding FindUser_def by (intro query_reads pages.steps)
  from web_relD [OF this y] have s: "issues_for ?U sv sv1" by (rule issuing.rel_same)
  have rest: "web_rel (issues_for ?U) (sessionCreate_for env r found)" if "\<And>u. found = Inr u \<Longrightarrow> UserID u \<in> ?U" for found
    using that unfolding sessionCreate_for_def Let_def
    by (cases found; simp only: sum.case; intro issuing.steps issuing.reading [OF RenderTemplate_reads]
        kv_call_reads [THEN issuing.reading] issues_FindOrCreate) auto
  show ?thesis
  proof (cases y)
    case (Inl a)
    with assms y s show ?thesis by (simp add: HandleSessionCreate_def Let_def web_bind_def)
  next
    case (Inr found)
    have "UserID u \<in> ?U" if "found = Inr u" for u
      using FindUser_credentials [OF y [unfolded Inr that]] by (auto simp: credentials_def)
    from web_relD [OF rest [OF this]] have "issues_for ?U sv1 sv'"
      using assms y Inr by (simp add: HandleSessionCreate_def web_bind_def)
    with s show ?thesis by (rule issuing.rel_trans)
  qed
qed

text \<open>What a whole request may do to the sessions.\<close>

definition grants :: "web_env \<Rightarrow> request \<Rightarrow> server \<Rightarrow> server \<Rightarrow> bool" where
  "grants env r sv sv' \<longleftrightarrow> (event_inv (sv_db sv) \<longrightarrow> sess_ok (sv_sessions sv) \<longrightarrow> sess_ok (sv_sessions sv') \<and>
     (\<forall>c uid e. holder (sv_sessions sv') c = Some (uid, e) \<longrightarrow>
        holder (sv_sessions sv) c = Some (uid, e) \<or> credentials env r (sv_db sv) uid \<or> registered env r (sv_db sv) (sv_db sv') uid))"

lemma grants_after_read:
  assumes "same_state a b" and "grants env r b c"
  shows "grants env r a c"
proof -
  have "holder (sv_sessions a) x = Some y" if "holder (sv_sessions b) x = Some y" "sess_ok (sv_sessions a)" for x y
    using assms(1) that by (auto simp: same_state_def map_le_def dom_def)
  with assms show ?thesis unfolding grants_def same_state_def by metis
qed

lemma grants_issues: "issues_for {uid. credentials env r (sv_db sv) uid} sv sv' \<Longrightarrow> grants env r sv sv'"
  by (auto simp: grants_def issues_for_def)

lemma grants_read: "same_state sv sv' \<Longrightarrow> grants env r sv sv'"
  by (rule grants_issues) (rule issuing.rel_same)

lemma grants_bind_read:
  assumes m: "web_rel same_state m" and f: "\<And>v. web_rel (grants env r) (f v)"
  shows "web_rel (grants env r) (web_bind m f)"
proof (rule web_relI)
  fix sv x sv' assume run: "web_bind m f sv = (x, sv')"
  obtain y sv1 where y: "m sv = (y, sv1)" by fastforce
  note s = web_relD [OF m y]
  show "grants env r sv sv'"
  proof (cases y)
    case (Inl a)
    with run y s show ?thesis by (simp add: web_bind_def grants_read)
  next
    case (Inr v)
    with run y have "f v sv1 = (x, sv')" by (simp add: web_bind_def)
    from grants_after_read [OF s web_relD [OF f this]] show ?thesis .
  qed
qed

lemma parseProfile_name [simp]:
  "Username (parseProfile env r u) = Username u" "HashedPassword (parseProfile env r u) = HashedPassword u"
  by (simp_all add: parseProfile_def Let_def split: sum.split)

lemma NewUser_registered:
  assumes new: "NewUser (we_bcrypt env) tz (FormValue r ''Password'') user w = (Inr u, w')" and inv: "event_inv (committed w)"
    and user: "Username user = FormValue r ''Username''" "HashedPassword user = ''''"
  shows "registered env r (committed w) (committed w') (UserID u)"
proof -
  note ns = NewUser_success [OF new]
  obtain w0 where ins: "db_loop (sql_insert_user u) w0 = (Inr (), w')" and w0: "committed w0 = committed w" using ns(1) by blast
  have post: "committed w' = with_user u (committed w)" "UserID u \<notin> user_ids (committed w)"
    using tx_outcome_Inr [OF insert_user.stmt_outcome [OF _ ins]] w0 inv ns by auto
  have "GenerateFromPassword (we_bcrypt env) (FormValue r ''Password'') hashCost = Inr (HashedPassword u)"
    using ns(3) user(2) by (auto simp: newUserPassword_def split: if_splits sum.splits)
  then show ?thesis using post ns(2) user(1) by (auto simp: registered_def with_user_def)
qed

lemma register_grants:
  assumes "Username user = FormValue r ''Username''" and "HashedPassword user = ''''"
  shows "web_rel (grants env r) (userCreate_register env r user)"
proof (rule web_relI)
  fix sv x sv' assume run: "userCreate_register env r user sv = (x, sv')"
  let ?new = "event_call (NewUser (we_bcrypt env) (we_tz env) (FormValue r ''Password'') user)"
  obtain y sv1 where y: "?new sv = (y, sv1)" by fastforce
  obtain z w where z: "NewUser (we_bcrypt env) (we_tz env) (FormValue r ''Password'') user (sv_event sv) = (z, w)"
    and sv1: "sv1 = sv\<lparr>sv_event := w\<rparr>" and yz: "\<And>v. y = Inr v \<Longrightarrow> z = v" using event_call_run [OF y] by metis
  let ?U = "{uid. registered env r (sv_db sv) (sv_db sv1) uid}"
  have sess: "sv_sessions sv1 = sv_sessions sv" by (simp add: sv1)
  show "grants env r sv sv'"
    unfolding grants_def
  proof (intro impI)
    assume inv: "event_inv (sv_db sv)" and ok: "sess_ok (sv_sessions sv)"
    have "issues_for ?U sv1 sv'"
    proof (cases y)
      case (Inl a)
      with run y show ?thesis by (simp add: userCreate_register_def web_bind_def issuing.rel_refl)
    next
      case (Inr v)
      have u: "UserID u \<in> ?U" if "v = Inr u" for u
        using NewUser_registered [OF z [unfolded yz [OF Inr] that] inv assms] by (simp add: sv1)
      have "web_rel (issues_for ?U) (case v of
          Inl err \<Rightarrow> if IsValidationError (Some err) then userCreate_fail env r user (TError err) else web_panic err
        | Inr u \<Rightarrow>
            web_bind (sess_call (NewSession (UserID u))) (\<lambda>(session, err, cookie).
            web_bind (raw_write (SetCookie cookie)) (\<lambda>_.
            case err of Some e \<Rightarrow> web_panic e | None \<Rightarrow> web_write (Redirect ''/?flash=User+created''))))"
        using u unfolding userCreate_fail_def
        by (cases v; simp only: sum.case; intro issuing.steps issuing.reading [OF RenderTemplate_reads] issues_NewSession)
      from web_relD [OF this] show ?thesis using run y Inr by (simp add: userCreate_register_def web_bind_def)
    qed
    with ok sess show "sess_ok (sv_sessions sv') \<and> (\<forall>c uid e. holder (sv_sessions sv') c = Some (uid, e) \<longrightarrow>
        holder (sv_sessions sv) c = Some (uid, e) \<or> credentials env r (sv_db sv) uid \<or> registered env r (sv_db sv) (sv_db sv') uid)"
      by (auto simp: issues_for_def)
  qed
qed

lemma UserCreate_grants: "web_rel (grants env r) (HandleUserCreate env r)"
proof -
  have fail: "web_rel (grants env r) (userCreate_fail env r u e)" for u e
    unfolding userCreate_fail_def using web_relD [OF RenderTemplate_reads] by (intro web_relI grants_read) blast
  have reg: "web_rel (grants env r) (userCreate_register env r (u\<lparr>IsVerified := b\<rparr>))"
    "web_rel (grants env r) (userCreate_register env r u)"
    if "u = parseProfile env r (zero_user\<lparr>Username := FormValue r ''Username''\<rparr>)" for u b
    by (rule register_grants; simp add: that zero_user_def)+
  show ?thesis
    unfolding HandleUserCreate_def Let_def
    by (intro grants_bind_read [OF kv_call_reads(1)])
      (auto simp: fail reg intro!: grants_bind_read [OF kv_call_reads(2)] split: sum.split)
qed

text \<open>All other handlers issue no sessions.\<close>

definition shrinks :: "server \<Rightarrow> server \<Rightarrow> bool" where
  "shrinks sv sv' \<longleftrightarrow> (sess_ok (sv_sessions sv) \<longrightarrow> sess_ok (sv_sessions sv') \<and> holder (sv_sessions sv') \<subseteq>\<^sub>m holder (sv_sessions sv))"

interpretation shrinking: server_rel shrinks
  by unfold_locales (auto simp: shrinks_def same_state_def intro: map_le_trans)

lemma shrinks_other: "web_rel shrinks (event_call m)" "web_rel shrinks (event_get f)" "web_rel shrinks (kv_call g)"
  by (auto simp: web_rel_def shrinks_def event_call_def event_get_def kv_call_def split: prod.splits sum.splits error.splits)

lemmas shrink_steps = shrinking.steps shrinks_other shrinking.reading [OF RequestUser_reads] shrinking.reading [OF RenderTemplate_reads]
  shrinking.reading [OF RequireLogin_reads]

lemma shrinks_dispatch:
  assumes "h \<noteq> Route_SessionCreate" and "h \<noteq> Route_UserCreate"
  shows "web_rel shrinks (dispatch env r ps h)"
proof -
  have pages: "web_rel shrinks (HandleHome env r)" "web_rel shrinks (HandleSessionNew env r)" "web_rel shrinks (HandleUserNew env r)"
    "web_rel shrinks (HandleScheduleView env r)" "web_rel shrinks (HandleDiscussionNew env r)" "web_rel shrinks (HandleDiscussionNotFound env r)"
    "web_rel shrinks (HandleList env r ps)" "web_rel shrinks (HandleUid env r ps)" "web_rel shrinks (HandleDiscussionCreate env r)"
    unfolding HandleHome_def HandleSessionNew_def HandleUserNew_def HandleScheduleView_def HandleDiscussionNew_def
      HandleDiscussionNotFound_def HandleList_def HandleUid_def uid_discussion_def uid_user_def uid_page_def HandleDiscussionCreate_def Let_def
    by (intro shrink_steps)+
  have post: "web_rel shrinks (HandleUidPost env r ps)"
    unfolding HandleUidPost_def uidPost_discussion_def uidPost_user_def post_setinterest_def post_edit_discussion_def
      post_delete_discussion_def post_setpublic_def post_edit_user_def post_setverified_def post_verify_def post_delete_user_def Let_def
    by (intro shrink_steps)
  have admin: "web_rel shrinks (HandleAdminConsole env r ps)" "web_rel shrinks (HandleTestAction env r ps)" "web_rel shrinks (HandleAdminAction env r ps)"
    unfolding HandleAdminConsole_def console_content_def HandleTestAction_def set_test_mode_def HandleAdminAction_def admin_runschedule_def
      main_MakeSchedule_def getSearchDuration_def admin_setvcode_def admin_setstatus_def flashAccumulator_def admin_setLocked_def
      admin_location_def Let_def
    by (intro shrink_steps)+
  show ?thesis
    using assms by (cases h) (simp_all add: pages post admin shrinking.steps shrinking.reading [OF SessionDestroy_reads])
qed

lemma shrinks_grants: "shrinks sv sv' \<Longrightarrow> grants env r sv sv'"
  by (auto simp: shrinks_def grants_def map_le_def dom_def)

text \<open>What \<^verbatim>\<open>httprouter\<close> promises: it finds a route that was registered, for the method of the request.\<close>

definition lookup_ok :: "lookup \<Rightarrow> bool" where
  "lookup_ok Lookup \<longleftrightarrow> (\<forall>router m p h ps. Lookup router m p = Some (h, ps) \<longrightarrow> (\<exists>pat. (m, pat, h) \<in> set router))"

text \<open>A stage of the way either issues no session, or it grants one and has written its reply.\<close>

definition issues_or :: "(server \<Rightarrow> server \<Rightarrow> bool) \<Rightarrow> web_env \<Rightarrow> request \<Rightarrow> unit web \<Rightarrow> bool" where
  "issues_or R env r m \<longleftrightarrow> (\<forall>sv x sv'. m sv = (x, sv') \<longrightarrow> R sv sv' \<or> (grants env r sv sv' \<and> (x = Inr () \<longrightarrow> sv_written sv')))"

lemma issues_or_rel: "web_rel R m \<Longrightarrow> issues_or R env r m"
  by (auto simp: issues_or_def web_rel_def)

lemma issues_or_issuer: "web_rel (grants env r) m \<Longrightarrow> always_writes m \<Longrightarrow> issues_or R env r m"
  by (auto simp: issues_or_def web_rel_def always_writes_def)

lemma stage_last:
  assumes m: "issues_or shrinks env r m" and k: "web_rel shrinks k"
  shows "web_rel (grants env r) (web_bind m (\<lambda>_. unless_written k))"
proof (rule web_relI)
  fix sv x sv' assume run: "web_bind m (\<lambda>_. unless_written k) sv = (x, sv')"
  obtain y sv1 where y: "m sv = (y, sv1)" by fastforce
  then consider "shrinks sv sv1" | "grants env r sv sv1" "y = Inr () \<longrightarrow> sv_written sv1" using m by (auto simp: issues_or_def)
  then show "grants env r sv sv'"
  proof cases
    case 1
    moreover have "shrinks sv1 sv'"
      using run y k by (cases y) (auto simp: web_bind_def unless_written_def shrinking.rel_refl split: if_splits dest: web_relD)
    ultimately show ?thesis by (blast intro: shrinks_grants shrinking.rel_trans)
  next
    case 2
    with run y have "sv' = sv1" by (cases y) (auto simp: web_bind_def unless_written_def)
    with 2 show ?thesis by simp
  qed
qed

lemma stage_first:
  assumes m: "issues_or same_state env r m" and k: "web_rel (grants env r) k"
  shows "web_rel (grants env r) (web_bind m (\<lambda>_. unless_written k))"
proof (rule web_relI)
  fix sv x sv' assume run: "web_bind m (\<lambda>_. unless_written k) sv = (x, sv')"
  obtain y sv1 where y: "m sv = (y, sv1)" by fastforce
  then consider "same_state sv sv1" | "grants env r sv sv1" "y = Inr () \<longrightarrow> sv_written sv1" using m by (auto simp: issues_or_def)
  then show "grants env r sv sv'"
  proof cases
    case 1
    moreover have "grants env r sv1 sv'"
      using run y k by (cases y) (auto simp: web_bind_def unless_written_def grants_read split: if_splits dest: web_relD)
    ultimately show ?thesis by (rule grants_after_read)
  next
    case 2
    with run y have "sv' = sv1" by (cases y) (auto simp: web_bind_def unless_written_def)
    with 2 show ?thesis by simp
  qed
qed

lemma issues_or_read:
  assumes m: "web_rel same_state m" and f: "\<And>v. issues_or shrinks env r (f v)"
  shows "issues_or shrinks env r (web_bind m f)"
  unfolding issues_or_def
proof (intro allI impI)
  fix sv x sv' assume run: "web_bind m f sv = (x, sv')"
  obtain y sv1 where y: "m sv = (y, sv1)" by fastforce
  note s = web_relD [OF m y]
  show "shrinks sv sv' \<or> (grants env r sv sv' \<and> (x = Inr () \<longrightarrow> sv_written sv'))"
  proof (cases y)
    case (Inl a)
    with run y s show ?thesis by (simp add: web_bind_def shrinking.rel_same)
  next
    case (Inr v)
    with run y have "f v sv1 = (x, sv')" by (simp add: web_bind_def)
    then have "shrinks sv1 sv' \<or> (grants env r sv1 sv' \<and> (x = Inr () \<longrightarrow> sv_written sv'))"
      using f unfolding issues_or_def by blast
    with shrinking.rel_trans [OF shrinking.rel_same [OF s]] grants_after_read [OF s] show ?thesis by blast
  qed
qed

lemma grants_ServeHTTP:
  assumes ok: "lookup_ok Lookup"
  shows "web_rel (grants env r) (ServeHTTP env Lookup r)"
proof -
  have routes: "\<exists>m pat. (m, pat, h) \<in> set router" if "Lookup router m p = Some (h, ps)" for router m p h ps
    using ok that unfolding lookup_ok_def by blast
  have new: "web_rel same_state NewMiddlewareResponseWriter"
    by (simp add: web_rel_def NewMiddlewareResponseWriter_def same_state_def)
  have log: "web_rel same_state (LogRequest env r)" unfolding LogRequest_def by (intro web_reads)
  have sc: "web_rel (grants env r) (HandleSessionCreate env r)"
    using SessionCreate_issues grants_issues by (blast intro: web_relI)
  have "issues_or same_state env r (dispatch env r ps h)" if "Lookup always_router m p = Some (h, ps)" for m p h ps
    using routes [OF that] issues_or_rel [OF RenderTemplate_reads] issues_or_rel [OF pages.writes(1)]
    by (auto simp: always_router_def HandleHome_def HandleSessionNew_def issues_or_issuer [OF sc writes_session_issuers(1)])
  then have always: "issues_or same_state env r (route_via env Lookup r always_router (\<lambda>h. h))"
    unfolding route_via_def by (auto intro!: issues_or_rel web_reads split: option.split)
  have "issues_or shrinks env r (dispatch env r ps h)" if "Lookup public_router m p = Some (h, ps)" for m p h ps
  proof (cases "h = Route_UserCreate")
    case True
    then show ?thesis by (simp add: issues_or_issuer [OF UserCreate_grants writes_session_issuers(2)])
  next
    case False
    then show ?thesis using routes [OF that] by (intro issues_or_rel shrinks_dispatch) (auto simp: public_router_def)
  qed
  then have public: "issues_or shrinks env r (route_via env Lookup r public_router (active_guard u))" for u
    unfolding route_via_def active_guard_def
    by (auto intro!: issues_or_read [OF kv_call_reads(2)] simp: issues_or_rel [OF shrinking.return] issues_or_rel [OF shrinking.writes(2)]
        split: option.split)
  have other: "web_rel shrinks (route_via env Lookup r router guard)"
    if "router = userAuth_router \<or> router = admin_router" "\<And>m. web_rel shrinks m \<Longrightarrow> web_rel shrinks (guard m)" for router guard
  proof -
    have "web_rel shrinks (dispatch env r ps h)" if "Lookup router m p = Some (h, ps)" for m p h ps
      using routes [OF that] \<open>router = userAuth_router \<or> router = admin_router\<close>
      by (intro shrinks_dispatch) (auto simp: userAuth_router_def admin_router_def)
    then show ?thesis unfolding route_via_def by (auto intro!: that(2) shrinking.steps split: option.split)
  qed
  have unless: "web_rel shrinks (unless_written k)" if "web_rel shrinks k" for k
    using that by (auto simp: web_rel_def unless_written_def shrinking.rel_refl)
  show ?thesis
    unfolding ServeHTTP_def
    by (intro grants_bind_read [OF new] grants_bind_read [OF log] grants_bind_read [OF RequestUser_reads]
        stage_first [OF always] stage_last [OF public] shrinking.bind other unless shrinking.writes)
      (simp_all add: shrinking.return shrinking.reading [OF RequireLogin_reads])
qed

lemma sample_lookup_ok: "lookup_ok sample_lookup"
proof -
  have "\<exists>pat. (m, pat, h) \<in> set router" if "sample_lookup router m p = Some (h, ps)" for router m p h ps
    using that
  proof (induction router m p rule: sample_lookup.induct)
    case (2 m' pat h' routes m p)
    then show ?case by (auto split: option.splits if_splits)
  qed simp
  then show ?thesis by (auto simp: lookup_ok_def)
qed

end
