(* ===== verification/Event_Load.thy ===== *)
theory Event_Load
  imports Web_Server
begin

text \<open>
  Opening the event database, \<open>openDb\<close> and \<open>initDb\<close> of \<^verbatim>\<open>event/eventdb.go\<close>, and loading an event,
  \<^verbatim>\<open>event/event.go\<close>: the schema is created in a new file, the version of an old one is checked, and the
  account of the administrator is created or gets the password of the command line.

  A database file is its schema version, the names of its tables, and the world of \<open>Event_Store\<close>, whose
  committed database is the tables' content; the engine's faults are those of that world. Opening the
  driver may fail too, which is an argument. \<open>log.Fatalf\<close> ends the process: \<open>Exited\<close>.
\<close>

section \<open>The schema\<close>

record event_file =
  file_version :: int
  file_tables :: "string list"
  file_world :: world

text \<open>What the schema statements of the open transaction read and write: version and tables.\<close>

type_synonym schema = "int \<times> string list"

definition codeSchemaVersion :: int where "codeSchemaVersion = 2"

definition ext_Exec :: "(schema \<Rightarrow> error + schema) \<Rightarrow> schema \<Rightarrow> world \<Rightarrow> (error + schema) \<times> world" where
  "ext_Exec s x w = (case next_fault w of (Some e, w1) \<Rightarrow> (Inl (Sqlite e), w1) | (None, w1) \<Rightarrow> (s x, w1))"

definition set_user_version :: "int \<Rightarrow> schema \<Rightarrow> error + schema" where
  "set_user_version v x = Inr (v, snd x)"

definition create_table :: "string \<Rightarrow> schema \<Rightarrow> error + schema" where
  "create_table name x =
    (if name \<in> set (snd x) then Inl (Sqlite (SqliteError 1 1)) else Inr (fst x, snd x @ [name]))"

definition event_tables :: "string list" where
  "event_tables = [''event_users'', ''event_discussions'', ''event_interest'', ''event_locations'', ''event_days'',
     ''event_slots'', ''event_discussions_possible_slots'', ''event_schedule'']"

fun create_tables :: "string list \<Rightarrow> schema \<Rightarrow> world \<Rightarrow> (error + schema) \<times> world" where
  "create_tables [] x w = (Inr x, w)"
| "create_tables (t # ts) x w =
    (case ext_Exec (create_table t) x w of
       (Inl err, w1) \<Rightarrow> (Inl (errOrRetry (''Creating table '' @ t) err), w1)
     | (Inr x1, w1) \<Rightarrow> create_tables ts x1 w1)"

definition initDb_tx :: "schema \<Rightarrow> world \<Rightarrow> (error + schema) \<times> world" where
  "initDb_tx x w =
    (case ext_Exec (set_user_version codeSchemaVersion) x w of
       (Inl err, w1) \<Rightarrow> (Inl (errOrRetry ''Setting user_version'' err), w1)
     | (Inr x1, w1) \<Rightarrow> create_tables event_tables x1 w1)"

text \<open>The new tables are empty: \<open>initDb\<close> of \<open>Event_Store\<close>. Without a commit nothing changes on disk.\<close>

definition openDb :: "error option \<Rightarrow> event_file \<Rightarrow> (error + unit) \<times> event_file" where
  "openDb open_err f =
    (case open_err of
       Some err \<Rightarrow> (Inl err, f)
     | None \<Rightarrow>
        (case next_fault (file_world f) of
           (Some e, w1) \<Rightarrow> (Inl (Sqlite e), f\<lparr>file_world := w1\<rparr>)
         | (None, w1) \<Rightarrow>
            (case next_fault w1 of
               (Some e, w2) \<Rightarrow> (Inl (ErrorfAt ''Getting schema version'' (Sqlite e)), f\<lparr>file_world := w2\<rparr>)
             | (None, w2) \<Rightarrow>
                if file_version f = 0 then
                  (case initDb_tx (file_version f, file_tables f) w2 of
                     (Inl err, w3) \<Rightarrow> (Inl (ErrorfAt ''Initializing database'' err), f\<lparr>file_world := w3\<rparr>)
                   | (Inr (v, ts), w3) \<Rightarrow>
                      (case next_fault w3 of
                         (Some e, w4) \<Rightarrow> (Inl (ErrorfAt ''Committing database init/upgrade'' (Sqlite e)), f\<lparr>file_world := w4\<rparr>)
                       | (None, w4) \<Rightarrow>
                          (Inr (), f\<lparr>file_version := v, file_tables := ts, file_world := w4\<lparr>committed := initDb\<rparr>\<rparr>)))
                else if file_version f = codeSchemaVersion then (Inr (), f\<lparr>file_world := w2\<rparr>)
                else (Inl (Errorf ''Wrong schema version''), f\<lparr>file_world := w2\<rparr>))))"

section \<open>Loading an event\<close>

record EventOptions =
  opt_AdminPwd :: string
  opt_DefaultLocation :: string
  opt_dbFilename :: string

text \<open>
  The package's store, with the files on disk. The nil handle is \<open>None\<close>, an open one the name of its
  file; the nil location is the empty name.
\<close>

record EventStore =
  es_DB :: "string option"
  es_defaultLocation :: string
  es_files :: "string \<Rightarrow> event_file"

definition DbFilename :: string where "DbFilename = ''data/event.sqlite''"

definition admin_account :: User where
  "admin_account = \<lparr>UserID = '''', HashedPassword = '''', Username = AdminUsername, IsAdmin = True, IsVerified = True,
     RealName = ''Xen Schedule Administrator'', Email = '''', Company = '''', UserDescription = '''', UserLocation = ''''\<rparr>"

text \<open>\<open>id.GenerateRawID\<close>, from the random bytes of the world.\<close>

definition raw_id :: "nat \<Rightarrow> world \<Rightarrow> string \<times> world" where
  "raw_id n w = (GenerateRawID (map (\<lambda>i. entropy w (drawn w + i)) [0..<n]), w\<lparr>drawn := drawn w + n\<rparr>)"

text \<open>The result is the password printed for a new account.\<close>

definition handleAdminPwd :: "bcrypt \<Rightarrow> tz_env \<Rightarrow> string \<Rightarrow> world \<Rightarrow> (abort + string option) \<times> world" where
  "handleAdminPwd bc tz adminPwd w =
    (case UserFindByUsername tz AdminUsername w of
       (Inl err, w1) \<Rightarrow> (Inl (Exited ''handleAdminPwd: Error finding admin user''), w1)
     | (Inr (Some admin), w1) \<Rightarrow>
         if adminPwd \<noteq> '''' then
           (case setPassword bc admin adminPwd w1 of
              (Inl err, w2) \<Rightarrow> (Inl (Exited ''resetting admin password''), w2)
            | (Inr _, w2) \<Rightarrow> (Inr None, w2))
         else (Inr None, w1)
     | (Inr None, w1) \<Rightarrow>
         (let (pwd, w2) = (if adminPwd = '''' then raw_id 12 w1 else (adminPwd, w1))
          in case NewUser bc tz pwd admin_account w2 of
               (Inl err, w3) \<Rightarrow> (Inl (Exited ''Error creating admin user''), w3)
             | (Inr _, w3) \<Rightarrow> (Inr (Some pwd), w3)))"

text \<open>
  \<open>tz_known\<close> is the zone database of the host. \<open>Inl\<close> ends the process, \<open>Inr (Inl err)\<close> is the returned
  error, \<open>Inr (Inr pw)\<close> is success.
\<close>

definition EventStore_Load ::
  "(string \<Rightarrow> bool) \<Rightarrow> bcrypt \<Rightarrow> error option \<Rightarrow> EventOptions \<Rightarrow> EventStore \<Rightarrow>
     (abort + error + string option) \<times> EventStore" where
  "EventStore_Load known bc open_err opt st =
    (if opt_DefaultLocation opt = '''' then (Inl (Exited ''No default location!''), st)
     else
       (case LoadLocation \<lparr>tz_known = known, defaultLocation = ''''\<rparr> (opt_DefaultLocation opt) of
          Inl err \<Rightarrow> (Inr (Inl err), st\<lparr>es_defaultLocation := ''''\<rparr>)
        | Inr loc \<Rightarrow>
            (let name = opt_dbFilename opt; st1 = st\<lparr>es_defaultLocation := loc\<rparr>
             in case openDb open_err (es_files st1 name) of
                  (Inl err, f) \<Rightarrow> (Inr (Inl err), st1\<lparr>es_DB := None, es_files := (es_files st1)(name := f)\<rparr>)
                | (Inr _, f) \<Rightarrow>
                    (case handleAdminPwd bc \<lparr>tz_known = known, defaultLocation = loc\<rparr> (opt_AdminPwd opt) (file_world f) of
                       (r, w) \<Rightarrow>
                         (case r of Inl a \<Rightarrow> Inl a | Inr pw \<Rightarrow> Inr (Inr pw),
                          st1\<lparr>es_DB := Some name, es_files := (es_files st1)(name := f\<lparr>file_world := w\<rparr>)\<rparr>)))))"

definition event_Load ::
  "(string \<Rightarrow> bool) \<Rightarrow> bcrypt \<Rightarrow> error option \<Rightarrow> EventOptions \<Rightarrow> EventStore \<Rightarrow>
     (abort + error + string option) \<times> EventStore" where
  "event_Load known bc open_err opt st =
    EventStore_Load known bc open_err
      (if opt_dbFilename opt = '''' then opt\<lparr>opt_dbFilename := DbFilename\<rparr> else opt) st"

definition event_Close :: "EventStore \<Rightarrow> EventStore" where
  "event_Close st = st\<lparr>es_DB := None, es_defaultLocation := ''''\<rparr>"

section \<open>What opening establishes\<close>

text \<open>The files \<open>openDb\<close> is for: one it has not seen, or one it has created, with a consistent event.\<close>

definition file_ok :: "event_file \<Rightarrow> bool" where
  "file_ok f \<longleftrightarrow> (file_version f = 0 \<and> file_tables f = []) \<or>
     (file_version f = codeSchemaVersion \<and> file_tables f = event_tables \<and> event_inv (committed (file_world f)))"

text \<open>The content of a file; one that is new has none.\<close>

definition file_content :: "event_file \<Rightarrow> database" where
  "file_content f = (if file_version f = 0 then initDb else committed (file_world f))"

lemma ext_Exec_frame: "ext_Exec s x w = (r, w') \<Longrightarrow> committed w' = committed w"
  by (auto simp: ext_Exec_def next_fault_frame split: prod.splits option.splits)

lemma create_tables_result:
  assumes "create_tables ts x w = (r, w')"
  shows "committed w' = committed w \<and> (\<forall>y. r = Inr y \<longrightarrow> y = (fst x, snd x @ ts))"
  using assms
proof (induction ts arbitrary: x w)
  case (Cons t ts)
  obtain z w1 where z: "ext_Exec (create_table t) x w = (z, w1)" by fastforce
  show ?case
  proof (cases z)
    case (Inl e)
    with z Cons.prems ext_Exec_frame [OF z] show ?thesis by auto
  next
    case (Inr x1)
    then have "x1 = (fst x, snd x @ [t])"
      using z by (auto simp: ext_Exec_def create_table_def split: prod.splits option.splits if_splits)
    with z Inr Cons.prems Cons.IH [of x1 w1] ext_Exec_frame [OF z] show ?thesis by simp
  qed
qed auto

lemma initDb_tx_result:
  assumes "initDb_tx x w = (r, w')"
  shows "committed w' = committed w" and "r = Inr y \<Longrightarrow> y = (codeSchemaVersion, snd x @ event_tables)"
proof -
  obtain z w1 where z: "ext_Exec (set_user_version codeSchemaVersion) x w = (z, w1)" by fastforce
  have "committed w' = committed w \<and> (r = Inr y \<longrightarrow> y = (codeSchemaVersion, snd x @ event_tables))"
  proof (cases z)
    case (Inl e)
    with z assms ext_Exec_frame [OF z] show ?thesis by (auto simp: initDb_tx_def)
  next
    case (Inr x1)
    then have "x1 = (codeSchemaVersion, snd x)"
      using z by (auto simp: ext_Exec_def set_user_version_def split: prod.splits option.splits)
    with z Inr assms create_tables_result [of event_tables x1 w1 r w'] ext_Exec_frame [OF z] show ?thesis
      by (cases y) (auto simp: initDb_tx_def)
  qed
  then show "committed w' = committed w" and "r = Inr y \<Longrightarrow> y = (codeSchemaVersion, snd x @ event_tables)" by blast+
qed

text \<open>The ways \<open>openDb\<close> can end: with an error, which changes nothing, or with a new file set up or an old one as it is.\<close>

lemma openDb_cases:
  assumes "openDb open_err f = (r, f')"
  obtains (error) e w where "r = Inl e" "f' = f\<lparr>file_world := w\<rparr>" "committed w = committed (file_world f)"
  | (created) "r = Inr ()" "file_version f = 0" "file_version f' = codeSchemaVersion"
      "file_tables f' = file_tables f @ event_tables" "committed (file_world f') = initDb"
  | (opened) w where "r = Inr ()" "file_version f = codeSchemaVersion" "f' = f\<lparr>file_world := w\<rparr>"
      "committed w = committed (file_world f)"
proof (cases open_err)
  case (Some err)
  with assms show thesis by (auto simp: openDb_def intro: error [of err "file_world f"])
next
  case None
  obtain e1 w1 where f1: "next_fault (file_world f) = (e1, w1)" by fastforce
  obtain e2 w2 where f2: "next_fault w1 = (e2, w2)" by fastforce
  note fr = next_fault_frame(1) [OF f1] next_fault_frame(1) [OF f2]
  consider "\<exists>e. e1 = Some e" | "e1 = None" "\<exists>e. e2 = Some e" | "e1 = None" "e2 = None" by (cases e1; cases e2) auto
  then show thesis
  proof cases
    case 3
    show thesis
    proof (cases "file_version f = 0")
      case True
      obtain r3 w3 where i: "initDb_tx (file_version f, file_tables f) w2 = (r3, w3)" by fastforce
      show thesis
      proof (cases r3)
        case (Inl err)
        with None f1 f2 3 True i assms fr initDb_tx_result(1) [OF i] show thesis
          by (auto simp: openDb_def intro: error)
      next
        case (Inr y)
        then have y: "y = (codeSchemaVersion, file_tables f @ event_tables)" using initDb_tx_result(2) [OF i] by simp
        obtain e4 w4 where f4: "next_fault w3 = (e4, w4)" by fastforce
        show thesis
        proof (cases e4)
          case None
          with \<open>open_err = None\<close> f1 f2 3 True i Inr y f4 assms have "r = Inr ()"
            "f' = f\<lparr>file_version := codeSchemaVersion, file_tables := file_tables f @ event_tables, file_world := w4\<lparr>committed := initDb\<rparr>\<rparr>"
            by (simp_all add: openDb_def)
          then show thesis by (intro created) (simp_all add: True)
        next
          case (Some e)
          with None f1 f2 3 True i Inr y f4 assms fr initDb_tx_result(1) [OF i] next_fault_frame(1) [OF f4] show thesis
            by (auto simp: openDb_def intro: error)
        qed
      qed
    next
      case False
      with None f1 f2 3 assms fr show thesis
        by (cases "file_version f = codeSchemaVersion") (auto simp: openDb_def intro: error opened)
    qed
  qed (use None f1 f2 assms fr in \<open>auto simp: openDb_def intro: error\<close>)
qed

text \<open>\<open>openDb\<close> never changes the content of a file, and opens only what is in order.\<close>

lemma openDb_result:
  assumes "openDb open_err f = (r, f')" and "file_ok f"
  shows "file_ok f'" and "file_content f' = file_content f"
    and "r = Inr () \<Longrightarrow> file_version f' = codeSchemaVersion \<and> event_inv (committed (file_world f'))"
proof -
  from assms(1) have "file_ok f' \<and> file_content f' = file_content f
    \<and> (r = Inr () \<longrightarrow> file_version f' = codeSchemaVersion \<and> event_inv (committed (file_world f')))"
  proof (cases rule: openDb_cases)
    case (error e w)
    with assms(2) show ?thesis by (auto simp: file_ok_def file_content_def)
  next
    case created
    with assms(2) show ?thesis by (auto simp: file_ok_def file_content_def event_inv_initDb codeSchemaVersion_def)
  next
    case (opened w)
    with assms(2) show ?thesis by (auto simp: file_ok_def file_content_def codeSchemaVersion_def)
  qed
  then show "file_ok f'" "file_content f' = file_content f"
    "r = Inr () \<Longrightarrow> file_version f' = codeSchemaVersion \<and> event_inv (committed (file_world f'))" by blast+
qed

lemma openDb_wrong_version:
  assumes "file_version f \<noteq> 0" and "file_version f \<noteq> codeSchemaVersion" and "openDb None f = (r, f')"
    and "pending (file_world f) = 0"
  shows "r = Inl (Errorf ''Wrong schema version'')"
proof -
  have quiet: "\<exists>w'. next_fault w = (None, w') \<and> pending w' = 0" if "pending w = 0" for w
    using that by (auto simp: next_fault_def pending_def split: list.splits if_splits)
  obtain w1 where w1: "next_fault (file_world f) = (None, w1)" "pending w1 = 0" using quiet [OF assms(4)] by blast
  obtain w2 where "next_fault w1 = (None, w2)" using quiet [OF w1(2)] by blast
  with w1 assms show ?thesis by (simp add: openDb_def)
qed

section \<open>The account of the administrator\<close>

lemma setPassword_stored:
  assumes "setPassword bc user pw w = (Inr u, w')"
  shows "\<exists>h. GenerateFromPassword bc pw hashCost = Inr h
    \<and> committed w' = update_user (UserID user) (\<lambda>u. u\<lparr>HashedPassword := h\<rparr>) (committed w)"
proof -
  obtain h where h: "passwordHash bc pw = Inr h" using assms by (auto simp: setPassword_def split: sum.splits)
  let ?d = "update_user (UserID user) (\<lambda>u. u\<lparr>HashedPassword := h\<rparr>) (committed w)"
  have "db_loop (sql_write (update_user (UserID user) (\<lambda>u. u\<lparr>HashedPassword := h\<rparr>))) w = (Inr (), w')"
    using assms h by (auto simp: setPassword_def split: prod.splits sum.splits)
  then have "tx_outcome (\<lambda>_ d'. d' = ?d) (\<lambda>_. True) w (Inr ()) w'"
    by (intro db_loop_rule(1)) (simp_all add: sql_write_def)
  with h show ?thesis by (auto simp: tx_outcome_def passwordHash_def)
qed

lemma NewUser_stored:
  assumes "NewUser bc tz pw user w = (Inr u, w')" and "event_inv (committed w)"
  shows "committed w' = with_user u (committed w)" and "Username u = Username user" and "IsAdmin u = IsAdmin user"
    and "IsVerified u = IsVerified user" and "Username user \<notin> Username ` set (event_users (committed w))"
    and "pw \<noteq> '''' \<Longrightarrow> GenerateFromPassword bc pw hashCost = Inr (HashedPassword u)"
proof -
  note ns = NewUser_success [OF assms(1)]
  obtain w0 where ins: "db_loop (sql_insert_user u) w0 = (Inr (), w')" and w0: "committed w0 = committed w"
    using ns(1) by blast
  have "event_inv (committed w0) \<and> \<not> AllWhitespace (Username u) \<and> \<not> IsEmailAddress (Username u)"
    using assms(2) w0 ns by simp
  from tx_outcome_Inr [OF insert_user.stmt_outcome [OF this ins]] w0 ns(2)
  show "committed w' = with_user u (committed w)" "Username u = Username user"
    "Username user \<notin> Username ` set (event_users (committed w))" by auto
  show "IsAdmin u = IsAdmin user" "IsVerified u = IsVerified user"
    using assms(1) by (auto simp: NewUser_def tx_fail_def Let_def tx_bind_def tx_generate_def split: if_splits sum.splits prod.splits)
  show "pw \<noteq> '''' \<Longrightarrow> GenerateFromPassword bc pw hashCost = Inr (HashedPassword u)"
    using ns(3) by (auto simp: newUserPassword_def split: if_splits sum.splits)
qed

text \<open>
  What becomes of the account named \<open>admin\<close>: created with the password that is printed, or found and,
  if a password was given, set to it.
\<close>

definition admin_set :: "bcrypt \<Rightarrow> string \<Rightarrow> string option \<Rightarrow> database \<Rightarrow> database \<Rightarrow> bool" where
  "admin_set bc adminPwd printed d d' \<longleftrightarrow>
    (case printed of
       Some p \<Rightarrow> AdminUsername \<notin> Username ` set (event_users d) \<and> (adminPwd \<noteq> '''' \<longrightarrow> p = adminPwd)
         \<and> (\<exists>u. d' = with_user u d \<and> Username u = AdminUsername \<and> IsAdmin u \<and> IsVerified u \<and> CheckPassword bc u p)
     | None \<Rightarrow> \<exists>u \<in> set (event_users d). Username u = AdminUsername \<and>
         (if adminPwd = '''' then d' = d
          else \<exists>h. CompareHashAndPassword bc h adminPwd \<and> d' = update_user (UserID u) (\<lambda>u. u\<lparr>HashedPassword := h\<rparr>) d))"

lemma admin_set_exists:
  assumes "admin_set bc adminPwd printed d d'"
  shows "AdminUsername \<in> Username ` set (event_users d')"
proof (cases printed)
  case None
  then obtain u where u: "u \<in> set (event_users d)" "Username u = AdminUsername"
    "d' = d \<or> (\<exists>h. d' = update_user (UserID u) (\<lambda>u. u\<lparr>HashedPassword := h\<rparr>) d)"
    using assms by (auto simp: admin_set_def split: if_splits)
  have "Username ` set (event_users (update_user (UserID u) (\<lambda>u. u\<lparr>HashedPassword := h\<rparr>) d)) = Username ` set (event_users d)" for h
    by (simp add: update_user_def image_set o_def if_distrib [of Username] cong: if_cong del: set_map)
  with u show ?thesis by (metis image_eqI)
next
  case (Some p)
  with assms show ?thesis by (auto simp: admin_set_def with_user_def)
qed

lemma handleAdminPwd_inv:
  assumes "handleAdminPwd bc tz adminPwd w = (r, w')" and "event_inv (committed w)"
  shows "event_inv (committed w')"
proof -
  obtain x w1 where x: "UserFindByUsername tz AdminUsername w = (x, w1)" by fastforce
  have w1: "event_inv (committed w1)"
    using effectsD(1) [OF effects_reads [OF reads_UserFindByUsername] x assms(2)] .
  show ?thesis
    using assms(1) x w1 effectsD(1) [OF effects_setPassword] effectsD(1) [OF effects_NewUser]
    by (auto simp: handleAdminPwd_def raw_id_def Let_def split: prod.splits sum.splits option.splits if_splits)
qed

lemma handleAdminPwd_set:
  assumes "handleAdminPwd bc tz adminPwd w = (Inr printed, w')" and inv: "event_inv (committed w)" and bc: "bcrypt_ok bc"
  shows "admin_set bc adminPwd printed (committed w) (committed w')"
proof -
  obtain x w1 where x: "UserFindByUsername tz AdminUsername w = (Inr x, w1)"
    using assms(1) by (auto simp: handleAdminPwd_def split: prod.splits sum.splits)
  note f = UserFindByUsername_result [OF x]
  show ?thesis
  proof (cases x)
    case None
    define p w2 where "p = (if adminPwd = '''' then fst (raw_id 12 w1) else adminPwd)"
      and "w2 = (if adminPwd = '''' then snd (raw_id 12 w1) else w1)"
    have p: "p \<noteq> ''''" "adminPwd \<noteq> '''' \<longrightarrow> p = adminPwd" and w2: "committed w2 = committed w"
      using f(1) by (auto simp: p_def w2_def raw_id_def GenerateRawID_def)
    obtain u where u: "NewUser bc tz p admin_account w2 = (Inr u, w')" "printed = Some p"
      using assms(1) x None
      by (auto simp: handleAdminPwd_def p_def w2_def Let_def split: prod.splits sum.splits if_splits)
    have "event_inv (committed w2)" using inv w2 by simp
    note st = NewUser_stored [OF u(1) this]
    from st p bc have "CheckPassword bc u p" by (auto simp: CheckPassword_def bcrypt_ok_def)
    with st p w2 u(2) f(2) None show ?thesis by (auto simp: admin_set_def admin_account_def)
  next
    case (Some admin)
    then obtain row where row: "row \<in> set (event_users (committed w))" "Username row = AdminUsername"
      "UserID row = UserID admin"
      using f(3) [OF Some] by (metis User.select_convs(1) User.surjective User.update_convs(10))
    have printed: "printed = None"
      using assms(1) x Some by (auto simp: handleAdminPwd_def split: prod.splits sum.splits if_splits)
    show ?thesis
    proof (cases "adminPwd = ''''")
      case True
      then have "committed w' = committed w"
        using assms(1) x Some f(1) by (auto simp: handleAdminPwd_def)
      with True row printed show ?thesis by (auto simp: admin_set_def)
    next
      case False
      then obtain u where "setPassword bc admin adminPwd w1 = (Inr u, w')"
        using assms(1) x Some by (auto simp: handleAdminPwd_def split: prod.splits sum.splits)
      from setPassword_stored [OF this] obtain h where "GenerateFromPassword bc adminPwd hashCost = Inr h"
        "committed w' = update_user (UserID row) (\<lambda>u. u\<lparr>HashedPassword := h\<rparr>) (committed w)"
        using f(1) row(3) by auto
      moreover from this bc have "CompareHashAndPassword bc h adminPwd" by (simp add: bcrypt_ok_def)
      ultimately show ?thesis
        using False row(1,2) unfolding admin_set_def printed option.case by (intro bexI [of _ row] conjI) auto
    qed
  qed
qed

text \<open>The cases of \<open>Load\<close>, in full.\<close>

lemma Load_result:
  assumes "event_Load known bc open_err opt st = (r, st')" and "bcrypt_ok bc"
    and "name = (if opt_dbFilename opt = '''' then DbFilename else opt_dbFilename opt)" and "file_ok (es_files st name)"
  shows "file_ok (es_files st' name) \<and> (\<forall>n. n \<noteq> name \<longrightarrow> es_files st' n = es_files st n) \<and>
    (case r of
       Inr (Inr printed) \<Rightarrow> es_DB st' = Some name \<and> file_version (es_files st' name) = codeSchemaVersion
         \<and> event_inv (committed (file_world (es_files st' name)))
         \<and> AdminUsername \<in> Username ` set (event_users (committed (file_world (es_files st' name))))
         \<and> admin_set bc (opt_AdminPwd opt) printed (file_content (es_files st name)) (committed (file_world (es_files st' name)))
     | Inr (Inl err) \<Rightarrow> file_content (es_files st' name) = file_content (es_files st name)
     | Inl a \<Rightarrow> True)"
proof -
  define opt' where "opt' = (if opt_dbFilename opt = '''' then opt\<lparr>opt_dbFilename := DbFilename\<rparr> else opt)"
  have o: "opt_dbFilename opt' = name" "opt_AdminPwd opt' = opt_AdminPwd opt" using assms(3) by (simp_all add: opt'_def)
  have run: "EventStore_Load known bc open_err opt' st = (r, st')" using assms(1) by (simp add: event_Load_def opt'_def)
  show ?thesis
  proof (cases "\<exists>loc. opt_DefaultLocation opt' \<noteq> '''' \<and> LoadLocation \<lparr>tz_known = known, defaultLocation = ''''\<rparr> (opt_DefaultLocation opt') = Inr loc")
    case False
    with run assms(4) show ?thesis by (auto simp: EventStore_Load_def split: sum.splits if_splits)
  next
    case True
    then obtain loc where loc: "opt_DefaultLocation opt' \<noteq> ''''"
      "LoadLocation \<lparr>tz_known = known, defaultLocation = ''''\<rparr> (opt_DefaultLocation opt') = Inr loc" by blast
    obtain x f where x: "openDb open_err (es_files st name) = (x, f)" by fastforce
    note op = openDb_result [OF x assms(4)]
    show ?thesis
    proof (cases x)
      case (Inl err)
      with run loc x o op show ?thesis by (auto simp: EventStore_Load_def)
    next
      case (Inr v)
      obtain y w where y: "handleAdminPwd bc \<lparr>tz_known = known, defaultLocation = loc\<rparr> (opt_AdminPwd opt) (file_world f) = (y, w)"
        by fastforce
      have f: "file_version f = codeSchemaVersion" "event_inv (committed (file_world f))" using op(3) Inr by auto
      note inv = handleAdminPwd_inv [OF y f(2)]
      have r: "r = (case y of Inl a \<Rightarrow> Inl a | Inr pw \<Rightarrow> Inr (Inr pw))"
        "es_DB st' = Some name" "es_files st' = (es_files st)(name := f\<lparr>file_world := w\<rparr>)"
        using run loc x o Inr y by (auto simp: EventStore_Load_def)
      have ok: "file_ok (f\<lparr>file_world := w\<rparr>)" using op(1) f(1) inv by (auto simp: file_ok_def codeSchemaVersion_def)
      show ?thesis
      proof (cases y)
        case (Inl a)
        with r ok show ?thesis by simp
      next
        case (Inr printed)
        then have "admin_set bc (opt_AdminPwd opt) printed (file_content (es_files st name)) (committed w)"
          using handleAdminPwd_set [OF _ f(2) assms(2)] y op(2) f(1) by (auto simp: file_content_def codeSchemaVersion_def)
        moreover from this have "AdminUsername \<in> Username ` set (event_users (committed w))" by (rule admin_set_exists)
        ultimately show ?thesis using r ok Inr f(1) inv by simp
      qed
    qed
  qed
qed

text \<open>
  C33: What \<open>Load\<close> establishes. Loading opens the named file or \<open>data/event.sqlite\<close> and touches no other.
  If it succeeds, the file has the schema of this version, its event satisfies the invariant, and
  there is an account \<open>admin\<close>: in a file without one it has been created, as an administrator who can
  log in with the password that was given or else was made up and printed; in the others it was left
  alone but for the password, if one was given. When it returns an error, the file's event is what it was. In
  every case the file can be loaded again.
\<close>

theorem Load_establishes:
  assumes "event_Load known bc open_err opt st = (r, st')" and "bcrypt_ok bc"
    and "name = (if opt_dbFilename opt = '''' then DbFilename else opt_dbFilename opt)" and "file_ok (es_files st name)"
  shows "file_ok (es_files st' name) \<and> (\<forall>n. n \<noteq> name \<longrightarrow> es_files st' n = es_files st n) \<and>
    (case r of
       Inr (Inr printed) \<Rightarrow> es_DB st' = Some name \<and> file_version (es_files st' name) = codeSchemaVersion
         \<and> event_inv (committed (file_world (es_files st' name)))
         \<and> AdminUsername \<in> Username ` set (event_users (committed (file_world (es_files st' name))))
         \<and> admin_set bc (opt_AdminPwd opt) printed (file_content (es_files st name)) (committed (file_world (es_files st' name)))
     | Inr (Inl err) \<Rightarrow> file_content (es_files st' name) = file_content (es_files st name)
     | Inl a \<Rightarrow> True)"
  by (rule Load_result [OF assms])

text \<open>A disk without files.\<close>

definition new_file :: event_file where
  "new_file = \<lparr>file_version = 0, file_tables = [], file_world = sample_world\<lparr>committed := initDb\<rparr>\<rparr>"

definition sample_store :: EventStore where
  "sample_store = \<lparr>es_DB = None, es_defaultLocation = '''', es_files = (\<lambda>_. new_file)\<rparr>"

definition sample_options :: EventOptions where
  "sample_options = \<lparr>opt_AdminPwd = ''secret'', opt_DefaultLocation = ''Europe/Berlin'', opt_dbFilename = ''''\<rparr>"

lemma new_file_ok: "file_ok new_file"
  by (simp add: new_file_def file_ok_def)

lemma sample_open:
  "openDb None new_file = (Inr (), \<lparr>file_version = 2, file_tables = event_tables, file_world = sample_world\<lparr>committed := initDb\<rparr>\<rparr>)"
  by (simp add: openDb_def new_file_def next_fault_def initDb_tx_def ext_Exec_def set_user_version_def codeSchemaVersion_def
      create_table_def event_tables_def)

lemma sample_find_admin:
  "UserFindByUsername tz AdminUsername (sample_world\<lparr>committed := initDb\<rparr>) = (Inr None, sample_world\<lparr>committed := initDb\<rparr>)"
  by (simp add: UserFindByUsername_def db_loop.simps db_exec_def next_fault_def sql_opt_def sql_get_user_def initDb_def)

lemma sample_handleAdminPwd:
  "\<exists>w. handleAdminPwd sample_bcrypt tz ''secret'' (sample_world\<lparr>committed := initDb\<rparr>) = (Inr (Some ''secret''), w)"
proof -
  have "\<exists>u w. NewUser sample_bcrypt tz ''secret'' admin_account (sample_world\<lparr>committed := initDb\<rparr>) = (Inr u, w)"
    by (simp add: NewUser_def admin_account_def AdminUsername_def not_AllWhitespace_Cons IsSpace_def
        IsEmailAddress_no_at newUserPassword_def passwordLength_def sample_bcrypt_def tx_bind_def tx_generate_def
        db_loop.simps db_exec_def next_fault_def sql_insert_user_def initDb_def user_ids_def Let_def)
  then show ?thesis by (auto simp: handleAdminPwd_def sample_find_admin)
qed

lemma sample_Load:
  "\<exists>st. event_Load (tz_known sample_tz) sample_bcrypt None sample_options sample_store = (Inr (Inr (Some ''secret'')), st)"
proof -
  obtain w where "handleAdminPwd sample_bcrypt \<lparr>tz_known = tz_known sample_tz, defaultLocation = ''Europe/Berlin''\<rparr> ''secret''
      (sample_world\<lparr>committed := initDb\<rparr>) = (Inr (Some ''secret''), w)"
    using sample_handleAdminPwd by blast
  then show ?thesis
    by (simp add: event_Load_def EventStore_Load_def sample_options_def sample_store_def LoadLocation_def sample_tz_def sample_open)
qed

theorem Load_establishes_witness:
  "\<exists>st'. event_Load (tz_known sample_tz) sample_bcrypt None sample_options sample_store = (Inr (Inr (Some ''secret'')), st')
     \<and> event_inv (committed (file_world (es_files st' DbFilename)))
     \<and> admin_set sample_bcrypt ''secret'' (Some ''secret'') initDb (committed (file_world (es_files st' DbFilename)))"
proof -
  obtain st' where x: "event_Load (tz_known sample_tz) sample_bcrypt None sample_options sample_store = (Inr (Inr (Some ''secret'')), st')"
    using sample_Load by blast
  have "DbFilename = (if opt_dbFilename sample_options = '''' then DbFilename else opt_dbFilename sample_options)"
    by (simp add: sample_options_def)
  moreover have "file_ok (es_files sample_store DbFilename)" by (simp add: sample_store_def new_file_ok)
  ultimately show ?thesis
    using Load_establishes [OF x sample_bcrypt_ok, of DbFilename] x
    by (simp add: sample_store_def sample_options_def file_content_def new_file_def)
qed

end
