(* ===== verification/Edit_Timetable.thy ===== *)
theory Edit_Timetable
  imports Web_Server
begin

text \<open>
  The command that edits the timetable in the administrator's editor: \<^verbatim>\<open>cmd_editTimetable.go\<close> and
  \<^verbatim>\<open>externalEditor.go\<close>. The timetable is rendered as Hjson, the text goes through the editor, and what comes
  back is parsed and stored.

  The Hjson package, the formatting and parsing of times, the temporary file and the editor are
  parameters. \<^verbatim>\<open>encoding/json\<close> decodes into the structure that already holds the old timetable; what it
  leaves alone there is modelled.
\<close>

section \<open>The external editor\<close>

text \<open>What the host does: results of creating, writing and reading the file, the variable, and the command on a content.\<close>

record editor_env =
  ed_TempFile :: "error option"
  ed_Write :: "error option"
  ed_EDITOR :: "string option"
  ed_Run :: "string \<Rightarrow> string \<Rightarrow> error option \<times> string"
  ed_ReadFile :: "error option"

text \<open>The variable \<open>editcmd\<close> is empty until the first call; the file is given by its content.\<close>

definition ExternalEditorFile :: "editor_env \<Rightarrow> string \<Rightarrow> string \<Rightarrow> (error + unit) \<times> string" where
  "ExternalEditorFile ed editcmd content =
    (case (if editcmd = '''' then ed_EDITOR ed else Some editcmd) of
       None \<Rightarrow> (Inl (Errorf ''Please set EDITOR environment variable''), content)
     | Some cmd \<Rightarrow>
         (case ed_Run ed cmd content of
            (Some err, content') \<Rightarrow> (Inl (ErrorfAt ''Running editor'' err), content')
          | (None, content') \<Rightarrow> (Inr (), content')))"

definition ExternalEditorBytes :: "editor_env \<Rightarrow> string \<Rightarrow> error + string" where
  "ExternalEditorBytes ed out =
    (case ed_TempFile ed of
       Some err \<Rightarrow> Inl (ErrorfAt ''Creating temp file for segmentation'' err)
     | None \<Rightarrow>
        (case ed_Write ed of
           Some err \<Rightarrow> Inl (ErrorfAt ''Writing text to file'' err)
         | None \<Rightarrow>
            (case ExternalEditorFile ed '''' out of
               (Inl err, _) \<Rightarrow> Inl err
             | (Inr _, content) \<Rightarrow>
                (case ed_ReadFile ed of
                   Some err \<Rightarrow> Inl (ErrorfAt ''Reading back tempfile after edit'' err)
                 | None \<Rightarrow> Inr content))))"

section \<open>The text that is edited\<close>

record TimetableEditSlot =
  te_Time :: string
  te_IsBreak :: bool

record TimetableEditDay =
  te_DayName :: string
  te_Slots :: "TimetableEditSlot list"

record TimetableEdit =
  te_Location :: string
  te_Days :: "TimetableEditDay list"

definition header :: string where
  "header = ''// Location is the normal timezone location; e.g., 'Europe/Berlin'.'' @ [CHR 0x0A]
     @ ''// Time should be in the format '' @ [CHR 0x22] @ ''2020 Jan 2 15:04'' @ [CHR 0x22] @ ''. '' @ [CHR 0x0A]
     @ ''// Add 'IsBreak: true' to any slot which should be labeled as a break.'' @ [CHR 0x0A]"

definition edit_format :: string where "edit_format = ''2006 Jan 2 15:04''"

text \<open>A parsed text: \<open>None\<close> is a key that is not there.\<close>

record json_slot =
  js_Time :: "string option"
  js_IsBreak :: "bool option"

record json_day =
  jd_DayName :: "string option"
  jd_Slots :: "json_slot list option"

record json_edit =
  je_Location :: "string option"
  je_Days :: "json_day list option"

text \<open>
  Decoding into a value that is already there: a key that is missing leaves the field as it is, and the
  elements of an array are decoded into the elements the slice has, further ones into zero values.
\<close>

definition decode_field :: "'a \<Rightarrow> 'a option \<Rightarrow> 'a" where
  "decode_field old j = (case j of None \<Rightarrow> old | Some v \<Rightarrow> v)"

fun decode_list :: "('a \<Rightarrow> 'j \<Rightarrow> 'a) \<Rightarrow> 'a \<Rightarrow> 'a list \<Rightarrow> 'j list \<Rightarrow> 'a list" where
  "decode_list f zero xs [] = []"
| "decode_list f zero [] (j # js) = f zero j # decode_list f zero [] js"
| "decode_list f zero (x # xs) (j # js) = f x j # decode_list f zero xs js"

definition decode_slot :: "TimetableEditSlot \<Rightarrow> json_slot \<Rightarrow> TimetableEditSlot" where
  "decode_slot s j = \<lparr>te_Time = decode_field (te_Time s) (js_Time j), te_IsBreak = decode_field (te_IsBreak s) (js_IsBreak j)\<rparr>"

definition decode_day :: "TimetableEditDay \<Rightarrow> json_day \<Rightarrow> TimetableEditDay" where
  "decode_day d j = \<lparr>te_DayName = decode_field (te_DayName d) (jd_DayName j),
     te_Slots = (case jd_Slots j of None \<Rightarrow> te_Slots d
       | Some js \<Rightarrow> decode_list decode_slot \<lparr>te_Time = '''', te_IsBreak = False\<rparr> (te_Slots d) js)\<rparr>"

definition json_Unmarshal :: "TimetableEdit \<Rightarrow> json_edit \<Rightarrow> TimetableEdit" where
  "json_Unmarshal e j = \<lparr>te_Location = decode_field (te_Location e) (je_Location j),
     te_Days = (case je_Days j of None \<Rightarrow> te_Days e
       | Some js \<Rightarrow> decode_list decode_day \<lparr>te_DayName = '''', te_Slots = []\<rparr> (te_Days e) js)\<rparr>"

section \<open>The command\<close>

record edit_env =
  ee_tz :: tz_env
  ee_time :: time_env
  ee_ParseInLocation :: "string \<Rightarrow> string \<Rightarrow> string \<Rightarrow> error + gotime"
  ee_Marshal :: "TimetableEdit \<Rightarrow> error + string"
  ee_Unmarshal :: "string \<Rightarrow> error + json_edit"
  ee_editor :: editor_env

definition edit_of_timetable :: "time_env \<Rightarrow> string \<Rightarrow> Timetable \<Rightarrow> TimetableEdit" where
  "edit_of_timetable te loc tt = \<lparr>te_Location = loc, te_Days =
    (if Days tt \<noteq> [] then
       map (\<lambda>td. \<lparr>te_DayName = ttDayName td, te_Slots =
         map (\<lambda>s. \<lparr>te_Time = time_Format te edit_format (ttTime s), te_IsBreak = ttIsBreak s\<rparr>) (ttSlots td)\<rparr>) (Days tt)
     else
       [\<lparr>te_DayName = ''Monday'', te_Slots =
         [\<lparr>te_Time = ''2020 Jul 6 14:00'', te_IsBreak = False\<rparr>, \<lparr>te_Time = ''2020 Jul 6 14:30'', te_IsBreak = False\<rparr>,
          \<lparr>te_Time = ''2020 Jul 6 15:00'', te_IsBreak = True\<rparr>, \<lparr>te_Time = ''2020 Jul 6 15:30'', te_IsBreak = False\<rparr>]\<rparr>])\<rparr>"

text \<open>The slots of a day, up to the first time that cannot be parsed.\<close>

fun slots_of_edit :: "(string \<Rightarrow> error + gotime) \<Rightarrow> TimetableEditSlot list \<Rightarrow> error + TimetableSlot list" where
  "slots_of_edit parse [] = Inr []"
| "slots_of_edit parse (s # ss) =
    (case parse (te_Time s) of
       Inl err \<Rightarrow> Inl err
     | Inr t \<Rightarrow>
        (case slots_of_edit parse ss of
           Inl err \<Rightarrow> Inl err
         | Inr ts \<Rightarrow> Inr (\<lparr>ttTime = t, ttTimeDisplay = '''', ttIsBreak = te_IsBreak s, ttDiscussions = []\<rparr> # ts)))"

fun days_of_edit :: "(string \<Rightarrow> error + gotime) \<Rightarrow> TimetableEditDay list \<Rightarrow> error + TimetableDay list" where
  "days_of_edit parse [] = Inr []"
| "days_of_edit parse (d # ds) =
    (case slots_of_edit parse (te_Slots d) of
       Inl err \<Rightarrow> Inl err
     | Inr ss \<Rightarrow>
        (case days_of_edit parse ds of
           Inl err \<Rightarrow> Inl err
         | Inr tds \<Rightarrow> Inr (\<lparr>ttDayName = te_DayName d, ttIsFinal = False, ttSlots = ss\<rparr> # tds)))"

text \<open>The timetable the edited text stands for, from the editor to the call of \<open>TimetableSet\<close>.\<close>

definition edit_text :: "edit_env \<Rightarrow> TimetableEdit \<Rightarrow> string + Timetable" where
  "edit_text env ett =
    (case ee_Marshal env ett of
       Inl _ \<Rightarrow> Inl ''Marshalling structure''
     | Inr outb \<Rightarrow>
        (case ExternalEditorBytes (ee_editor env) (header @ outb) of
           Inl _ \<Rightarrow> Inl ''Editing json''
         | Inr inb \<Rightarrow>
            (case ee_Unmarshal env inb of
               Inl _ \<Rightarrow> Inl ''Importing structure''
             | Inr j \<Rightarrow>
                (let ett1 = json_Unmarshal ett j
                 in case LoadLocation (ee_tz env) (te_Location ett1) of
                      Inl _ \<Rightarrow> Inl ''Loading location''
                    | Inr loc \<Rightarrow>
                       (case days_of_edit (\<lambda>s. ee_ParseInLocation env edit_format s loc) (te_Days ett1) of
                          Inl _ \<Rightarrow> Inl ''Error parsing time''
                        | Inr ds \<Rightarrow> Inr \<lparr>Days = ds\<rparr>)))))"

definition EditTimetable :: "edit_env \<Rightarrow> string \<Rightarrow> world \<Rightarrow> (abort + unit) \<times> world" where
  "EditTimetable env loc w =
    (case GetTimetable (ee_time env) '''' None w of
       (Inl err, w1) \<Rightarrow> (Inl (Exited ''Getting timetable''), w1)
     | (Inr tt, w1) \<Rightarrow>
        (case edit_text env (edit_of_timetable (ee_time env) loc tt) of
           Inl msg \<Rightarrow> (Inl (Exited msg), w1)
         | Inr tt1 \<Rightarrow>
            (case TimetableSet tt1 w1 of
               (Inl err, w2) \<Rightarrow> (Inl (Exited ''Error setting timetable''), w2)
             | (Inr _, w2) \<Rightarrow> (Inr (), w2))))"

section \<open>An edit that changes nothing\<close>

text \<open>What the text of a structure is parsed to: every key is there, but \<open>IsBreak\<close> only where it is set (\<open>omitempty\<close>).\<close>

definition json_of_slot :: "TimetableEditSlot \<Rightarrow> json_slot" where
  "json_of_slot s = \<lparr>js_Time = Some (te_Time s), js_IsBreak = (if te_IsBreak s then Some True else None)\<rparr>"

definition json_of_day :: "TimetableEditDay \<Rightarrow> json_day" where
  "json_of_day d = \<lparr>jd_DayName = Some (te_DayName d), jd_Slots = Some (map json_of_slot (te_Slots d))\<rparr>"

definition json_of_edit :: "TimetableEdit \<Rightarrow> json_edit" where
  "json_of_edit e = \<lparr>je_Location = Some (te_Location e), je_Days = Some (map json_of_day (te_Days e))\<rparr>"

lemma decode_list_same:
  assumes "\<And>x. f x (g x) = x"
  shows "decode_list f zero xs (map g xs) = xs"
  using assms by (induction xs) simp_all

lemma decode_same:
  "decode_slot s (json_of_slot s) = s" "decode_day d (json_of_day d) = d" "json_Unmarshal e (json_of_edit e) = e"
proof -
  show slot: "decode_slot s (json_of_slot s) = s" for s
    by (simp add: decode_slot_def json_of_slot_def decode_field_def)
  show day: "decode_day d (json_of_day d) = d" for d
    by (simp add: decode_day_def json_of_day_def decode_field_def decode_list_same slot)
  show "json_Unmarshal e (json_of_edit e) = e"
    by (simp add: json_Unmarshal_def json_of_edit_def decode_field_def decode_list_same day)
qed

lemma slots_of_edit_plan:
  assumes "\<And>s. s \<in> set ss \<Longrightarrow> parse (fmt (ttTime s)) = Inr (ttTime s)"
  shows "\<exists>ts. slots_of_edit parse (map (\<lambda>s. \<lparr>te_Time = fmt (ttTime s), te_IsBreak = ttIsBreak s\<rparr>) ss) = Inr ts
    \<and> map (\<lambda>t. (ttTime t, ttIsBreak t)) ts = map (\<lambda>s. (ttTime s, ttIsBreak s)) ss"
  using assms by (induction ss) auto

lemma days_of_edit_plan:
  assumes "\<And>d s. d \<in> set ds \<Longrightarrow> s \<in> set (ttSlots d) \<Longrightarrow> parse (fmt (ttTime s)) = Inr (ttTime s)"
  shows "\<exists>tds. days_of_edit parse (map (\<lambda>td. \<lparr>te_DayName = ttDayName td, te_Slots =
      map (\<lambda>s. \<lparr>te_Time = fmt (ttTime s), te_IsBreak = ttIsBreak s\<rparr>) (ttSlots td)\<rparr>) ds) = Inr tds
    \<and> timetable_plan \<lparr>Days = tds\<rparr> = timetable_plan \<lparr>Days = ds\<rparr>"
  using assms
proof (induction ds)
  case (Cons d ds)
  obtain ts where ts: "slots_of_edit parse (map (\<lambda>s. \<lparr>te_Time = fmt (ttTime s), te_IsBreak = ttIsBreak s\<rparr>) (ttSlots d)) = Inr ts"
    "map (\<lambda>t. (ttTime t, ttIsBreak t)) ts = map (\<lambda>s. (ttTime s, ttIsBreak s)) (ttSlots d)"
    using slots_of_edit_plan [of "ttSlots d" parse fmt] Cons.prems by auto
  obtain tds where "days_of_edit parse (map (\<lambda>td. \<lparr>te_DayName = ttDayName td, te_Slots =
      map (\<lambda>s. \<lparr>te_Time = fmt (ttTime s), te_IsBreak = ttIsBreak s\<rparr>) (ttSlots td)\<rparr>) ds) = Inr tds"
    "timetable_plan \<lparr>Days = tds\<rparr> = timetable_plan \<lparr>Days = ds\<rparr>"
    using Cons by auto
  with ts show ?case by (simp add: timetable_plan_def)
qed simp

text \<open>In a timetable of the same shape as the stored one every slot has its place.\<close>

lemma same_plan_places:
  assumes "event_inv d" and "contiguous d" and "timetable_plan tt = stored_timetable d" and s: "s \<in> set (event_slots d)"
  shows "has_place tt s"
proof -
  let ?ys = "sort_key DayID (event_days d)"
  let ?ss = "\<lambda>i. sort_key SlotIDX (filter (\<lambda>s. SlotDay s = i) (event_slots d))"
  obtain n where n: "0 \<le> n" "day_ids d = {1..n}" using assms(2) unfolding contiguous_def by blast
  have "distinct (map DayID (event_days d))" using assms(1) by (simp add: inv_split days_ok_def)
  then have keys: "map DayID ?ys = [1..n]" using n(2) by (intro sorted_keys_range) (simp_all add: day_ids_def)
  have len: "length ?ys = nat n" using arg_cong [OF keys, of length] by simp
  have day: "1 \<le> SlotDay s" "SlotDay s \<le> n" using assms(1) s n(2) by (auto simp: inv_split slots_ok_def)
  then have p: "nat (SlotDay s - 1) < length ?ys" using len by simp
  have id: "DayID (?ys ! nat (SlotDay s - 1)) = SlotDay s"
    using arg_cong [OF keys, of "\<lambda>l. l ! nat (SlotDay s - 1)"] p day by simp
  have plan: "length (Days tt) = length ?ys"
    "length (ttSlots (Days tt ! nat (SlotDay s - 1))) = length (?ss (SlotDay s))"
  proof -
    show l: "length (Days tt) = length ?ys" using arg_cong [OF assms(3), of length] by (simp add: timetable_plan_def stored_timetable_def)
    from arg_cong [OF assms(3), of "\<lambda>l. length (snd (l ! nat (SlotDay s - 1)))"] p l id
    show "length (ttSlots (Days tt ! nat (SlotDay s - 1))) = length (?ss (SlotDay s))"
      by (simp add: timetable_plan_def stored_timetable_def)
  qed
  obtain m where m: "SlotIDX ` day_slots d (SlotDay s) = {1..m}" using assms(2) unfolding contiguous_def by blast
  then have "map SlotIDX (?ss (SlotDay s)) = [1..m]"
    by (intro sorted_keys_range distinct_day_slots [OF assms(1)]) (simp add: day_slots_def)
  then have "length (?ss (SlotDay s)) = nat m" by (metis length_map length_upto add.commute diff_add_cancel)
  moreover have "1 \<le> SlotIDX s" "SlotIDX s \<le> m" using m s by (auto simp: day_slots_def)
  ultimately show ?thesis using plan len day by (simp add: has_place_def)
qed

lemma edit_text_unchanged:
  assumes "\<And>e text. ee_Marshal env e = Inr text \<Longrightarrow> ee_Unmarshal env (header @ text) = Inr (json_of_edit e)"
    and "\<And>cmd text. ed_Run (ee_editor env) cmd text = (None, text)" and "edit_text env e = Inr tt"
  shows "\<exists>zone ds. LoadLocation (ee_tz env) (te_Location e) = Inr zone
    \<and> days_of_edit (\<lambda>s. ee_ParseInLocation env edit_format s zone) (te_Days e) = Inr ds \<and> tt = \<lparr>Days = ds\<rparr>"
proof -
  obtain out where m: "ee_Marshal env e = Inr out" using assms(3) by (auto simp: edit_text_def split: sum.splits)
  obtain inb where b: "ExternalEditorBytes (ee_editor env) (header @ out) = Inr inb"
    using assms(3) m by (auto simp: edit_text_def split: sum.splits)
  then have "inb = header @ out"
    by (auto simp: ExternalEditorBytes_def ExternalEditorFile_def assms(2) split: option.splits sum.splits prod.splits)
  then show ?thesis
    using assms(3) m b assms(1) [OF m] by (auto simp: edit_text_def decode_same Let_def split: sum.splits)
qed


text \<open>An instance: three times, one text, and an editor that is closed at once.\<close>

definition sample_times :: "(string \<times> gotime) list" where
  "sample_times = [(''2020 Jul 6 16:00'', (1594044000, 7200)), (''2020 Jul 6 16:30'', (1594045800, 7200)),
     (''2020 Jul 6 17:00'', (1594047600, 7200))]"

definition sample_time_env :: time_env where
  "sample_time_env = \<lparr>time_Format = (\<lambda>_ t. case find (\<lambda>p. snd p = t) sample_times of None \<Rightarrow> '''' | Some p \<Rightarrow> fst p),
     time_In = (\<lambda>_ t. t)\<rparr>"

definition sample_edit :: TimetableEdit where
  "sample_edit = \<lparr>te_Location = ''Europe/Berlin'', te_Days = [\<lparr>te_DayName = ''Monday'', te_Slots =
     [\<lparr>te_Time = ''2020 Jul 6 16:00'', te_IsBreak = False\<rparr>, \<lparr>te_Time = ''2020 Jul 6 16:30'', te_IsBreak = False\<rparr>,
      \<lparr>te_Time = ''2020 Jul 6 17:00'', te_IsBreak = True\<rparr>]\<rparr>]\<rparr>"

definition sample_editor :: editor_env where
  "sample_editor = \<lparr>ed_TempFile = None, ed_Write = None, ed_EDITOR = Some ''vi'', ed_Run = (\<lambda>_ c. (None, c)), ed_ReadFile = None\<rparr>"

definition sample_edit_env :: edit_env where
  "sample_edit_env = \<lparr>ee_tz = sample_tz, ee_time = sample_time_env,
     ee_ParseInLocation = (\<lambda>_ s _. case map_of sample_times s of None \<Rightarrow> Inl (Errorf ''parsing time'') | Some t \<Rightarrow> Inr t),
     ee_Marshal = (\<lambda>e. if e = sample_edit then Inr ''{...}'' else Inl (Errorf ''no text'')),
     ee_Unmarshal = (\<lambda>_. Inr (json_of_edit sample_edit)), ee_editor = sample_editor\<rparr>"

lemma sample_edit_run: "case EditTimetable sample_edit_env ''Europe/Berlin'' sample_world of (r, _) \<Rightarrow> r = Inr ()"
  by code_simp


section \<open>Breaks that cannot be removed\<close>

text \<open>
  The text says to add \<open>IsBreak: true\<close> to a break. Taking the line away again does nothing: the key is then
  missing, and decoding into the old structure leaves the old value. Every break survives an edit
  that removes the mark from all of them.
\<close>

definition without_breaks :: "TimetableEdit \<Rightarrow> TimetableEdit" where
  "without_breaks e = e\<lparr>te_Days := map (\<lambda>d. d\<lparr>te_Slots := map (\<lambda>s. s\<lparr>te_IsBreak := False\<rparr>) (te_Slots d)\<rparr>) (te_Days e)\<rparr>"

lemma removed_breaks_stay: "json_Unmarshal e (json_of_edit (without_breaks e)) = e"
proof -
  have slot: "decode_slot s (json_of_slot (s\<lparr>te_IsBreak := False\<rparr>)) = s" for s
    by (simp add: decode_slot_def json_of_slot_def decode_field_def)
  have day: "decode_day d (json_of_day (d\<lparr>te_Slots := map (\<lambda>s. s\<lparr>te_IsBreak := False\<rparr>) (te_Slots d)\<rparr>)) = d" for d
    using decode_list_same [of decode_slot "\<lambda>s. json_of_slot (s\<lparr>te_IsBreak := False\<rparr>)", OF slot]
    by (simp add: decode_day_def json_of_day_def decode_field_def o_def)
  show ?thesis
    using decode_list_same [of decode_day "\<lambda>d. json_of_day (d\<lparr>te_Slots := map (\<lambda>s. s\<lparr>te_IsBreak := False\<rparr>) (te_Slots d)\<rparr>)", OF day]
    by (simp add: json_Unmarshal_def json_of_edit_def without_breaks_def decode_field_def o_def)
qed

end
