(* ===== verification/Startup.thy ===== *)
theory Startup
  imports Authorization Event_Load Edit_Timetable Timezones
begin

text \<open>
  The start of the program: \<open>main\<close> of \<^verbatim>\<open>main.go\<close> and \<open>serve\<close> with \<open>handleServeLock\<close> and \<open>handleSigs\<close> of
  \<^verbatim>\<open>serve.go\<close>. A process owns the configuration file, the event store with its database files, and the
  session file. \<open>main\<close> ends the process with a message, panics, finishes a command, or serves: then it
  hands on the environment and the address, and requests run on the three stores.

  The command line has been split into its flags. What the operating system and the packages
  outside the repository answer is the record \<open>host\<close>. Changing the working directory and profiling
  leave no trace in the model, except that profiling may fail.
\<close>

section \<open>The process\<close>

record process =
  pr_kvs :: kv_file
  pr_event :: EventStore
  pr_sessions :: session_db

record host =
  host_zones :: "string \<Rightarrow> bool"
  host_bcrypt :: bcrypt
  host_display :: display_env
  host_edit :: edit_env
  host_sort_Slice :: "(nat \<Rightarrow> int) \<Rightarrow> nat list \<Rightarrow> nat list"
  host_empty_NamedExec :: "unit stmt"
  host_templates :: "error option"
  host_is_ErrBusy :: "error \<Rightarrow> bool"
  host_kv_open :: "error option"
  host_event_open :: "error option"
  host_sessions_open :: "error option"
  host_cpuprofile :: "error option"
  host_TryLock :: "error + bool"
  host_Lock :: "error option"
  host_random :: "8 word list"
  host_Int31n :: "int \<Rightarrow> int"

record command_line =
  cl_adminPwd :: string
  cl_settings :: "(string \<times> string) list"
  cl_cpuprofile :: bool
  cl_command :: string

type_synonym 'a boot = "process \<Rightarrow> (abort + 'a) \<times> process"

definition boot_return :: "'a \<Rightarrow> 'a boot" where
  "boot_return v p = (Inr v, p)"

definition boot_stop :: "abort \<Rightarrow> 'a boot" where
  "boot_stop a p = (Inl a, p)"

definition boot_bind :: "'a boot \<Rightarrow> ('a \<Rightarrow> 'b boot) \<Rightarrow> 'b boot" where
  "boot_bind m f p = (case m p of (Inl a, p') \<Rightarrow> (Inl a, p') | (Inr v, p') \<Rightarrow> f v p')"

fun boot_each :: "('a \<Rightarrow> unit boot) \<Rightarrow> 'a list \<Rightarrow> unit boot" where
  "boot_each f [] = boot_return ()"
| "boot_each f (x # xs) = boot_bind (f x) (\<lambda>_. boot_each f xs)"

definition boot_kv :: "(kv_file \<Rightarrow> 'a \<times> kv_file) \<Rightarrow> 'a boot" where
  "boot_kv m p = (case m (pr_kvs p) of (v, f) \<Rightarrow> (Inr v, p\<lparr>pr_kvs := f\<rparr>))"

text \<open>The state requests run on. Without an open event database its handle is nil.\<close>

definition event_world :: "EventStore \<Rightarrow> world" where
  "event_world st = file_world (es_files st (case es_DB st of None \<Rightarrow> '''' | Some name \<Rightarrow> name))"

definition server_of :: "process \<Rightarrow> server" where
  "server_of p = \<lparr>sv_event = event_world (pr_event p), sv_kvs = pr_kvs p, sv_sessions = pr_sessions p,
     sv_replies = [], sv_written = False\<rparr>"

definition store_world :: "EventStore \<Rightarrow> world \<Rightarrow> EventStore" where
  "store_world st w =
    (case es_DB st of None \<Rightarrow> st
     | Some name \<Rightarrow> st\<lparr>es_files := (es_files st)(name := (es_files st name)\<lparr>file_world := w\<rparr>)\<rparr>)"

definition boot_web :: "'a web \<Rightarrow> 'a boot" where
  "boot_web m p =
    (if es_DB (pr_event p) = None then (Inl (Panicked (Panic ''nil pointer dereference'')), p)
     else (case m (server_of p) of (r, sv) \<Rightarrow>
       (r, \<lparr>pr_kvs = sv_kvs sv, pr_event = store_world (pr_event p) (sv_event sv), pr_sessions = sv_sessions sv\<rparr>)))"

definition boot_event :: "(world \<Rightarrow> (abort + 'a) \<times> world) \<Rightarrow> 'a boot" where
  "boot_event m p =
    (if es_DB (pr_event p) = None then (Inl (Panicked (Panic ''nil pointer dereference'')), p)
     else (case m (event_world (pr_event p)) of (r, w) \<Rightarrow> (r, p\<lparr>pr_event := store_world (pr_event p) w\<rparr>)))"

section \<open>Serving\<close>

definition KeyServeAddress :: string where "KeyServeAddress = ''ServeAddress''"
definition LockingMethod :: string where "LockingMethod = ''ServeLockMethod''"

definition handleServeLock :: "host \<Rightarrow> unit boot" where
  "handleServeLock h =
    boot_bind (boot_kv (kv_Get LockingMethod)) (\<lambda>got.
    if (case got of Inl e \<Rightarrow> e \<noteq> ErrNoRows | Inr _ \<Rightarrow> False)
    then boot_stop (Exited ''Error getting LockingMethod key'')
    else
      (let meth = (case got of Inl _ \<Rightarrow> ''quit'' | Inr s \<Rightarrow> s) in
       if meth = ''none'' then boot_return ()
       else if meth = ''quit'' \<or> meth = ''error'' then
         (case host_TryLock h of
            Inl _ \<Rightarrow> boot_stop (Exited ''Error locking file'')
          | Inr locked \<Rightarrow>
              if \<not> locked \<and> meth = ''quit'' then boot_stop (Exited ''File locked, exiting'')
              else boot_return ())
       else if meth = ''wait'' then
         (case host_Lock h of None \<Rightarrow> boot_return () | Some _ \<Rightarrow> boot_stop (Exited ''Error locking file''))
       else boot_stop (Exited ''Invalid lockmethod'')))"

definition initMiddleware :: "host \<Rightarrow> unit boot" where
  "initMiddleware h p =
    (case OpenSessionStore (host_sessions_open h) (pr_sessions p) of
       (Inl _, db) \<Rightarrow> (Inl (Exited ''Opening sessions store''), p\<lparr>pr_sessions := db\<rparr>)
     | (Inr _, db) \<Rightarrow> (Inr (), p\<lparr>pr_sessions := db\<rparr>))"

text \<open>The decimal digits of \<open>fmt.Sprintf\<close>'s \<open>%d\<close>.\<close>

fun decimal :: "nat \<Rightarrow> string" where
  "decimal n = (if n < 10 then [''0123456789'' ! n] else decimal (n div 10) @ [''0123456789'' ! (n mod 10)])"

declare decimal.simps [simp del]

definition serve_address :: "host \<Rightarrow> string boot" where
  "serve_address h =
    boot_bind (boot_kv (kv_Get KeyServeAddress)) (\<lambda>got.
    case got of
      Inr address \<Rightarrow> boot_return address
    | Inl e \<Rightarrow>
        if e \<noteq> ErrNoRows then boot_stop (Panicked (ErrorfAt ''Getting KeyServeAddress'' e))
        else
          (let address = ''localhost:'' @ decimal (nat (host_Int31n h (32768 - 1024) + 1024)) in
           boot_bind (boot_kv (kv_Set KeyServeAddress address)) (\<lambda>res.
           case res of
             Inl err \<Rightarrow> boot_stop (Panicked (ErrorfAt ''Setting KeyServeAddress'' err))
           | Inr _ \<Rightarrow> boot_return address)))"

definition serve :: "host \<Rightarrow> string boot" where
  "serve h = boot_bind (handleServeLock h) (\<lambda>_. boot_bind (initMiddleware h) (\<lambda>_. serve_address h))"

text \<open>
  The shutdown after a signal, once the write lock is held. \<open>CloseSessionStore\<close> drops the handle.
\<close>

definition handleSigs :: "KeyValueStore \<Rightarrow> unit boot" where
  "handleSigs store p =
    (Inl (Exited ''Got signal''),
     p\<lparr>pr_event := event_Close (pr_event p), pr_kvs := snd (KeyValueStore_Close store (pr_kvs p))\<rparr>)"

section \<open>The program\<close>

definition KeyDefaultLocation :: string where "KeyDefaultLocation = ''EventDefaultLocation''"

text \<open>The default of the program.\<close>

definition Berlin :: string where "Berlin = ''Europe/Berlin''"

text \<open>
  The flags of the configuration store. Defining one reads its current value; parsing the command
  line stores the values given, in order, and ends the process at the first error.
\<close>

definition flag_keys :: "string list" where
  "flag_keys = [KeyServeAddress, ScheduleDebug, SearchAlgo, SearchDuration, Validate, KeyDefaultLocation, LockingMethod]"

definition define_flags :: "unit boot" where
  "define_flags = boot_each (\<lambda>key. boot_bind (boot_kv (FlagValue_String (GetFlagValue key []))) (\<lambda>_. boot_return ())) flag_keys"

definition parse_flags :: "command_line \<Rightarrow> unit boot" where
  "parse_flags cl = boot_each (\<lambda>(key, v).
     boot_bind (boot_kv (FlagValue_Set (GetFlagValue key []) v)) (\<lambda>res.
     case res of Inl _ \<Rightarrow> boot_stop (Exited ''invalid value for flag'') | Inr _ \<Rightarrow> boot_return ())) (cl_settings cl)"

definition verification_code :: "host \<Rightarrow> unit boot" where
  "verification_code h =
    boot_bind (boot_kv (kv_Get VerificationCode)) (\<lambda>got.
    case got of
      Inr _ \<Rightarrow> boot_return ()
    | Inl e \<Rightarrow>
        if e \<noteq> ErrNoRows then boot_stop (Exited ''Getting Event Verification Code'')
        else
          boot_bind (boot_kv (kv_Set VerificationCode (GenerateRawID (take 8 (host_random h))))) (\<lambda>res.
          case res of Inl _ \<Rightarrow> boot_stop (Exited ''Setting Event Verification Code'') | Inr _ \<Rightarrow> boot_return ()))"

definition default_location :: "string boot" where
  "default_location =
    boot_bind (boot_kv (kv_Get KeyDefaultLocation)) (\<lambda>got.
    case got of
      Inr locstring \<Rightarrow> boot_return locstring
    | Inl e \<Rightarrow>
        if e \<noteq> ErrNoRows then boot_stop (Exited ''Getting default location'')
        else
          boot_bind (boot_kv (kv_Set KeyDefaultLocation Berlin)) (\<lambda>res.
          case res of Inl _ \<Rightarrow> boot_stop (Exited ''Setting default location'') | Inr _ \<Rightarrow> boot_return Berlin))"

definition open_kvs :: "host \<Rightarrow> KeyValueStore boot" where
  "open_kvs h p =
    (case OpenFile (host_is_ErrBusy h) (host_kv_open h) (pr_kvs p) of
       (Inl (Panic msg), f) \<Rightarrow> (Inl (Panicked (Panic msg)), p\<lparr>pr_kvs := f\<rparr>)
     | (Inl err, f) \<Rightarrow> (Inl (Exited ''Opening serverconfig''), p\<lparr>pr_kvs := f\<rparr>)
     | (Inr store, f) \<Rightarrow> (Inr store, p\<lparr>pr_kvs := f\<rparr>))"

definition load_event :: "host \<Rightarrow> string \<Rightarrow> string \<Rightarrow> unit boot" where
  "load_event h adminPwd locstring p =
    (case event_Load (host_zones h) (host_bcrypt h) (host_event_open h)
        \<lparr>opt_AdminPwd = adminPwd, opt_DefaultLocation = locstring, opt_dbFilename = ''''\<rparr> (pr_event p) of
       (Inl a, st) \<Rightarrow> (Inl a, p\<lparr>pr_event := st\<rparr>)
     | (Inr (Inl err), st) \<Rightarrow> (Inl (Exited ''Loading schedule data''), p\<lparr>pr_event := st\<rparr>)
     | (Inr (Inr printed), st) \<Rightarrow> (Inr (), p\<lparr>pr_event := st\<rparr>))"

text \<open>The environment of the handlers: the globals \<open>main\<close> has set.\<close>

definition main_env :: "host \<Rightarrow> string list \<Rightarrow> string \<Rightarrow> string \<Rightarrow> web_env" where
  "main_env h zones locstring tzl = \<lparr>
     we_display = (host_display h)\<lparr>denv_tz := \<lparr>tz_known = host_zones h, defaultLocation = tzl\<rparr>, DefaultLocationTZ := tzl\<rparr>,
     we_bcrypt = host_bcrypt h, DefaultLocation = locstring, TimezoneList = zones,
     sort_Slice = host_sort_Slice h, empty_NamedExec = host_empty_NamedExec h\<rparr>"

datatype outcome = Finished | Serving web_env string

text \<open>\<open>main\<close>; \<open>tz\<close> is the zone database while no default location is set.\<close>

definition main :: "host \<Rightarrow> command_line \<Rightarrow> outcome boot" where
  "main h cl =
    (let tz = \<lparr>tz_known = host_zones h, defaultLocation = ''''\<rparr> in
     case GetTimezoneList tz of
       Inl _ \<Rightarrow> boot_stop (Exited ''Getting timezone list'')
     | Inr zones \<Rightarrow>
         (case host_templates h of
            Some err \<Rightarrow> boot_stop (Panicked err)
          | None \<Rightarrow>
              boot_bind (open_kvs h) (\<lambda>store.
              boot_bind define_flags (\<lambda>_.
              boot_bind (parse_flags cl) (\<lambda>_.
              if cl_cpuprofile cl \<and> host_cpuprofile h \<noteq> None then boot_stop (Exited ''could not start CPU profile'')
              else
                boot_bind (verification_code h) (\<lambda>_.
                boot_bind default_location (\<lambda>locstring.
                case LoadLocation tz locstring of
                  Inl _ \<Rightarrow> boot_stop (Exited ''Couldn't load location'')
                | Inr tzl \<Rightarrow>
                    boot_bind (load_event h (cl_adminPwd cl) locstring) (\<lambda>_.
                    let env = main_env h zones locstring tzl in
                    if cl_command cl = '''' \<or> cl_command cl = ''serve'' then
                      boot_bind (serve h) (\<lambda>address. boot_return (Serving env address))
                    else if cl_command cl = ''schedule'' then
                      boot_bind (boot_web (main_MakeSchedule env False)) (\<lambda>_. boot_return Finished)
                    else if cl_command cl = ''editTimetable'' then
                      boot_bind (boot_event (EditTimetable ((host_edit h)\<lparr>ee_tz := we_tz env\<rparr>) locstring)) (\<lambda>_.
                      boot_return Finished)
                    else boot_stop (Exited ''Unknown command'')))))))))"

section \<open>What a started server has\<close>

lemma boot_bind_Inr:
  assumes "boot_bind m f p = (Inr v, p')"
  obtains x p1 where "m p = (Inr x, p1)" and "f x p1 = (Inr v, p')"
  using assms by (auto simp: boot_bind_def split: prod.splits sum.splits)

text \<open>Steps that work on the configuration only.\<close>

definition kv_only :: "'a boot \<Rightarrow> bool" where
  "kv_only m \<longleftrightarrow> (\<forall>p r p'. m p = (r, p') \<longrightarrow> pr_event p' = pr_event p \<and> pr_sessions p' = pr_sessions p)"

named_theorems kv_steps \<open>steps of the start that work on the configuration only\<close>

lemma kv_onlyD: "kv_only m \<Longrightarrow> m p = (r, p') \<Longrightarrow> pr_event p' = pr_event p \<and> pr_sessions p' = pr_sessions p"
  by (simp add: kv_only_def)

lemma kv_only_basic [kv_steps]:
  "kv_only (boot_return v)" "kv_only (boot_stop a)" "kv_only (boot_kv k)" "kv_only (open_kvs h)"
  by (auto simp: kv_only_def boot_return_def boot_stop_def boot_kv_def open_kvs_def split: prod.splits sum.splits error.splits)

lemma kv_only_bind [kv_steps]:
  assumes "kv_only m" and "\<And>v. kv_only (f v)"
  shows "kv_only (boot_bind m f)"
proof -
  have "pr_event p' = pr_event p \<and> pr_sessions p' = pr_sessions p" if "boot_bind m f p = (r, p')" for p r p'
  proof -
    obtain x p1 where m: "m p = (x, p1)" by fastforce
    show ?thesis using that m kv_onlyD [OF assms(1) m] kv_onlyD [OF assms(2)] by (cases x) (force simp: boot_bind_def)+
  qed
  then show ?thesis by (simp add: kv_only_def)
qed

lemma kv_only_if [kv_steps]: "kv_only m \<Longrightarrow> kv_only m' \<Longrightarrow> kv_only (if b then m else m')"
  by simp

lemma kv_only_sum [kv_steps]:
  "(\<And>e. kv_only (f e)) \<Longrightarrow> (\<And>v. kv_only (g v)) \<Longrightarrow> kv_only (case x of Inl e \<Rightarrow> f e | Inr v \<Rightarrow> g v)"
  by (cases x) auto

lemma kv_only_option [kv_steps]:
  "kv_only m \<Longrightarrow> (\<And>v. kv_only (g v)) \<Longrightarrow> kv_only (case x of None \<Rightarrow> m | Some v \<Rightarrow> g v)"
  by (cases x) auto

lemma kv_only_each [kv_steps]: "(\<And>x. kv_only (f x)) \<Longrightarrow> kv_only (boot_each f xs)"
  by (induction xs) (simp_all add: kv_steps)

lemma kv_only_case_prod [kv_steps]: "(\<And>a b. kv_only (f a b)) \<Longrightarrow> kv_only (case x of (a, b) \<Rightarrow> f a b)"
  by (cases x) auto

lemma kv_only_start [kv_steps]:
  "kv_only define_flags" "kv_only (parse_flags cl)" "kv_only (verification_code h)" "kv_only default_location"
  "kv_only (handleServeLock h)" "kv_only (serve_address h)"
  unfolding define_flags_def parse_flags_def verification_code_def default_location_def handleServeLock_def
    serve_address_def Let_def
  by (intro kv_steps)+

text \<open>Opening the session store keeps the sessions that are there.\<close>

lemma getSchemaVersion_frame: "getSchemaVersion db = (r, db') \<Longrightarrow> sess_table db' = sess_table db"
  by (auto simp: getSchemaVersion_def sess_fault_frame split: prod.splits option.splits)

lemma OpenSessionStore_rows:
  assumes "OpenSessionStore open_err db = (r, db')"
  shows "sess_rows db' = sess_rows db"
proof (cases open_err)
  case (Some e)
  with assms show ?thesis by (simp add: OpenSessionStore_def newSQLiteSessionStore_def)
next
  case None
  obtain x1 db1 where f1: "sess_fault db = (x1, db1)" by fastforce
  obtain v db2 where g: "getSchemaVersion db1 = (v, db2)" by fastforce
  have t: "sess_table db1 = sess_table db" "sess_table db2 = sess_table db"
    using sess_fault_frame(1) [OF f1] getSchemaVersion_frame [OF g] by simp_all
  have ends: "sess_table (snd (sess_fault d)) = sess_table d" for d
    using sess_fault_frame(1) [of d "fst (sess_fault d)" "snd (sess_fault d)"] by simp
  obtain x3 db3 where f3: "sess_fault db2 = (x3, db3)" by fastforce
  obtain x4 db4 where f4: "sess_fault db3 = (x4, db4)" by fastforce
  obtain x5 db5 where f5: "sess_fault db4 = (x5, db5)" by fastforce
  obtain x6 db6 where f6: "sess_fault db5 = (x6, db6)" by fastforce
  note tables = sess_fault_frame(1) [OF f3] sess_fault_frame(1) [OF f4] sess_fault_frame(1) [OF f5] sess_fault_frame(1) [OF f6]
  show ?thesis
    using assms None f1 g t ends [of db2] f3 f4 f5 f6 tables
    by (cases v; cases x1; cases x3; cases x4; cases x5; cases x6)
      (auto simp: OpenSessionStore_def newSQLiteSessionStore_def sess_rows_def split: if_splits)
qed

lemma initMiddleware_result:
  assumes "initMiddleware h p = (Inr v, p')"
  shows "pr_event p' = pr_event p" and "holder (pr_sessions p') = holder (pr_sessions p)"
    and "sess_ok (pr_sessions p) \<Longrightarrow> sess_ok (pr_sessions p')"
proof -
  obtain db where o: "OpenSessionStore (host_sessions_open h) (pr_sessions p) = (Inr (), db)" and p': "p' = p\<lparr>pr_sessions := db\<rparr>"
    using assms by (auto simp: initMiddleware_def split: prod.splits sum.splits)
  show "pr_event p' = pr_event p" by (simp add: p')
  have "sess_rows db = sess_rows (pr_sessions p)" using OpenSessionStore_rows [OF o] .
  then show "holder (pr_sessions p') = holder (pr_sessions p)" "sess_ok (pr_sessions p) \<Longrightarrow> sess_ok (pr_sessions p')"
    by (simp_all add: p' holder_def sess_ok_def)
qed

lemma load_event_result:
  assumes "load_event h pwd loc p = (Inr (), p')" and "bcrypt_ok (host_bcrypt h)" and "file_ok (es_files (pr_event p) DbFilename)"
  shows "es_DB (pr_event p') = Some DbFilename" and "pr_sessions p' = pr_sessions p"
    and "event_inv (committed (event_world (pr_event p')))"
    and "\<exists>printed. admin_set (host_bcrypt h) pwd printed (file_content (es_files (pr_event p) DbFilename)) (committed (event_world (pr_event p')))"
    and "file_version (es_files (pr_event p') DbFilename) = codeSchemaVersion" and "file_ok (es_files (pr_event p') DbFilename)"
proof -
  let ?opt = "\<lparr>opt_AdminPwd = pwd, opt_DefaultLocation = loc, opt_dbFilename = ''''\<rparr>"
  obtain printed st where l: "event_Load (host_zones h) (host_bcrypt h) (host_event_open h) ?opt (pr_event p) = (Inr (Inr printed), st)"
    and p': "p' = p\<lparr>pr_event := st\<rparr>"
    using assms(1) by (auto simp: load_event_def split: prod.splits sum.splits)
  have "DbFilename = (if opt_dbFilename ?opt = '''' then DbFilename else opt_dbFilename ?opt)" by simp
  note r = Load_result [OF l assms(2) this assms(3)]
  then show "es_DB (pr_event p') = Some DbFilename" "pr_sessions p' = pr_sessions p"
    "event_inv (committed (event_world (pr_event p')))"
    "\<exists>printed. admin_set (host_bcrypt h) pwd printed (file_content (es_files (pr_event p) DbFilename)) (committed (event_world (pr_event p')))"
    "file_version (es_files (pr_event p') DbFilename) = codeSchemaVersion" "file_ok (es_files (pr_event p') DbFilename)"
    by (auto simp: p' event_world_def)
qed

lemma serve_result:
  assumes "serve h p = (Inr address, p')"
  shows "pr_event p' = pr_event p" and "holder (pr_sessions p') = holder (pr_sessions p)"
    and "sess_ok (pr_sessions p) \<Longrightarrow> sess_ok (pr_sessions p')"
proof -
  obtain p1 where l: "handleServeLock h p = (Inr (), p1)" and r1: "boot_bind (initMiddleware h) (\<lambda>_. serve_address h) p1 = (Inr address, p')"
    by (rule boot_bind_Inr [OF assms [unfolded serve_def]]) auto
  obtain p2 where m: "initMiddleware h p1 = (Inr (), p2)" and a: "serve_address h p2 = (Inr address, p')"
    by (rule boot_bind_Inr [OF r1]) auto
  note k = kv_onlyD [of "handleServeLock h", OF _ l] kv_onlyD [of "serve_address h", OF _ a]
  note i = initMiddleware_result [OF m]
  show "pr_event p' = pr_event p" "holder (pr_sessions p') = holder (pr_sessions p)"
    "sess_ok (pr_sessions p) \<Longrightarrow> sess_ok (pr_sessions p')" using k i by (simp_all add: kv_steps)
qed

text \<open>
  What is there when the server starts to listen: the event of \<open>data/event.sqlite\<close>, loaded and consistent,
  with an account for the administrator, the sessions of the session file, and the zones of the host.
\<close>

lemma main_Serving:
  assumes "main h cl p = (Inr (Serving env address), p')" and bc: "bcrypt_ok (host_bcrypt h)"
    and db: "file_ok (es_files (pr_event p) DbFilename)"
  shows "event_inv (sv_db (server_of p'))"
    and "\<exists>printed. admin_set (host_bcrypt h) (cl_adminPwd cl) printed (file_content (es_files (pr_event p) DbFilename)) (sv_db (server_of p'))"
    and "holder (sv_sessions (server_of p')) = holder (pr_sessions p)"
    and "sess_ok (pr_sessions p) \<Longrightarrow> sess_ok (sv_sessions (server_of p'))"
    and "\<exists>zones loc tzl. env = main_env h zones loc tzl \<and> LoadLocation \<lparr>tz_known = host_zones h, defaultLocation = ''''\<rparr> loc = Inr tzl"
    and "es_DB (pr_event p') = Some DbFilename" and "file_version (es_files (pr_event p') DbFilename) = codeSchemaVersion"
    and "file_ok (es_files (pr_event p') DbFilename)"
proof -
  let ?tz = "\<lparr>tz_known = host_zones h, defaultLocation = ''''\<rparr>"
  obtain zones where z: "GetTimezoneList ?tz = Inr zones" by (simp add: GetTimezoneList_eq)
  have t: "host_templates h = None" using assms(1) z by (auto simp: main_def boot_stop_def split: option.splits)
  obtain store p1 p2 p3 p4 loc p5 tzl where steps: "open_kvs h p = (Inr store, p1)" "define_flags p1 = (Inr (), p2)"
      "parse_flags cl p2 = (Inr (), p3)" "verification_code h p3 = (Inr (), p4)" "default_location p4 = (Inr loc, p5)"
    and tzl: "LoadLocation ?tz loc = Inr tzl"
    and go: "boot_bind (load_event h (cl_adminPwd cl) loc) (\<lambda>_.
        let env = main_env h zones loc tzl in
        if cl_command cl = '''' \<or> cl_command cl = ''serve'' then
          boot_bind (serve h) (\<lambda>address. boot_return (Serving env address))
        else if cl_command cl = ''schedule'' then
          boot_bind (boot_web (main_MakeSchedule env False)) (\<lambda>_. boot_return Finished)
        else if cl_command cl = ''editTimetable'' then
          boot_bind (boot_event (EditTimetable ((host_edit h)\<lparr>ee_tz := we_tz env\<rparr>) loc)) (\<lambda>_. boot_return Finished)
        else boot_stop (Exited ''Unknown command'')) p5 = (Inr (Serving env address), p')"
    using assms(1) z t unfolding main_def Let_def
    by (auto elim!: boot_bind_Inr simp: boot_stop_def split: if_splits sum.splits)
  have "pr_event p5 = pr_event p" "pr_sessions p5 = pr_sessions p"
    using kv_onlyD [of "open_kvs h", OF _ steps(1)] kv_onlyD [of define_flags, OF _ steps(2)]
      kv_onlyD [of "parse_flags cl", OF _ steps(3)] kv_onlyD [of "verification_code h", OF _ steps(4)]
      kv_onlyD [of default_location, OF _ steps(5)]
    by (simp_all add: kv_steps)
  note same = this
  obtain p6 where l: "load_event h (cl_adminPwd cl) loc p5 = (Inr (), p6)"
    and s: "boot_bind (serve h) (\<lambda>address. boot_return (Serving (main_env h zones loc tzl) address)) p6 = (Inr (Serving env address), p')"
  proof (rule boot_bind_Inr [OF go], goal_cases)
    case (1 x p6)
    have "cl_command cl = '''' \<or> cl_command cl = ''serve''"
      using 1(3) by (auto elim!: boot_bind_Inr simp: Let_def boot_stop_def boot_return_def split: if_splits)
    with 1 show thesis by (simp add: Let_def)
  qed
  have env: "env = main_env h zones loc tzl" and v: "serve h p6 = (Inr address, p')"
    using s by (auto elim!: boot_bind_Inr simp: boot_return_def)
  note lr = load_event_result [OF l bc] and sr = serve_result [OF v]
  show "event_inv (sv_db (server_of p'))"
    "\<exists>printed. admin_set (host_bcrypt h) (cl_adminPwd cl) printed (file_content (es_files (pr_event p) DbFilename)) (sv_db (server_of p'))"
    "holder (sv_sessions (server_of p')) = holder (pr_sessions p)"
    "sess_ok (pr_sessions p) \<Longrightarrow> sess_ok (sv_sessions (server_of p'))"
    "es_DB (pr_event p') = Some DbFilename" "file_version (es_files (pr_event p') DbFilename) = codeSchemaVersion"
    "file_ok (es_files (pr_event p') DbFilename)"
    using lr sr same db by (simp_all add: server_of_def)
  show "\<exists>zones loc tzl. env = main_env h zones loc tzl \<and> LoadLocation ?tz loc = Inr tzl" using env tzl by blast
qed

section \<open>An instance\<close>

text \<open>A host without files of the program, on which everything works, and the command to serve.\<close>

definition sample_host :: host where
  "sample_host = \<lparr>host_zones = tz_known sample_tz, host_bcrypt = sample_bcrypt, host_display = sample_denv,
     host_edit = sample_edit_env, host_sort_Slice = stable_slice,
     host_empty_NamedExec = (\<lambda>d. Inl (DriverError ''length of array is 0'')), host_templates = None,
     host_is_ErrBusy = (\<lambda>_. False), host_kv_open = None, host_event_open = None, host_sessions_open = None,
     host_cpuprofile = None, host_TryLock = Inr True, host_Lock = None, host_random = [0, 1, 2, 3, 4, 5, 6, 7],
     host_Int31n = (\<lambda>_. 7056)\<rparr>"

definition sample_process :: process where
  "sample_process = \<lparr>pr_kvs = \<lparr>kv_table = None, kv_faults = [], kv_closed = False\<rparr>, pr_event = sample_store,
     pr_sessions = sample_sessions\<lparr>attributes := None, sess_table := None\<rparr>\<rparr>"

definition sample_command :: command_line where
  "sample_command = \<lparr>cl_adminPwd = ''secret'', cl_settings = [(LockingMethod, ''error'')], cl_cpuprofile = False, cl_command = ''''\<rparr>"

lemma sample_kv_steps:
  "case open_kvs sample_host (sample_process\<lparr>pr_event := st\<rparr>) of (r, p1) \<Rightarrow> (case r of Inl _ \<Rightarrow> False | Inr _ \<Rightarrow>
     (case define_flags p1 of (r, p2) \<Rightarrow> r = Inr () \<and>
     (case parse_flags (sample_command\<lparr>cl_adminPwd := pw\<rparr>) p2 of (r, p3) \<Rightarrow> r = Inr () \<and>
     (case verification_code sample_host p3 of (r, p4) \<Rightarrow> r = Inr () \<and>
     (case default_location p4 of (r, p5) \<Rightarrow> r = Inr Berlin \<and>
        kv_table (pr_kvs p5) = Some [(LockingMethod, ''error''), (VerificationCode, ''01234567''), (KeyDefaultLocation, Berlin)]
        \<and> kv_faults (pr_kvs p5) = [])))))"
  by code_simp

lemma sample_serve:
  assumes "kv_table (pr_kvs p) = Some [(LockingMethod, ''error''), (VerificationCode, ''01234567''), (KeyDefaultLocation, Berlin)]"
    and "kv_faults (pr_kvs p) = []" and "pr_sessions p = pr_sessions sample_process"
  shows "\<exists>p'. serve sample_host p = (Inr ''localhost:8080'', p')"
proof -
  have d: "decimal 8080 = ''8080''" by (simp add: decimal.simps)
  show ?thesis
    using assms
    by (simp add: serve_def boot_bind_def boot_return_def boot_kv_def handleServeLock_def kv_Get_def kv_exec_def kv_fault_def
        kv_get_def kv_Set_def kv_set_def LockingMethod_def VerificationCode_def KeyDefaultLocation_def KeyServeAddress_def
        sample_host_def initMiddleware_def OpenSessionStore_def newSQLiteSessionStore_def sess_fault_def getSchemaVersion_def
        sample_process_def sample_sessions_def serve_address_def d Let_def)
qed

lemma sample_main_from:
  assumes load: "\<And>f. \<exists>p'. load_event sample_host pw Berlin (sample_process\<lparr>pr_kvs := f, pr_event := st\<rparr>) = (Inr (), p')
     \<and> pr_kvs p' = f \<and> pr_sessions p' = pr_sessions sample_process"
  shows "\<exists>env p'. main sample_host (sample_command\<lparr>cl_adminPwd := pw\<rparr>) (sample_process\<lparr>pr_event := st\<rparr>)
     = (Inr (Serving env ''localhost:8080''), p')"
proof -
  let ?cl = "sample_command\<lparr>cl_adminPwd := pw\<rparr>" and ?p = "sample_process\<lparr>pr_event := st\<rparr>"
  obtain store p1 p2 p3 p4 p5 where steps: "open_kvs sample_host ?p = (Inr store, p1)" "define_flags p1 = (Inr (), p2)"
      "parse_flags ?cl p2 = (Inr (), p3)" "verification_code sample_host p3 = (Inr (), p4)" "default_location p4 = (Inr Berlin, p5)"
      and kv: "kv_table (pr_kvs p5) = Some [(LockingMethod, ''error''), (VerificationCode, ''01234567''), (KeyDefaultLocation, Berlin)]"
        "kv_faults (pr_kvs p5) = []"
    using sample_kv_steps [where st = st and pw = pw] by (auto split: prod.splits sum.splits)
  have "pr_event p5 = st" "pr_sessions p5 = pr_sessions sample_process"
    using kv_onlyD [of "open_kvs sample_host", OF _ steps(1)] kv_onlyD [of define_flags, OF _ steps(2)]
      kv_onlyD [of "parse_flags ?cl", OF _ steps(3)] kv_onlyD [of "verification_code sample_host", OF _ steps(4)]
      kv_onlyD [of default_location, OF _ steps(5)]
    by (simp_all add: kv_steps)
  then have p5: "p5 = sample_process\<lparr>pr_kvs := pr_kvs p5, pr_event := st\<rparr>" by simp
  obtain p6 where l: "load_event sample_host pw Berlin p5 = (Inr (), p6)"
    and p6: "pr_kvs p6 = pr_kvs p5" "pr_sessions p6 = pr_sessions sample_process"
    using load [of "pr_kvs p5"] p5 by metis
  obtain p7 where s: "serve sample_host p6 = (Inr ''localhost:8080'', p7)" using sample_serve [of p6] kv p6 by auto
  have "LoadLocation \<lparr>tz_known = host_zones sample_host, defaultLocation = ''''\<rparr> Berlin = Inr Berlin"
    by (simp add: LoadLocation_def sample_host_def sample_tz_def Berlin_def)
  moreover have "host_templates sample_host = None" "cl_adminPwd ?cl = pw" "\<not> cl_cpuprofile ?cl"
    "cl_command ?cl = ''''" by (simp_all add: sample_host_def sample_command_def)
  ultimately show ?thesis
    using steps l s by (simp add: main_def GetTimezoneList_eq Let_def boot_bind_def boot_return_def)
qed

lemma sample_load_event:
  "\<exists>p'. load_event sample_host ''secret'' Berlin (sample_process\<lparr>pr_kvs := f, pr_event := sample_store\<rparr>) = (Inr (), p')
     \<and> pr_kvs p' = f \<and> pr_sessions p' = pr_sessions sample_process"
proof -
  obtain st where "event_Load (tz_known sample_tz) sample_bcrypt None sample_options sample_store = (Inr (Inr (Some ''secret'')), st)"
    using sample_Load by blast
  then show ?thesis
    by (auto simp: load_event_def sample_host_def sample_process_def sample_options_def Berlin_def)
qed

lemma sample_main: "\<exists>env p'. main sample_host sample_command sample_process = (Inr (Serving env ''localhost:8080''), p')"
proof -
  have "sample_command\<lparr>cl_adminPwd := ''secret''\<rparr> = sample_command" "sample_process\<lparr>pr_event := sample_store\<rparr> = sample_process"
    by (simp_all add: sample_command_def sample_process_def)
  then show ?thesis using sample_main_from [OF sample_load_event] by simp
qed

text \<open>The same host with the sample event on its disk, in which there is an administrator already.\<close>

definition loaded_file :: event_file where
  "loaded_file = \<lparr>file_version = 2, file_tables = event_tables, file_world = sample_world\<rparr>"

definition loaded_process :: process where
  "loaded_process = sample_process\<lparr>pr_event := sample_store\<lparr>es_files := (\<lambda>_. loaded_file)\<rparr>\<rparr>"

lemma loaded_load_event:
  "\<exists>p'. load_event sample_host '''' Berlin (sample_process\<lparr>pr_kvs := f, pr_event := sample_store\<lparr>es_files := (\<lambda>_. loaded_file)\<rparr>\<rparr>) = (Inr (), p')
     \<and> pr_kvs p' = f \<and> pr_sessions p' = pr_sessions sample_process"
proof -
  let ?tz = "\<lparr>tz_known = tz_known sample_tz, defaultLocation = ''Europe/Berlin''\<rparr>"
  have "case UserFindByUsername ?tz AdminUsername (file_world loaded_file) of (Inr (Some u), w) \<Rightarrow> True | _ \<Rightarrow> False"
    by code_simp
  then have "\<exists>w. handleAdminPwd sample_bcrypt ?tz '''' (file_world loaded_file) = (Inr None, w)"
    by (auto simp: handleAdminPwd_def split: prod.splits sum.splits option.splits)
  moreover have "openDb None loaded_file = (Inr (), loaded_file)"
    by (simp add: openDb_def loaded_file_def next_fault_def codeSchemaVersion_def)
  ultimately show ?thesis
    by (auto simp: load_event_def event_Load_def EventStore_Load_def sample_host_def sample_process_def sample_store_def Berlin_def
        LoadLocation_def sample_tz_def)
qed

lemma loaded_main:
  "\<exists>env p'. main sample_host (sample_command\<lparr>cl_adminPwd := ''''\<rparr>) loaded_process = (Inr (Serving env ''localhost:8080''), p')"
  unfolding loaded_process_def by (rule sample_main_from [OF loaded_load_event])

lemma sample_process_ok:
  "file_ok (es_files (pr_event sample_process) DbFilename)" "sess_ok (pr_sessions sample_process)"
  "holder (pr_sessions sample_process) c = None"
  by (simp_all add: sample_process_def sample_store_def new_file_ok sess_ok_def sess_rows_def holder_def row_holder_def)

lemma loaded_process_ok: "file_ok (es_files (pr_event loaded_process) DbFilename)"
  by (simp add: loaded_process_def sample_store_def loaded_file_def file_ok_def codeSchemaVersion_def sample_inv)

end
