(* ===== verification/Concurrency.thy ===== *)
theory Concurrency
  imports Startup
begin

text \<open>
  Requests at the same time, and the end of the process. \<^verbatim>\<open>net/http\<close> runs every request in a goroutine of its
  own; what they share are the three stores, and what they do to them are calls, each of which is one transaction
  or one statement of an engine. \<open>call_step\<close> is one such call. The first theorem shows that every request is a sequence of
  them. \<open>site_step\<close> lets the calls of any number of requests alternate in every way, under the read-write lock of
  \<^verbatim>\<open>middleware.go\<close> that \<open>handleSigs\<close> takes for writing before it closes the stores.
\<close>

section \<open>What a request does to the stores\<close>

text \<open>
  The calls of the handlers, with any arguments: between reading and writing, others may have changed what was read.
  Only \<open>HandleUserCreate\<close> makes accounts, and it leaves the role of an admin out.
\<close>

inductive call_step :: "web_env \<Rightarrow> server \<Rightarrow> server \<Rightarrow> bool" for env where
  read: "same_state sv sv' \<Longrightarrow> call_step env sv sv'"
| NewUser: "\<not> IsAdmin u \<Longrightarrow> event_call (NewUser (we_bcrypt env) (we_tz env) pw u) sv = (r, sv') \<Longrightarrow> call_step env sv sv'"
| UserUpdate: "event_call (UserUpdate (we_bcrypt env) u modifier cur new) sv = (r, sv') \<Longrightarrow> call_step env sv sv'"
| SetVerified: "event_call (SetVerified u b) sv = (r, sv') \<Longrightarrow> call_step env sv sv'"
| SetInterest: "event_call (SetInterest u d i) sv = (r, sv') \<Longrightarrow> call_step env sv sv'"
| DeleteUser: "event_call (DeleteUser uid) sv = (r, sv') \<Longrightarrow> call_step env sv sv'"
| NewDiscussion: "event_call (NewDiscussion d) sv = (r, sv') \<Longrightarrow> call_step env sv sv'"
| DiscussionUpdate: "event_call (DiscussionUpdate d) sv = (r, sv') \<Longrightarrow> call_step env sv sv'"
| DeleteDiscussion: "event_call (DeleteDiscussion did) sv = (r, sv') \<Longrightarrow> call_step env sv sv'"
| SetPublic: "event_call (DiscussionSetPublic did b) sv = (r, sv') \<Longrightarrow> call_step env sv sv'"
| SetPossibleSlots: "event_call (DiscussionSetPossibleSlots (empty_NamedExec env) did ss) sv = (r, sv') \<Longrightarrow> call_step env sv sv'"
| NewLocation: "event_call (NewLocation l) sv = (r, sv') \<Longrightarrow> call_step env sv sv'"
| LocationUpdate: "event_call (LocationUpdate l) sv = (r, sv') \<Longrightarrow> call_step env sv sv'"
| SetLockedSlots: "event_call (TimetableSetLockedSlots ss) sv = (r, sv') \<Longrightarrow> call_step env sv sv'"
| MakeSchedule: "event_call (MakeSchedule (sort_Slice env) (we_tz env)) sv = (r, sv') \<Longrightarrow> call_step env sv sv'"
| kv_Set: "kv_call (kv_Set key v) sv = (r, sv') \<Longrightarrow> call_step env sv sv'"
| kv_SetBool: "kv_call (kv_SetBool key b) sv = (r, sv') \<Longrightarrow> call_step env sv sv'"
| kv_ExchangeBool: "kv_call (kv_ExchangeBool key b) sv = (r, sv') \<Longrightarrow> call_step env sv sv'"
| NewSession: "sess_call (NewSession uid) sv = (r, sv') \<Longrightarrow> call_step env sv sv'"
| FindOrCreateSession: "sess_call (FindOrCreateSession c uid) sv = (r, sv') \<Longrightarrow> call_step env sv sv'"
| DeleteSession: "sess_call (DeleteSessionByRequest c) sv = (r, sv') \<Longrightarrow> call_step env sv sv'"

abbreviation calls :: "web_env \<Rightarrow> server \<Rightarrow> server \<Rightarrow> bool" where
  "calls env \<equiv> (call_step env)\<^sup>*\<^sup>*"

interpretation calling: server_rel "calls env" for env
  by unfold_locales (auto intro: call_step.read)

named_theorems call_rules \<open>handlers as sequences of calls\<close>

declare calling.steps [call_rules] calling.reading [OF RequestUser_reads, call_rules] calling.reading [OF RenderTemplate_reads, call_rules]
  calling.reading [OF RequireLogin_reads, call_rules] query_reads [THEN calling.reading, call_rules]

lemma calls_read [call_rules]: "only_reads m \<Longrightarrow> web_rel (calls env) (event_get m)"
  by (auto intro!: calling.reading web_reads)

lemma calls_other_reads [call_rules]:
  "web_rel (calls env) (kv_call (kv_Get k))" "web_rel (calls env) (kv_call (kv_GetBoolDef k))"
  "web_rel (calls env) (sess_call (RequestSession c))"
  by (auto intro: calling.reading web_reads)

lemma one_call: "(\<And>sv r sv'. m sv = (r, sv') \<Longrightarrow> call_step env sv sv') \<Longrightarrow> web_rel (calls env) m"
  by (auto simp: web_rel_def)

lemma calls_operations [call_rules]:
  "\<not> IsAdmin u \<Longrightarrow> web_rel (calls env) (event_call (NewUser (we_bcrypt env) (we_tz env) pw u))"
  "web_rel (calls env) (event_call (UserUpdate (we_bcrypt env) u modifier cur new))"
  "web_rel (calls env) (event_call (SetVerified u b))"
  "web_rel (calls env) (event_call (SetInterest u d i))"
  "web_rel (calls env) (event_call (DeleteUser uid))"
  "web_rel (calls env) (event_call (NewDiscussion d))"
  "web_rel (calls env) (event_call (DiscussionUpdate d))"
  "web_rel (calls env) (event_call (DeleteDiscussion did))"
  "web_rel (calls env) (event_call (DiscussionSetPublic did b))"
  "web_rel (calls env) (event_call (DiscussionSetPossibleSlots (empty_NamedExec env) did ss))"
  "web_rel (calls env) (event_call (NewLocation l))"
  "web_rel (calls env) (event_call (LocationUpdate l))"
  "web_rel (calls env) (event_call (TimetableSetLockedSlots ss))"
  "web_rel (calls env) (event_call (MakeSchedule (sort_Slice env) (we_tz env)))"
  "web_rel (calls env) (kv_call (kv_Set key v))"
  "web_rel (calls env) (kv_call (kv_SetBool key b))"
  "web_rel (calls env) (kv_call (kv_ExchangeBool key b))"
  "web_rel (calls env) (sess_call (NewSession uid))"
  "web_rel (calls env) (sess_call (FindOrCreateSession c uid))"
  "web_rel (calls env) (sess_call (DeleteSessionByRequest c))"
  by (rule one_call; blast intro: call_step.intros)+

lemma calls_session_handlers [call_rules]:
  "web_rel (calls env) (HandleHome env r)" "web_rel (calls env) (HandleSessionNew env r)"
  "web_rel (calls env) (HandleSessionDestroy env r)" "web_rel (calls env) (HandleSessionCreate env r)"
  unfolding HandleHome_def HandleSessionNew_def HandleSessionDestroy_def HandleSessionCreate_def sessionCreate_for_def FindUser_def Let_def
  by (intro call_rules reads)+

lemma calls_user_handlers [call_rules]: "web_rel (calls env) (HandleUserNew env r)" "web_rel (calls env) (HandleUserCreate env r)"
  unfolding HandleUserNew_def HandleUserCreate_def userCreate_register_def userCreate_fail_def Let_def
  by (intro call_rules; simp add: zero_user_def)+

lemma calls_view_handlers [call_rules]:
  "web_rel (calls env) (HandleScheduleView env r)" "web_rel (calls env) (HandleDiscussionNew env r)"
  "web_rel (calls env) (HandleDiscussionNotFound env r)" "web_rel (calls env) (HandleDiscussionCreate env r)"
  "web_rel (calls env) (HandleList env r ps)" "web_rel (calls env) (HandleUid env r ps)"
  unfolding HandleScheduleView_def HandleDiscussionNew_def HandleDiscussionNotFound_def HandleDiscussionCreate_def
    HandleList_def HandleUid_def uid_discussion_def uid_user_def uid_page_def Let_def
  by (intro call_rules reads)+

lemma calls_UidPost [call_rules]: "web_rel (calls env) (HandleUidPost env r ps)"
  unfolding HandleUidPost_def uidPost_discussion_def uidPost_user_def post_setinterest_def post_edit_discussion_def
    post_delete_discussion_def post_setpublic_def post_edit_user_def post_setverified_def post_verify_def post_delete_user_def Let_def
  by (intro call_rules reads)

lemma calls_admin_handlers [call_rules]:
  "web_rel (calls env) (HandleAdminConsole env r ps)" "web_rel (calls env) (HandleTestAction env r ps)"
  "web_rel (calls env) (HandleAdminAction env r ps)"
  unfolding HandleAdminConsole_def console_content_def HandleTestAction_def set_test_mode_def
    HandleAdminAction_def admin_runschedule_def main_MakeSchedule_def getSearchDuration_def admin_setvcode_def
    admin_setstatus_def flashAccumulator_def admin_setLocked_def admin_location_def Let_def
  by (intro call_rules reads)+

lemma calls_dispatch [call_rules]: "web_rel (calls env) (dispatch env r ps h)"
  by (cases h) (simp_all add: call_rules)

lemma calls_ServeHTTP: "web_rel (calls env) (ServeHTTP env Lookup r)"
proof -
  have new: "web_rel (calls env) NewMiddlewareResponseWriter"
    by (auto simp: web_rel_def NewMiddlewareResponseWriter_def same_state_def intro!: calling.rel_same)
  have unless: "web_rel (calls env) (unless_written m)" if "web_rel (calls env) m" for m
    using that by (auto simp: web_rel_def unless_written_def split: if_splits)
  have via: "web_rel (calls env) (route_via env Lookup r router guard)"
    if "\<And>h ps. web_rel (calls env) (guard (dispatch env r ps h))" for router guard
    unfolding route_via_def by (auto intro!: call_rules that split: option.split prod.split)
  show ?thesis unfolding ServeHTTP_def LogRequest_def active_guard_def by (intro new unless via call_rules)
qed

text \<open>A call keeps the invariant of the event and makes nobody an admin.\<close>

lemma call_keeps:
  assumes "call_step env sv sv'" and "env_ok env"
  shows "keeps_event sv sv'"
  using assms
proof cases
  case read
  then show ?thesis by (rule keeping.rel_same)
next
  case (SetPossibleSlots did ss r)
  with keeps_admin_operations(2) [of "empty_NamedExec env" did ss] assms(2) show ?thesis
    by (auto simp: env_ok_def dest: web_relD)
next
  case (MakeSchedule r)
  with keeps_admin_operations(6) [of "sort_Slice env" "we_tz env"] assms(2) show ?thesis
    by (auto simp: env_ok_def dest: web_relD)
qed (auto dest: web_relD [OF keeps_account_operations(1)] web_relD [OF keeps_account_operations(2)]
  web_relD [OF keeps_account_operations(3), rotated] web_relD [OF keeps_DeleteUser]
  web_relD [OF keeps_discussion_operations(1)] web_relD [OF keeps_discussion_operations(2)]
  web_relD [OF keeps_discussion_operations(3)] web_relD [OF keeps_discussion_operations(4)]
  web_relD [OF keeps_admin_operations(1)] web_relD [OF keeps_admin_operations(3)] web_relD [OF keeps_admin_operations(4)]
  web_relD [OF keeps_admin_operations(5)] web_relD [OF keeps_other(1)] web_relD [OF keeps_other(2)])

section \<open>Requests at the same time\<close>

text \<open>
  The process with its requests, numbered as they arrive. A request waits for the read lock, is handled, and gives the lock
  back. The shutdown has not begun (the writer does not want the lock), waits for it (the signal has come,
  \<open>handleSigs\<close> is in \<open>lock.Lock\<close>), has it, or is over, when the process has exited: by \<open>handleSigs\<close> or by a
  \<open>log.Fatalf\<close> in a handler. \<open>RLock\<close> lets nobody in while a writer has the lock or waits for it.
\<close>

datatype phase = Absent | Waiting | Handling | Answered
datatype shutdown = Listening | Locking | Locked | Closed | Crashed

record site =
  st_process :: process
  st_requests :: "nat \<Rightarrow> phase"
  st_shutdown :: shutdown

definition handled :: "site \<Rightarrow> nat set" where
  "handled s = {i. st_requests s i = Handling}"

definition known :: "(nat \<Rightarrow> phase) \<Rightarrow> nat set" where
  "known f = {i. f i \<noteq> Absent}"

definition put_server :: "process \<Rightarrow> server \<Rightarrow> process" where
  "put_server p sv = \<lparr>pr_kvs = sv_kvs sv, pr_event = store_world (pr_event p) (sv_event sv), pr_sessions = sv_sessions sv\<rparr>"

definition alive :: "site \<Rightarrow> bool" where
  "alive s \<longleftrightarrow> st_shutdown s \<in> {Listening, Locking, Locked}"

inductive site_step :: "web_env \<Rightarrow> KeyValueStore \<Rightarrow> site \<Rightarrow> site \<Rightarrow> bool" for env store where
  arrive: "alive s \<Longrightarrow> st_requests s i = Absent \<Longrightarrow>
    site_step env store s (s\<lparr>st_requests := (st_requests s)(i := Waiting)\<rparr>)"
| RLock: "st_shutdown s = Listening \<Longrightarrow> st_requests s i = Waiting \<Longrightarrow>
    site_step env store s (s\<lparr>st_requests := (st_requests s)(i := Handling)\<rparr>)"
| call: "alive s \<Longrightarrow> st_requests s i = Handling \<Longrightarrow> call_step env (server_of (st_process s)) sv \<Longrightarrow>
    site_step env store s (s\<lparr>st_process := put_server (st_process s) sv\<rparr>)"
| RUnlock: "alive s \<Longrightarrow> st_requests s i = Handling \<Longrightarrow>
    site_step env store s (s\<lparr>st_requests := (st_requests s)(i := Answered)\<rparr>)"
| Fatalf: "alive s \<Longrightarrow> st_requests s i = Handling \<Longrightarrow> site_step env store s (s\<lparr>st_shutdown := Crashed\<rparr>)"
| signal: "st_shutdown s = Listening \<Longrightarrow> site_step env store s (s\<lparr>st_shutdown := Locking\<rparr>)"
| Lock: "st_shutdown s = Locking \<Longrightarrow> handled s = {} \<Longrightarrow> site_step env store s (s\<lparr>st_shutdown := Locked\<rparr>)"
| Close: "st_shutdown s = Locked \<Longrightarrow> handleSigs store (st_process s) = (r, p) \<Longrightarrow>
    site_step env store s (s\<lparr>st_process := p, st_shutdown := Closed\<rparr>)"

abbreviation site_steps :: "web_env \<Rightarrow> KeyValueStore \<Rightarrow> site \<Rightarrow> site \<Rightarrow> bool" where
  "site_steps env store \<equiv> (site_step env store)\<^sup>*\<^sup>*"

definition started :: "process \<Rightarrow> site" where
  "started p = \<lparr>st_process = p, st_requests = (\<lambda>_. Absent), st_shutdown = Listening\<rparr>"

text \<open>The event file the process works on.\<close>

definition event_on_file :: "process \<Rightarrow> event_file" where
  "event_on_file p = es_files (pr_event p) DbFilename"

abbreviation filed :: "process \<Rightarrow> database" where
  "filed p \<equiv> committed (file_world (event_on_file p))"

text \<open>
  The invariant: the stores are open until \<open>handleSigs\<close> closes them, which it does when nobody is being handled; and the file
  has its schema and a consistent event, with no admin that was not there at the start.
\<close>

definition site_ok :: "process \<Rightarrow> site \<Rightarrow> bool" where
  "site_ok p0 s \<longleftrightarrow>
    (es_DB (pr_event (st_process s)) = (if st_shutdown s = Closed then None else Some DbFilename))
    \<and> (st_shutdown s \<in> {Locked, Closed} \<longrightarrow> handled s = {})
    \<and> finite (known (st_requests s))
    \<and> file_version (event_on_file (st_process s)) = codeSchemaVersion \<and> file_tables (event_on_file (st_process s)) = event_tables
    \<and> event_inv (filed (st_process s)) \<and> admin_ids (filed (st_process s)) \<subseteq> admin_ids (filed p0)"

lemma put_server_file:
  assumes "es_DB (pr_event p) = Some DbFilename"
  shows "event_on_file (put_server p sv) = (event_on_file p)\<lparr>file_world := sv_event sv\<rparr>"
    and "es_DB (pr_event (put_server p sv)) = Some DbFilename"
    and "sv_event (server_of p) = file_world (event_on_file p)"
  using assms by (simp_all add: put_server_def store_world_def event_on_file_def server_of_def event_world_def)

lemma handled_upd [simp]:
  "handled (s\<lparr>st_process := p\<rparr>) = handled s" "handled (s\<lparr>st_shutdown := x\<rparr>) = handled s"
  "handled (s\<lparr>st_requests := f\<rparr>) = {i. f i = Handling}"
  by (simp_all add: handled_def)

lemma finite_known [simp]: "finite (known f) \<Longrightarrow> finite (known (f(i := x)))"
  by (rule finite_subset [of _ "insert i (known f)"]) (auto simp: known_def)

lemma handled_known: "handled s \<subseteq> known (st_requests s)"
  by (auto simp: handled_def known_def)

lemma site_step_ok:
  assumes "site_step env store s s'" and "site_ok p0 s" and "env_ok env"
  shows "site_ok p0 s'"
  using assms(1)
proof cases
  case (call i sv)
  have open_db: "es_DB (pr_event (st_process s)) = Some DbFilename" using assms(2) call(2) by (auto simp: site_ok_def alive_def)
  have "keeps_event (server_of (st_process s)) sv" using call_keeps [OF call(4) assms(3)] .
  then have "event_inv (sv_db sv) \<and> admin_ids (sv_db sv) \<subseteq> admin_ids (filed (st_process s))"
    using assms(2) by (auto simp: keeps_event_def put_server_file(3) [OF open_db] site_ok_def)
  with assms(2) call show ?thesis by (auto simp: site_ok_def alive_def put_server_file(1,2) [OF open_db])
next
  case (Close r p)
  then have p: "p = (st_process s)\<lparr>pr_event := event_Close (pr_event (st_process s)),
      pr_kvs := snd (KeyValueStore_Close store (pr_kvs (st_process s)))\<rparr>"
    by (simp add: handleSigs_def)
  from assms(2) Close(2) show ?thesis by (simp add: site_ok_def Close(1) p event_Close_def event_on_file_def)
next
  case (arrive i)
  with assms(2) show ?thesis by (auto simp: site_ok_def alive_def handled_def)
next
  case (RLock i)
  with assms(2) show ?thesis by (auto simp: site_ok_def handled_def)
next
  case (RUnlock i)
  with assms(2) show ?thesis by (auto simp: site_ok_def alive_def handled_def)
qed (use assms(2) in \<open>auto simp: site_ok_def alive_def\<close>)

lemma site_steps_ok:
  assumes "site_steps env store s s'" and "site_ok p0 s" and "env_ok env"
  shows "site_ok p0 s'"
  using assms by induction (auto intro: site_step_ok)

section \<open>One request among others\<close>

text \<open>A call does not depend on what has been answered.\<close>

definition with_answer :: "reply list \<Rightarrow> bool \<Rightarrow> server \<Rightarrow> server" where
  "with_answer xs b sv = sv\<lparr>sv_replies := xs, sv_written := b\<rparr>"

lemma with_answer_sel [simp]:
  "sv_event (with_answer xs b sv) = sv_event sv" "sv_kvs (with_answer xs b sv) = sv_kvs sv"
  "sv_sessions (with_answer xs b sv) = sv_sessions sv"
  by (simp_all add: with_answer_def)

lemma calls_with_answer:
  "event_call m sv = (r, sv') \<Longrightarrow> event_call m (with_answer xs b sv) = (r, with_answer xs b sv')"
  "kv_call f sv = (v, sv') \<Longrightarrow> kv_call f (with_answer xs b sv) = (v, with_answer xs b sv')"
  "sess_call g sv = (y, sv') \<Longrightarrow> sess_call g (with_answer xs b sv) = (y, with_answer xs b sv')"
  by (auto simp: event_call_def kv_call_def sess_call_def with_answer_def split: prod.splits sum.splits error.splits)

lemma call_step_with_answer: "call_step env sv sv' \<Longrightarrow> call_step env (with_answer xs b sv) (with_answer xs b sv')"
proof (induction rule: call_step.induct)
  case (read sv sv')
  then show ?case by (intro call_step.read) (simp add: same_state_def)
qed (drule calls_with_answer [where xs = xs and b = b], erule call_step.intros, assumption?)+

text \<open>Calls of a request that is being handled are steps of the process.\<close>

lemma server_of_put: "es_DB (pr_event p) = Some name \<Longrightarrow> server_of (put_server p sv) = with_answer [] False sv"
  by (simp add: server_of_def put_server_def event_world_def store_world_def with_answer_def)

lemma put_put: "put_server (put_server p sv) sv' = put_server p sv'"
  by (simp add: put_server_def store_world_def split: option.splits)

lemma put_server_of: "es_DB (pr_event p) = Some name \<Longrightarrow> put_server p (server_of p) = p"
  by (simp add: put_server_def server_of_def store_world_def event_world_def)

lemma calls_site_steps:
  assumes "calls env sv0 sv" and "alive s" and "st_requests s i = Handling" and "es_DB (pr_event (st_process s)) = Some name"
    and "put_server (st_process s) sv0 = st_process s"
  shows "site_steps env store s (s\<lparr>st_process := put_server (st_process s) sv\<rparr>)"
  using assms(1)
proof induction
  case base
  then show ?case by (simp add: assms(5))
next
  case (step sv sv')
  let ?s = "s\<lparr>st_process := put_server (st_process s) sv\<rparr>"
  have "call_step env (server_of (st_process ?s)) (with_answer [] False sv')"
    using call_step_with_answer [OF step.hyps(2)] by (simp add: server_of_put [OF assms(4)])
  moreover have "alive ?s" "st_requests ?s i = Handling" using assms(2,3) by (simp_all add: alive_def)
  ultimately have "site_step env store ?s (?s\<lparr>st_process := put_server (st_process ?s) (with_answer [] False sv')\<rparr>)"
    by (intro site_step.call)
  then have "site_step env store ?s (s\<lparr>st_process := put_server (st_process s) sv'\<rparr>)"
    by (simp add: put_put) (simp add: put_server_def)
  with step.IH show ?case by simp
qed


section \<open>From the start to the end of the process\<close>

lemma started_ok:
  assumes "main h cl p = (Inr (Serving env address), p0)" and "bcrypt_ok (host_bcrypt h)"
    and "file_ok (es_files (pr_event p) DbFilename)" and "slice_sort (host_sort_Slice h)" and "empty_batch_ok (host_empty_NamedExec h)"
  shows "site_ok p0 (started p0)" and "env_ok env"
proof -
  note m = main_Serving [OF assms(1-3)]
  have "file_version (event_on_file p0) \<noteq> 0" using m(7) by (simp add: event_on_file_def codeSchemaVersion_def)
  with m(6-8) show "site_ok p0 (started p0)"
    by (auto simp: site_ok_def started_def handled_def known_def file_ok_def event_on_file_def)
  show "env_ok env" using m(5) assms(4,5) by (auto simp: env_ok_def main_env_def)
qed

lemma handled_shrinks:
  assumes "site_step env store s s'" and "st_shutdown s \<noteq> Listening"
  shows "handled s' \<subseteq> handled s \<and> st_shutdown s' \<noteq> Listening"
  using assms by cases (auto simp: handled_def)

lemma handled_shrinks_steps:
  assumes "site_steps env store s s'" and "st_shutdown s \<noteq> Listening"
  shows "handled s' \<subseteq> handled s \<and> st_shutdown s' \<noteq> Listening"
  using assms by induction (auto dest!: handled_shrinks)

lemma requests_can_finish:
  assumes "finite I" and "I \<subseteq> handled s" and "alive s"
  shows "site_steps env store s (s\<lparr>st_requests := (\<lambda>i. if i \<in> I then Answered else st_requests s i)\<rparr>)"
  using assms
proof (induction I)
  case (insert i I)
  let ?s = "s\<lparr>st_requests := (\<lambda>j. if j \<in> I then Answered else st_requests s j)\<rparr>"
  have "(\<lambda>j. if j \<in> insert i I then Answered else st_requests s j) = (st_requests ?s)(i := Answered)" by auto
  moreover have "alive ?s" "st_requests ?s i = Handling" using insert.prems insert.hyps by (auto simp: alive_def handled_def)
  then have "site_step env store ?s (?s\<lparr>st_requests := (st_requests ?s)(i := Answered)\<rparr>)" by (rule site_step.RUnlock)
  ultimately show ?case using insert.IH insert.prems by (simp add: rtranclp.rtrancl_into_rtrancl)
qed simp

lemma shutdown_can_end:
  assumes "st_shutdown s = Locking" and "finite (handled s)"
  shows "\<exists>s'. site_steps env store s s' \<and> st_shutdown s' = Closed \<and> filed (st_process s') = filed (st_process s)
    \<and> (\<forall>i \<in> handled s. st_requests s' i = Answered)"
proof -
  let ?s1 = "s\<lparr>st_requests := (\<lambda>i. if i \<in> handled s then Answered else st_requests s i)\<rparr>"
  have "site_steps env store s ?s1" by (rule requests_can_finish [OF assms(2)]) (simp_all add: alive_def assms(1))
  also have "site_steps env store ?s1 (?s1\<lparr>st_shutdown := Locked\<rparr>)"
    by (rule r_into_rtranclp, rule site_step.Lock) (auto simp: assms(1) handled_def)
  also obtain r p where h: "handleSigs store (st_process s) = (r, p)" by fastforce
  have "site_steps env store (?s1\<lparr>st_shutdown := Locked\<rparr>) (?s1\<lparr>st_process := p, st_shutdown := Closed\<rparr>)"
    using site_step.Close [of "?s1\<lparr>st_shutdown := Locked\<rparr>" store r p env] h by (simp add: r_into_rtranclp)
  finally have "site_steps env store s (?s1\<lparr>st_process := p, st_shutdown := Closed\<rparr>)" .
  moreover have "filed p = filed (st_process s)" using h by (auto simp: handleSigs_def event_on_file_def event_Close_def)
  ultimately show ?thesis
    by (intro exI [of _ "?s1\<lparr>st_process := p, st_shutdown := Closed\<rparr>"]) simp
qed



text \<open>
  What the next process finds on the disk: the event file and the sessions as they were when the process ended.
\<close>

definition same_disk :: "process \<Rightarrow> process \<Rightarrow> bool" where
  "same_disk p q \<longleftrightarrow> file_version (event_on_file q) = file_version (event_on_file p)
     \<and> file_tables (event_on_file q) = file_tables (event_on_file p) \<and> filed q = filed p \<and> holder (pr_sessions q) = holder (pr_sessions p)"


section \<open>An instance\<close>

text \<open>The sample event is served; one request is being handled when the signal comes, a second one waits.\<close>

definition sample_kv_store :: KeyValueStore where
  "sample_kv_store = \<lparr>has_DB = True, closeFileOnClose = False\<rparr>"

definition sample_busy :: "process \<Rightarrow> site" where
  "sample_busy p0 = \<lparr>st_process = p0, st_requests = (\<lambda>_. Absent)(0 := Handling, 1 := Waiting), st_shutdown = Locking\<rparr>"

lemma sample_busy_steps: "site_steps env store (started p0) (sample_busy p0)"
proof -
  let ?s = "\<lambda>f x. \<lparr>st_process = p0, st_requests = f, st_shutdown = x\<rparr>"
  let ?f = "\<lambda>_ :: nat. Absent"
  have "site_steps env store (started p0) (?s (?f(0 := Waiting)) Listening)"
    using site_step.arrive [of "started p0" 0 env store] by (simp add: started_def alive_def r_into_rtranclp)
  also have "site_steps env store \<dots> (?s (?f(0 := Handling)) Listening)"
    using site_step.RLock [of "?s (?f(0 := Waiting)) Listening" 0 env store] by (simp add: r_into_rtranclp)
  also have "site_steps env store \<dots> (?s (?f(0 := Handling, 1 := Waiting)) Listening)"
    using site_step.arrive [of "?s (?f(0 := Handling)) Listening" 1 env store] by (simp add: alive_def r_into_rtranclp)
  also have "site_steps env store \<dots> (sample_busy p0)"
    using site_step.signal [of "?s (?f(0 := Handling, 1 := Waiting)) Listening" env store] by (simp add: sample_busy_def r_into_rtranclp)
  finally show ?thesis .
qed

lemma sample_hyps: "bcrypt_ok (host_bcrypt sample_host)" "slice_sort (host_sort_Slice sample_host)" "empty_batch_ok (host_empty_NamedExec sample_host)"
  using sample_bcrypt_ok sample_env_ok by (simp_all add: sample_host_def env_ok_def sample_env_def)

definition restart_command :: command_line where
  "restart_command = sample_command\<lparr>cl_adminPwd := ''''\<rparr>"

lemma loaded_start:
  obtains env p0 where "main sample_host restart_command loaded_process = (Inr (Serving env ''localhost:8080''), p0)"
    and "site_ok p0 (started p0)" and "same_disk p0 loaded_process"
proof -
  obtain env p0 where m: "main sample_host restart_command loaded_process = (Inr (Serving env ''localhost:8080''), p0)"
    using loaded_main by (auto simp: restart_command_def)
  note ok = started_ok(1) [OF m sample_hyps(1) loaded_process_ok sample_hyps(2,3)]
  note s = main_Serving [OF m sample_hyps(1) loaded_process_ok]
  have disk: "file_content (es_files (pr_event loaded_process) DbFilename) = sample_db" "filed loaded_process = sample_db"
    "file_version (event_on_file loaded_process) = codeSchemaVersion" "file_tables (event_on_file loaded_process) = event_tables"
    by (simp_all add: loaded_process_def sample_store_def loaded_file_def file_content_def event_on_file_def codeSchemaVersion_def)
  have "AdminUsername \<in> Username ` set (event_users sample_db)" by (simp add: sample_db_def sample_admin_def AdminUsername_def)
  with disk(1) have "sv_db (server_of p0) = sample_db"
    using s(2) by (auto simp: admin_set_def restart_command_def split: option.splits)
  then have "same_disk p0 loaded_process"
    using ok s(3,6) disk
    by (auto simp: same_disk_def site_ok_def started_def server_of_def event_world_def event_on_file_def)
  with m ok show thesis by (rule that)
qed





end
