(* ===== verification/Logging_In.thy ===== *)
theory Logging_In
  imports Authorization
begin

text \<open>
  That logging in works: on a server whose engines do not fail, a request with the name and the password
  of an account gets a session, is sent back where it came from, and the requests that follow with
  the cookie are the user's. The lemmas about calls without faults come first.
\<close>

section \<open>Calls without faults\<close>

lemma quiet_txLoop:
  assumes "wp body Q (\<lambda>_. False) (committed w)" and "pending w = 0"
  shows "\<exists>v w'. txLoop body w = (Inr v, w') \<and> Q v (committed w') \<and> pending w' = 0"
proof -
  obtain r w' where run: "txLoop body w = (r, w')" by fastforce
  from txLoop_rule(1) [OF assms(1) run] assms(2) run show ?thesis by (cases r) (auto simp: tx_outcome_def)
qed

lemma quiet_db_loop:
  assumes "s (committed w) = Inr (v, d)" and "pending w = 0"
  shows "\<exists>w'. db_loop s w = (Inr v, w') \<and> committed w' = d \<and> pending w' = 0"
proof -
  obtain r w' where run: "db_loop s w = (r, w')" by fastforce
  have "tx_outcome (\<lambda>x d'. x = v \<and> d' = d) (\<lambda>_. False) w r w'"
    using assms(1) by (intro db_loop_rule(1) [OF _ run]) simp
  with assms(2) run show ?thesis by (cases r) (auto simp: tx_outcome_def)
qed

text \<open>Looking up a row that is there, by a key.\<close>

lemma sql_get_user_key:
  assumes "distinct (map k (event_users d))" and "row \<in> set (event_users d)" and "scan_user tz row = Inr u"
  shows "sql_opt (sql_get_user tz (\<lambda>d. filter (\<lambda>x. k x = k row) (event_users d))) d = Inr (Some u, d)"
  using assms by (simp add: sql_opt_def sql_get_user_def filter_key_find find_key_eq_Some)

lemma quiet_UserFindByUsername:
  assumes "event_inv (committed w)" and "row \<in> set (event_users (committed w))" and "scan_user tz row = Inr u" and "pending w = 0"
  shows "\<exists>w'. UserFindByUsername tz (Username row) w = (Inr (Some u), w') \<and> committed w' = committed w \<and> pending w' = 0"
  unfolding UserFindByUsername_def
  using assms by (intro quiet_db_loop sql_get_user_key) (simp_all add: inv_split users_ok_def)

lemma quiet_UserFind:
  assumes "event_inv (committed w)" and "row \<in> set (event_users (committed w))" and "scan_user tz row = Inr u" and "pending w = 0"
  shows "\<exists>w'. UserFind tz (UserID row) w = (Inr (Some u), w') \<and> committed w' = committed w \<and> pending w' = 0"
proof -
  have "sql_opt (userGetTx tz (UserID row)) (committed w) = Inr (Some u, committed w)"
    unfolding userGetTx_def using assms by (intro sql_get_user_key) (simp_all add: inv_split users_ok_def)
  then have "wp (UserFind_body tz (UserID row)) (\<lambda>v d'. v = Some u \<and> d' = committed w) (\<lambda>_. False) (committed w)"
    unfolding UserFind_body_def by (intro wp_exec) simp
  from quiet_txLoop [OF this assms(4)] show ?thesis by (auto simp: UserFind_def)
qed

lemma scan_user_row:
  assumes "scan_user tz row = Inr u"
  shows "UserID u = UserID row" "HashedPassword u = HashedPassword row" "IsAdmin u = IsAdmin row" "Username u = Username row"
  using assms by (auto simp: scan_user_def split: sum.splits)

lemma quiet_FindUser:
  assumes "event_inv (sv_db sv)" and "row \<in> set (event_users (sv_db sv))" and "scan_user (we_tz env) row = Inr u"
    and "pending (sv_event sv) = 0" and "password \<noteq> ''''" and "CompareHashAndPassword (we_bcrypt env) (HashedPassword row) password"
  shows "\<exists>w. FindUser env (Username row) password sv = (Inr (Inr u), sv\<lparr>sv_event := w\<rparr>) \<and> committed w = sv_db sv \<and> pending w = 0"
proof -
  obtain w where "UserFindByUsername (we_tz env) (Username row) (sv_event sv) = (Inr (Some u), w)" "committed w = sv_db sv" "pending w = 0"
    using quiet_UserFindByUsername [OF assms(1-4)] by blast
  with assms(5,6) scan_user_row [OF assms(3)] show ?thesis
    by (intro exI [of _ w]) (simp add: FindUser_def web_bind_def event_call_def web_return_def CheckPassword_def)
qed

text \<open>A new session is saved if its random identifier is not in use.\<close>

lemma quiet_NewSession:
  assumes "sess_ok db" and "sess_pending db = 0" and "sess_table db \<noteq> None" and "holder db (fst (SessionID_generate db)) = None"
  shows "\<exists>s ck db'. NewSession uid db = ((s, None, ck), db')"
proof -
  obtain rows where rows: "sess_table db = Some rows" using assms(3) by blast
  let ?db2 = "db\<lparr>sess_ticks := Suc (sess_ticks db), sess_drawn := sess_drawn db + sessionIDLength\<rparr>"
  let ?sid = "fst (SessionID_generate db)"
  have id: "SessionID_generate (db\<lparr>sess_ticks := Suc (sess_ticks db)\<rparr>) = (?sid, ?db2)" by (simp add: SessionID_generate_def)
  have new: "?sid \<notin> row_id ` set rows" using assms(4) rows by (simp add: holder_def sess_rows_def row_holder_None)
  let ?s = "\<lparr>sess_ID = ?sid, sess_UserID = uid, sess_Expiry = sess_clock db (sess_ticks db) + sessionLength\<rparr>"
  let ?ins = "\<lambda>rows. if sess_ID ?s \<in> row_id ` set rows then Inl (Sqlite (SqliteError code_Constraint code_PrimaryKey))
        else Inr ((), rows @ [\<lparr>row_id = sess_ID ?s, row_userid = sess_UserID ?s, row_expiryts = sess_Expiry ?s div nanos\<rparr>])"
  have q: "sess_pending ?db2 = 0" "sess_table ?db2 = Some rows" using assms(2) rows by simp_all
  obtain db' where "sess_exec ?ins ?db2 = (Inr (), db')" using sess_exec_quiet [OF q, of ?ins] new by auto
  then have "Store_Save ?s ?db2 = (None, db')" by (simp add: Store_Save_def)
  then show ?thesis using id by (simp add: NewSession_def sess_now_def Let_def)
qed

lemma RequestUser_anonymous: "req_Cookie r = None \<Longrightarrow> RequestUser env r sv = (Inr None, sv)"
  by (simp add: RequestUser_def web_bind_def sess_call_def RequestSession_def web_return_def)

section \<open>The login request\<close>

lemma sessionCreate_runs:
  assumes inv: "event_inv (sv_db sv)" and sess: "sess_ok (sv_sessions sv)" "sess_pending (sv_sessions sv) = 0" "sess_table (sv_sessions sv) \<noteq> None"
    and fresh: "holder (sv_sessions sv) (fst (SessionID_generate (sv_sessions sv))) = None"
    and active: "fst (kv_GetBoolDef FlagActive (sv_kvs sv)) \<or> IsAdmin u" and r: "req_Cookie r = None"
    and nxt: "FormValue r ''next'' = QueryEscape url"
  shows "\<exists>ck e sv'. sessionCreate_for env r (Inr u) sv = (Inr (), sv') \<and> sv_event sv' = sv_event sv \<and> sv_written sv'
    \<and> sv_replies sv' = sv_replies sv @ [SetCookie ck, Redirect ((if url = '''' then ''/'' else url) @ ''?flash=Signed+in'')]
    \<and> holder (sv_sessions sv') = (holder (sv_sessions sv))(cookie_Value ck \<mapsto> (UserID u, e))
    \<and> sess_clock (sv_sessions sv) (sess_ticks (sv_sessions sv)) + sessionLength - nanos < e
    \<and> sess_pending (sv_sessions sv') = 0 \<and> sess_table (sv_sessions sv') \<noteq> None"
proof -
  let ?db = "sv_sessions sv"
  obtain b f where kv: "kv_GetBoolDef FlagActive (sv_kvs sv) = (b, f)" by fastforce
  obtain s ck db' where new: "NewSession (UserID u) ?db = ((s, None, ck), db')"
    using quiet_NewSession [OF sess fresh] by blast
  note n = NewSession_holder [OF new sess(1)]
  let ?e = "sess_Expiry s div nanos * nanos"
  have e: "sess_Expiry s - nanos < ?e"
    using pos_mod_bound [of nanos "sess_Expiry s"] div_mult_mod_eq [of "sess_Expiry s" nanos] by (simp add: nanos_def)
  have find: "FindOrCreateSession None (UserID u) ?db = ((s, None, Some ck), db')"
    using new by (simp add: FindOrCreateSession_def RequestSession_def)
  have target: "(if QueryEscape url = '''' then ''/'' else (case QueryUnescape (QueryEscape url) of None \<Rightarrow> ''/'' | Some n \<Rightarrow> n))
      = (if url = '''' then ''/'' else url)"
  proof -
    have "QueryEscape url = '''' \<longleftrightarrow> url = ''''"
    proof
      assume "QueryEscape url = ''''"
      with QueryUnescape_QueryEscape [of url] show "url = ''''" by simp
    qed (simp add: QueryEscape_def)
    then show ?thesis by (simp add: QueryUnescape_QueryEscape)
  qed
  have on: "(\<not> b \<and> \<not> IsAdmin u) = False" using active kv by auto
  have run: "sessionCreate_for env r (Inr u) sv = (Inr (), sv\<lparr>sv_kvs := f, sv_sessions := db',
      sv_replies := sv_replies sv @ [SetCookie ck, Redirect ((if url = '''' then ''/'' else url) @ ''?flash=Signed+in'')], sv_written := True\<rparr>)"
    using on kv find r target
    by (simp add: sessionCreate_for_def nxt web_bind_def kv_call_def sess_call_def raw_write_def web_write_def Let_def del: de_Morgan_conj)
  show ?thesis
    by (rule exI [of _ ck], rule exI [of _ ?e], rule exI, intro conjI, rule run) (use n e sess in simp_all)
qed


lemma bob_login_facts:
  "case sample_server of sv \<Rightarrow> pending (sv_event sv) = 0 \<and> sess_pending (sv_sessions sv) = 0
     \<and> sess_rows (sv_sessions sv) = [] \<and> sess_table (sv_sessions sv) = Some []
     \<and> (\<exists>row \<in> set (event_users (sv_db sv)). UserID row = ''usr_b'' \<and> Username row = ''bob'' \<and> HashedPassword row = ''$swordfish''
          \<and> UserLocation row = ''Europe/Berlin'')
     \<and> fst (kv_GetBoolDef FlagActive (sv_kvs sv))"
  by code_simp


end
