(* ===== verification/Answers.thy ===== *)
theory Answers
  imports Middleware
begin

text \<open>
  What a request gets: every handler of \<open>Handlers\<close> and \<open>Admin_Handlers\<close> writes at most one answer and
  writes it last, so that the chain of routers in \<open>ServeHTTP\<close> answers every request it survives.
\<close>

section \<open>Answers\<close>

text \<open>What was written, but for cookies, which are headers of the answer that follows.\<close>

definition answers :: "server \<Rightarrow> reply list" where
  "answers sv = filter (\<lambda>x. case x of SetCookie _ \<Rightarrow> False | _ \<Rightarrow> True) (sv_replies sv)"

definition quiet_step :: "server \<Rightarrow> server \<Rightarrow> bool" where
  "quiet_step sv sv' \<longleftrightarrow> answers sv' = answers sv \<and> sv_written sv' = sv_written sv"

definition final_step :: "server \<Rightarrow> server \<Rightarrow> bool" where
  "final_step sv sv' \<longleftrightarrow> quiet_step sv sv' \<or> (\<exists>a. answers sv' = answers sv @ [a] \<and> sv_written sv')"

text \<open>A call that writes no answer; one that writes at most one; and one that writes none if its result is to go on.\<close>

definition meets :: "('a \<Rightarrow> server \<Rightarrow> server \<Rightarrow> bool) \<Rightarrow> 'a web \<Rightarrow> bool" where
  "meets P m \<longleftrightarrow> (\<forall>sv v sv'. m sv = (Inr v, sv') \<longrightarrow> P v sv sv')"

definition silent :: "'a web \<Rightarrow> bool" where
  "silent m \<longleftrightarrow> meets (\<lambda>_. quiet_step) m"

definition once :: "'a web \<Rightarrow> bool" where
  "once m \<longleftrightarrow> meets (\<lambda>_. final_step) m"

definition decides :: "'a option web \<Rightarrow> bool" where
  "decides m \<longleftrightarrow> meets (\<lambda>v. if v = None then final_step else quiet_step) m"

lemma meetsD: "meets P m \<Longrightarrow> m sv = (Inr v, sv') \<Longrightarrow> P v sv sv'"
  by (simp add: meets_def)

lemma meets_bind:
  assumes "meets P m" and "\<And>x. meets Q (f x)" and "\<And>x v a b c. P x a b \<Longrightarrow> Q v b c \<Longrightarrow> R v a c"
  shows "meets R (web_bind m f)"
proof -
  have "R v sv sv'" if run: "web_bind m f sv = (Inr v, sv')" for sv v sv'
  proof -
    obtain x sv1 where "m sv = (Inr x, sv1)" "f x sv1 = (Inr v, sv')"
      using run by (auto simp: web_bind_def split: prod.splits sum.splits)
    with assms show ?thesis by (blast dest: meetsD)
  qed
  then show ?thesis by (simp add: meets_def)
qed

lemma quiet_step_trans: "quiet_step a b \<Longrightarrow> quiet_step b c \<Longrightarrow> quiet_step a c"
  by (simp add: quiet_step_def)

lemma quiet_final_step: "quiet_step a b \<Longrightarrow> final_step b c \<Longrightarrow> final_step a c"
  by (auto simp: quiet_step_def final_step_def)

lemma final_quiet_step: "final_step a b \<Longrightarrow> quiet_step b c \<Longrightarrow> final_step a c"
  by (auto simp: quiet_step_def final_step_def)

section \<open>Rules\<close>

named_theorems answering \<open>calls that write no answer, or one\<close>

lemma silent_calls [answering]:
  "silent (web_return v)" "silent (web_panic e)" "silent (web_exit msg)" "silent (raw_write (SetCookie ck))"
  "silent (event_get g)" "silent (event_call t)" "silent (kv_call k)" "silent (sess_call s)"
  by (auto simp: silent_def meets_def quiet_step_def answers_def web_return_def web_panic_def web_exit_def raw_write_def
      event_get_def kv_call_def sess_call_def split: prod.splits elim!: event_call_run)

lemma once_write [answering]:
  "once (web_write (Redirect url))" "once (web_write (Page n d))" "once (web_write (ServeFile s))" "once (web_panic e)"
  "once (web_exit msg)" "once (web_return v)"
  by (auto simp: once_def meets_def final_step_def quiet_step_def answers_def web_write_def web_panic_def web_exit_def web_return_def)

lemma decides_return [answering]: "decides (web_return v)" "decides (web_panic e)"
  by (auto simp: decides_def meets_def web_return_def web_panic_def final_step_def quiet_step_def)

lemma silent_bind [answering]: "silent m \<Longrightarrow> (\<And>v. silent (f v)) \<Longrightarrow> silent (web_bind m f)"
  unfolding silent_def by (erule meets_bind, assumption) (auto intro: quiet_step_trans)

lemma once_bind [answering]: "silent m \<Longrightarrow> (\<And>v. once (f v)) \<Longrightarrow> once (web_bind m f)"
  unfolding silent_def once_def by (erule meets_bind, assumption) (auto intro: quiet_final_step)

lemma decides_bind [answering]: "silent m \<Longrightarrow> (\<And>v. decides (f v)) \<Longrightarrow> decides (web_bind m f)"
  unfolding silent_def decides_def by (erule meets_bind, assumption) (auto intro: quiet_final_step quiet_step_trans split: if_splits)

text \<open>An answer and the end of the request; and going on to an answer, unless there was one.\<close>

lemma decides_answer [answering]: "once m \<Longrightarrow> decides (web_bind m (\<lambda>_. web_return None))"
  unfolding once_def decides_def
  by (rule meets_bind [where Q = "\<lambda>v a b. v = None \<and> a = b"]) (auto simp: meets_def web_return_def)

lemma once_decided [answering]:
  assumes "decides m" and "\<And>v. once (f v)"
  shows "once (web_bind m (\<lambda>x. case x of None \<Rightarrow> web_return () | Some v \<Rightarrow> f v))"
proof -
  have "final_step sv sv'" if run: "web_bind m (\<lambda>x. case x of None \<Rightarrow> web_return () | Some v \<Rightarrow> f v) sv = (Inr v, sv')" for sv v sv'
  proof -
    obtain x sv1 where m: "m sv = (Inr x, sv1)" and f: "(case x of None \<Rightarrow> web_return () | Some v \<Rightarrow> f v) sv1 = (Inr v, sv')"
      using run by (auto simp: web_bind_def split: prod.splits sum.splits)
    from meetsD [OF assms(1) [unfolded decides_def] m] f show ?thesis
      using meetsD [OF assms(2) [unfolded once_def]] by (cases x) (auto simp: web_return_def intro: quiet_final_step)
  qed
  then show ?thesis by (simp add: once_def meets_def)
qed

lemma answering_cases [answering]:
  "(b \<Longrightarrow> silent m1) \<Longrightarrow> (\<not> b \<Longrightarrow> silent m2) \<Longrightarrow> silent (if b then m1 else m2)"
  "(b \<Longrightarrow> once n1) \<Longrightarrow> (\<not> b \<Longrightarrow> once n2) \<Longrightarrow> once (if b then n1 else n2)"
  "(b \<Longrightarrow> decides p1) \<Longrightarrow> (\<not> b \<Longrightarrow> decides p2) \<Longrightarrow> decides (if b then p1 else p2)"
  "silent m1 \<Longrightarrow> (\<And>v. silent (f v)) \<Longrightarrow> silent (case x of None \<Rightarrow> m1 | Some v \<Rightarrow> f v)"
  "once n1 \<Longrightarrow> (\<And>v. once (g v)) \<Longrightarrow> once (case x of None \<Rightarrow> n1 | Some v \<Rightarrow> g v)"
  "decides p1 \<Longrightarrow> (\<And>v. decides (h v)) \<Longrightarrow> decides (case x of None \<Rightarrow> p1 | Some v \<Rightarrow> h v)"
  by (cases x; simp)+

lemma answering_sums [answering]:
  "(\<And>e. silent (m e)) \<Longrightarrow> (\<And>v. silent (f v)) \<Longrightarrow> silent (case s of Inl e \<Rightarrow> m e | Inr v \<Rightarrow> f v)"
  "(\<And>e. once (n e)) \<Longrightarrow> (\<And>v. once (g v)) \<Longrightarrow> once (case s of Inl e \<Rightarrow> n e | Inr v \<Rightarrow> g v)"
  "(\<And>e. decides (p e)) \<Longrightarrow> (\<And>v. decides (h v)) \<Longrightarrow> decides (case s of Inl e \<Rightarrow> p e | Inr v \<Rightarrow> h v)"
  by (cases s; simp)+

lemma answering_pairs [answering]:
  "(\<And>a b. silent (f a b)) \<Longrightarrow> silent (case p of (a, b) \<Rightarrow> f a b)"
  "(\<And>a b. once (g a b)) \<Longrightarrow> once (case p of (a, b) \<Rightarrow> g a b)"
  by (cases p; simp)+

section \<open>The handlers\<close>

lemma silent_parts [answering]:
  "silent (RequestUser env r)" "silent (FindUser env name pw)" "silent (console_content env)"
  "silent (main_MakeSchedule env async)" "silent (flashAccumulator nv flash key ftt ttf)" "silent (set_test_mode b flash)"
  "silent (uid_user env cur uid action)"
  unfolding RequestUser_def FindUser_def console_content_def main_MakeSchedule_def getSearchDuration_def
    flashAccumulator_def set_test_mode_def uid_user_def Let_def
  by (intro answering)+

lemma once_pages [answering]:
  "once (RenderTemplate env r name data)" "once (RequireLogin r)" "once (uid_page env r itype action shown)"
  "once (userCreate_fail env r user e)"
proof -
  show page: "once (RenderTemplate env r name data)" for name data
    unfolding RenderTemplate_def by (intro answering)
  show "once (RequireLogin r)" unfolding RequireLogin_def by (intro answering)
  show "once (uid_page env r itype action shown)" "once (userCreate_fail env r user e)"
    unfolding uid_page_def userCreate_fail_def by (intro answering page)+
qed

lemma decides_parts [answering]:
  "decides (uid_discussion env r cur uid action)" "decides (uidPost_discussion env r who uid action)"
  "decides (uidPost_user env r who uid action)"
  unfolding uid_discussion_def uidPost_discussion_def uidPost_user_def post_setinterest_def post_edit_discussion_def
    post_delete_discussion_def post_setpublic_def post_edit_user_def post_setverified_def post_verify_def post_delete_user_def Let_def
  by (intro answering)+

lemma once_sessions [answering]:
  "once (HandleSessionDestroy env r)" "once (HandleSessionCreate env r)" "once (HandleUserCreate env r)"
  unfolding HandleSessionDestroy_def HandleSessionCreate_def sessionCreate_for_def HandleUserCreate_def userCreate_register_def Let_def
  by (intro answering)+

lemma once_views [answering]:
  "once (HandleScheduleView env r)" "once (HandleList env r ps)" "once (HandleUid env r ps)" "once (HandleUidPost env r ps)"
  "once (HandleDiscussionNew env r)" "once (HandleDiscussionCreate env r)"
  unfolding HandleScheduleView_def HandleList_def HandleUid_def HandleUidPost_def HandleDiscussionNew_def
    HandleDiscussionCreate_def Let_def
  by (intro answering)+

lemma once_admin [answering]:
  "once (HandleAdminConsole env r ps)" "once (HandleAdminAction env r ps)" "once (HandleTestAction env r ps)"
  unfolding HandleAdminConsole_def HandleAdminAction_def HandleTestAction_def admin_runschedule_def admin_setvcode_def
    admin_setstatus_def admin_setLocked_def admin_location_def Let_def
  by (intro answering)+

lemma once_dispatch [answering]: "once (dispatch env r ps h)"
  unfolding dispatch_def
  by (cases h) (simp_all add: HandleHome_def HandleSessionNew_def HandleUserNew_def HandleDiscussionNotFound_def answering)

section \<open>The routers\<close>

text \<open>How far the answer to a request is: nothing yet, the redirect of the inactive site, or answered.\<close>

definition open_request :: "reply list \<Rightarrow> server \<Rightarrow> bool" where
  "open_request before sv \<longleftrightarrow> \<not> sv_written sv \<and> answers sv = before"

definition answered :: "reply list \<Rightarrow> server \<Rightarrow> bool" where
  "answered before sv \<longleftrightarrow> (\<exists>a. answers sv = before @ [a])"

text \<open>One router after the other: what follows runs only on a request that is open.\<close>

lemma web_bind_unit:
  assumes "web_bind m f sv = (Inr v, sv')"
  obtains x sv1 where "m sv = (Inr x, sv1)" and "f x sv1 = (Inr v, sv')"
  using assms by (auto simp: web_bind_def split: prod.splits sum.splits)

lemma router_step:
  assumes "web_bind m (\<lambda>_::unit. unless_written k) sv = (Inr (), sv')" and "once m" and "open_request before sv"
    and "\<And>sv1. open_request before sv1 \<Longrightarrow> k sv1 = (Inr (), sv') \<Longrightarrow> answered before sv'"
  shows "answered before sv'"
proof -
  obtain x sv1 where m: "m sv = (Inr x, sv1)" and k: "unless_written k sv1 = (Inr (), sv')"
    by (rule web_bind_unit [OF assms(1)])
  show ?thesis
    using meetsD [OF assms(2) [unfolded once_def] m] assms(3) k assms(4) [of sv1]
    by (auto simp: final_step_def quiet_step_def unless_written_def open_request_def answered_def)
qed

lemma once_route: "(\<And>h ps. once (guard (dispatch env r ps h))) \<Longrightarrow> once (route_via env Lookup r router guard)"
  unfolding route_via_def by (intro answering)

lemma once_guarded [answering]:
  "once (route_via env Lookup r router (\<lambda>h. h))" "once (route_via env Lookup r router (\<lambda>h. if b then RequireLogin r else h))"
  "once (route_via env Lookup r router (\<lambda>h. if b then h else web_return ()))"
  by (intro once_route answering)+

text \<open>The public router, which on an inactive site redirects past the writer.\<close>

lemma public_route:
  assumes "route_via env Lookup r public_router (active_guard u) sv = (Inr (), sv')" and "open_request [] sv"
  shows "open_request [] sv' \<or> answered [] sv' \<and> sv_written sv'
    \<or> open_request [Redirect ''/''] sv' \<and> Lookup public_router (req_Method r) (req_Path r) \<noteq> None"
proof (cases "Lookup public_router (req_Method r) (req_Path r)")
  case None
  with assms show ?thesis by (simp add: route_via_def web_return_def)
next
  case (Some found)
  obtain h ps where found: "found = (h, ps)" by fastforce
  obtain active sv1 where a: "kv_call (kv_GetBoolDef FlagActive) sv = (Inr active, sv1)"
    and go: "(if active \<or> u \<noteq> None then dispatch env r ps h else raw_write (Redirect ''/'')) sv1 = (Inr (), sv')"
    using assms(1) Some found by (auto simp: route_via_def active_guard_def elim: web_bind_unit)
  have "quiet_step sv sv1"
    using meetsD [OF silent_calls(7) [unfolded silent_def] a] .
  with assms(2) have open1: "open_request [] sv1" by (simp add: quiet_step_def open_request_def)
  show ?thesis
  proof (cases "active \<or> u \<noteq> None")
    case True
    with go have "dispatch env r ps h sv1 = (Inr (), sv')" by simp
    from meetsD [OF once_dispatch [unfolded once_def] this] open1 show ?thesis
      by (auto simp: open_request_def answered_def final_step_def quiet_step_def)
  next
    case False
    with go open1 Some show ?thesis by (auto simp: raw_write_def open_request_def answers_def)
  qed
qed

text \<open>\<open>ServeHTTP\<close> from the logged-in users' router on, and from the user on.\<close>

definition after_public :: "web_env \<Rightarrow> lookup \<Rightarrow> request \<Rightarrow> User option \<Rightarrow> unit web" where
  "after_public env Lookup r u =
    web_bind (route_via env Lookup r userAuth_router (\<lambda>h. if u = None then RequireLogin r else h)) (\<lambda>_. unless_written (
    web_bind (route_via env Lookup r admin_router (\<lambda>h. if web_IsAdmin u then h else web_return ())) (\<lambda>_. unless_written (
    raw_write NotFoundPage))))"

definition after_always :: "web_env \<Rightarrow> lookup \<Rightarrow> request \<Rightarrow> unit web" where
  "after_always env Lookup r =
    web_bind (RequestUser env r) (\<lambda>u.
    web_bind (route_via env Lookup r public_router (active_guard u)) (\<lambda>_. unless_written (after_public env Lookup r u)))"

lemma after_public_answers:
  assumes "after_public env Lookup r u sv = (Inr (), sv')" and "open_request before sv"
  shows "answered before sv'"
proof (rule router_step [OF assms(1) [unfolded after_public_def] _ assms(2)])
  fix sv1 assume before: "open_request before sv1"
    and run: "web_bind (route_via env Lookup r admin_router (\<lambda>h. if web_IsAdmin u then h else web_return ()))
      (\<lambda>_. unless_written (raw_write NotFoundPage)) sv1 = (Inr (), sv')"
  show "answered before sv'"
    by (rule router_step [OF run once_guarded(3) before]) (auto simp: raw_write_def answered_def open_request_def answers_def)
qed (rule once_guarded)

lemma after_always_answers:
  assumes "after_always env Lookup r sv = (Inr (), sv')" and "open_request [] sv"
  shows "answered [] sv' \<or> answered [Redirect ''/''] sv' \<and> Lookup public_router (req_Method r) (req_Path r) \<noteq> None"
proof -
  obtain u sv1 where u: "RequestUser env r sv = (Inr u, sv1)"
    and a: "web_bind (route_via env Lookup r public_router (active_guard u)) (\<lambda>_. unless_written (after_public env Lookup r u)) sv1 = (Inr (), sv')"
    by (rule web_bind_unit [OF assms(1) [unfolded after_always_def]])
  from meetsD [OF silent_parts(1) [unfolded silent_def] u] assms(2) have open1: "open_request [] sv1"
    by (simp add: quiet_step_def open_request_def)
  obtain v sv2 where p: "route_via env Lookup r public_router (active_guard u) sv1 = (Inr v, sv2)"
    and n: "unless_written (after_public env Lookup r u) sv2 = (Inr (), sv')"
    by (rule web_bind_unit [OF a])
  from public_route [of env Lookup r u sv1 sv2] p open1
  consider (untouched) "open_request [] sv2" | (answered) "answered [] sv2" "sv_written sv2"
    | (inactive) "open_request [Redirect ''/''] sv2" "Lookup public_router (req_Method r) (req_Path r) \<noteq> None"
    by auto
  then show ?thesis
  proof cases
    case untouched
    with n have "after_public env Lookup r u sv2 = (Inr (), sv')" by (simp add: unless_written_def open_request_def)
    then show ?thesis using after_public_answers untouched by blast
  next
    case answered
    with n show ?thesis by (simp add: unless_written_def)
  next
    case inactive
    with n have "after_public env Lookup r u sv2 = (Inr (), sv')" by (simp add: unless_written_def open_request_def)
    then show ?thesis using after_public_answers inactive by blast
  qed
qed

lemma ServeHTTP_answers:
  assumes "ServeHTTP env Lookup r sv = (Inr (), sv')"
  shows "answered [] sv' \<or> answered [Redirect ''/''] sv' \<and> Lookup public_router (req_Method r) (req_Path r) \<noteq> None"
proof -
  let ?sv0 = "sv\<lparr>sv_replies := [], sv_written := False\<rparr>"
  have start: "open_request [] ?sv0" by (simp add: open_request_def answers_def)
  have serve: "web_bind (LogRequest env r) (\<lambda>_. web_bind (route_via env Lookup r always_router (\<lambda>h. h))
      (\<lambda>_. unless_written (after_always env Lookup r))) ?sv0 = (Inr (), sv')"
    using assms by (simp add: ServeHTTP_def after_always_def after_public_def NewMiddlewareResponseWriter_def web_bind_def [of NewMiddlewareResponseWriter])
  obtain x sv1 where l: "LogRequest env r ?sv0 = (Inr x, sv1)"
    and a: "web_bind (route_via env Lookup r always_router (\<lambda>h. h)) (\<lambda>_. unless_written (after_always env Lookup r)) sv1 = (Inr (), sv')"
    by (rule web_bind_unit [OF serve])
  have "silent (LogRequest env r)" unfolding LogRequest_def by (intro answering)
  from meetsD [OF this [unfolded silent_def] l] start have open1: "open_request [] sv1"
    by (simp add: quiet_step_def open_request_def)
  obtain y sv2 where m: "route_via env Lookup r always_router (\<lambda>h. h) sv1 = (Inr y, sv2)"
    and k: "unless_written (after_always env Lookup r) sv2 = (Inr (), sv')"
    by (rule web_bind_unit [OF a])
  show ?thesis
    using meetsD [OF once_guarded(1) [unfolded once_def] m] open1 k after_always_answers [of env Lookup r sv2 sv']
    by (auto simp: final_step_def quiet_step_def unless_written_def open_request_def answered_def split: if_splits)
qed



text \<open>The exception: an inactive site, and the page of the schedule.\<close>

lemma inactive_answers_twice:
  "answers (snd (ServeHTTP sample_env sample_lookup (sample_request ''GET'' ''/schedule'' [] None)
     (sample_server\<lparr>sv_kvs := (sv_kvs sample_server)\<lparr>kv_table := Some []\<rparr>\<rparr>))) = [Redirect ''/'', NotFoundPage]"
  by code_simp

end
