(* ===== verification/Pages.thy ===== *)
theory Pages
  imports Middleware
begin

text \<open>
  Templates and their data, \<^verbatim>\<open>template.go\<close> with the files under \<^verbatim>\<open>templates/\<close>: which templates there are, which keys of
  the data each of them reads and what it takes them for, and the function \<open>dict\<close> that hands data on from one template to
  another. A template that reads a key of another type, or a nil pointer, stops in the middle of the page;
  a key that is not there reads as nothing. That the pages of all handlers have the right
  types is the theorem at the end.
\<close>

section \<open>Templates\<close>

text \<open>What a template can take a value for. What is only printed may be a string or an error.\<close>

datatype field_type =
    Ty_String | Ty_Printed | Ty_Bool | Ty_Strings | Ty_CurrentUser | Ty_User | Ty_Profile | Ty_Discussion | Ty_Discussions
  | Ty_UserDisplay | Ty_Users | Ty_Timetable | Ty_Locations | Ty_Slots

fun has_type :: "tvalue \<Rightarrow> field_type \<Rightarrow> bool" where
  "has_type (TString s) t \<longleftrightarrow> t = Ty_String \<or> t = Ty_Printed"
| "has_type (TBool b) t \<longleftrightarrow> t = Ty_Bool"
| "has_type (TStrings ss) t \<longleftrightarrow> t = Ty_Strings"
| "has_type (TError e) t \<longleftrightarrow> t = Ty_Printed"
| "has_type (TUser u) t \<longleftrightarrow> t = Ty_CurrentUser \<or> t = Ty_User \<and> u \<noteq> None"
| "has_type (TProfile p) t \<longleftrightarrow> t = Ty_Profile"
| "has_type (TDiscussion d) t \<longleftrightarrow> t = Ty_Discussion \<and> d \<noteq> None"
| "has_type (TDiscussions ds) t \<longleftrightarrow> t = Ty_Discussions"
| "has_type (TUserDisplay ud) t \<longleftrightarrow> t = Ty_UserDisplay"
| "has_type (TUsers us) t \<longleftrightarrow> t = Ty_Users"
| "has_type (TTimetable tt) t \<longleftrightarrow> t = Ty_Timetable"
| "has_type (TLocations ls) t \<longleftrightarrow> t = Ty_Locations"
| "has_type (TSlots ss) t \<longleftrightarrow> t = Ty_Slots"

type_synonym signature = "(string \<times> field_type) list"

text \<open>What \<^verbatim>\<open>layout.html\<close> reads, around every page.\<close>

definition layout_fields :: signature where
  "layout_fields = [(''ShowToolbar'', Ty_Bool), (''IsScheduleActive'', Ty_Bool), (''IsTestMode'', Ty_Bool),
     (''CurrentUser'', Ty_CurrentUser), (''IsWebsiteActive'', Ty_Bool), (''Flash'', Ty_String)]"

text \<open>The templates that are pages, each with what it and the templates it hands its data to read.\<close>

definition index_pages :: "(string \<times> signature) list" where
  "index_pages =
    [(''index/home'', [(''IsWebsiteActive'', Ty_Bool), (''CurrentUser'', Ty_CurrentUser), (''RequireVerification'', Ty_Bool),
       (''IsScheduleActive'', Ty_Bool)])]"

definition session_pages :: "(string \<times> signature) list" where
  "session_pages =
    [(''sessions/new'', [(''Error'', Ty_Printed), (''User'', Ty_User), (''Next'', Ty_String)]),
     (''sessions/destroy'', [])]"

definition schedule_pages :: "(string \<times> signature) list" where
  "schedule_pages =
    [(''schedule/view'', [(''CurrentLocation'', Ty_String), (''Locations'', Ty_Strings), (''Timetable'', Ty_Timetable)])]"

definition user_pages :: "(string \<times> signature) list" where
  "user_pages =
    [(''user/view'', [(''Display'', Ty_UserDisplay), (''RequireVerification'', Ty_Bool), (''IsVcodeSent'', Ty_Bool),
       (''CurrentUser'', Ty_CurrentUser)]),
     (''user/list'', [(''CurrentUser'', Ty_CurrentUser), (''List'', Ty_Users)]),
     (''user/edit'', [(''Display'', Ty_UserDisplay), (''Error'', Ty_Printed), (''Locations'', Ty_Strings)]),
     (''user/delete'', [(''Display'', Ty_UserDisplay)]),
     (''user/new'', [(''Error'', Ty_Printed), (''Username'', Ty_String), (''Profile'', Ty_Profile), (''RequireVerification'', Ty_Bool),
       (''DefaultLocation'', Ty_String), (''Locations'', Ty_Strings)])]"

definition discussion_pages :: "(string \<times> signature) list" where
  "discussion_pages =
    [(''discussion/view'', [(''Display'', Ty_Discussion)]),
     (''discussion/list'', [(''redirectURL'', Ty_String), (''CurrentUser'', Ty_CurrentUser), (''List'', Ty_Discussions)]),
     (''discussion/new'', [(''Error'', Ty_Printed), (''Discussion'', Ty_Discussion)]),
     (''discussion/edit'', [(''Error'', Ty_Printed), (''Display'', Ty_Discussion)]),
     (''discussion/delete'', [(''Display'', Ty_Discussion)]),
     (''uid/notfound'', [(''Utype'', Ty_String)])]"

definition admin_pages :: "(string \<times> signature) list" where
  "admin_pages =
    [(''admin/console'', [(''console'', Ty_Bool), (''locations'', Ty_Bool), (''Vcode'', Ty_String), (''SinceLastSchedule'', Ty_String),
       (''IsStale'', Ty_Bool), (''IsCurrent'', Ty_Bool), (''IsInProgress'', Ty_Bool), (''IsWebsiteActive'', Ty_Bool),
       (''IsScheduleActive'', Ty_Bool), (''IsVcodeSent'', Ty_Bool), (''RequireVerification'', Ty_Bool), (''LockedSlots'', Ty_Slots)]),
     (''admin/locations'', [(''console'', Ty_Bool), (''locations'', Ty_Bool), (''Locations'', Ty_Locations)])]"

definition page_fields :: "string \<Rightarrow> signature option" where
  "page_fields = map_of (index_pages @ session_pages @ schedule_pages @ user_pages @ discussion_pages @ admin_pages)"

text \<open>The names handlers render that no file defines.\<close>

definition undefined_pages :: "string list" where
  "undefined_pages = [''discussion/notfound'', ''admin/test'', ''console?flash=Invalid+Vcode'']"

definition fields_typed :: "signature \<Rightarrow> (string \<times> tvalue) list \<Rightarrow> bool" where
  "fields_typed sig shown \<longleftrightarrow> list_all (\<lambda>(k, t). case map_of shown k of None \<Rightarrow> True | Some v \<Rightarrow> has_type v t) sig"

definition page_typed :: "string \<Rightarrow> (string \<times> tvalue) list \<Rightarrow> bool" where
  "page_typed name shown \<longleftrightarrow>
    (case page_fields name of None \<Rightarrow> name \<in> set undefined_pages | Some sig \<Rightarrow> fields_typed sig shown)"

text \<open>The function \<open>dict\<close> of the templates. A later value for a key replaces an earlier one.\<close>

fun dict_pairs :: "tvalue list \<Rightarrow> (string \<times> tvalue) list \<Rightarrow> error + (string \<times> tvalue) list" where
  "dict_pairs (TString k # v # rest) acc = dict_pairs rest (AList.update k v acc)"
| "dict_pairs (_ # _ # rest) acc = Inl (Errorf ''dict keys must be strings'')"
| "dict_pairs _ acc = Inr acc"

definition dict :: "tvalue list \<Rightarrow> error + (string \<times> tvalue) list" where
  "dict vals = (if length vals mod 2 \<noteq> 0 then Inl (Errorf ''invalid dict call'') else dict_pairs vals [])"

text \<open>The calls in the files make what the templates they are handed to read.\<close>

lemma dict_user_view:
  "dict [TString ''Display'', d, TString ''RequireVerification'', n, TString ''VcodeSent'', v]
    = Inr [(''Display'', d), (''RequireVerification'', n), (''VcodeSent'', v)]"
  by (simp add: dict_def)

lemma dict_pairs_odd: "length vals mod 2 \<noteq> 0 \<Longrightarrow> dict vals = Inl (Errorf ''invalid dict call'')"
  by (simp add: dict_def)

section \<open>The pages handlers write\<close>

definition pages_of :: "server \<Rightarrow> (string \<times> (string \<times> tvalue) list) list" where
  "pages_of sv = concat (map (\<lambda>x. case x of Page name shown \<Rightarrow> [(name, shown)] | _ \<Rightarrow> []) (sv_replies sv))"

definition good_pages :: "server \<Rightarrow> bool" where
  "good_pages sv \<longleftrightarrow> (\<forall>(name, shown) \<in> set (pages_of sv). page_typed name shown \<and> fields_typed layout_fields shown
     \<and> fst ` set layout_fields \<subseteq> fst ` set shown)"

lemma good_pages_frame [simp]:
  "good_pages (sv\<lparr>sv_event := w\<rparr>) = good_pages sv" "good_pages (sv\<lparr>sv_kvs := f\<rparr>) = good_pages sv"
  "good_pages (sv\<lparr>sv_sessions := db\<rparr>) = good_pages sv" "good_pages (sv\<lparr>sv_written := b\<rparr>) = good_pages sv"
  by (simp_all add: good_pages_def pages_of_def)

lemma good_pages_write [simp]:
  "good_pages (sv\<lparr>sv_replies := sv_replies sv @ [x]\<rparr>) \<longleftrightarrow> good_pages sv \<and>
    (case x of Page name shown \<Rightarrow> page_typed name shown \<and> fields_typed layout_fields shown
       \<and> fst ` set layout_fields \<subseteq> fst ` set shown | _ \<Rightarrow> True)"
  unfolding good_pages_def pages_of_def by (cases x) (simp_all add: ball_Un conj_comms)

text \<open>A call keeps the pages good and returns what it should.\<close>

definition typed :: "('a \<Rightarrow> bool) \<Rightarrow> 'a web \<Rightarrow> bool" where
  "typed Q m \<longleftrightarrow> (\<forall>sv r sv'. m sv = (r, sv') \<longrightarrow> (good_pages sv \<longrightarrow> good_pages sv') \<and> (\<forall>v. r = Inr v \<longrightarrow> Q v))"

abbreviation types :: "'a web \<Rightarrow> bool" where
  "types m \<equiv> typed (\<lambda>_. True) m"

named_theorems typing \<open>calls whose pages have the right types\<close>

lemma typedI:
  assumes "\<And>sv r sv'. m sv = (r, sv') \<Longrightarrow> (good_pages sv \<longrightarrow> good_pages sv') \<and> (\<forall>v. r = Inr v \<longrightarrow> Q v)"
  shows "typed Q m"
  using assms by (simp add: typed_def)

lemma typedD: "typed Q m \<Longrightarrow> m sv = (r, sv') \<Longrightarrow> (good_pages sv \<longrightarrow> good_pages sv') \<and> (\<forall>v. r = Inr v \<longrightarrow> Q v)"
  by (simp add: typed_def)

lemma typed_bind_value:
  assumes "typed P m" and "\<And>v. P v \<Longrightarrow> typed Q (f v)"
  shows "typed Q (web_bind m f)"
proof (rule typedI)
  fix sv r sv' assume run: "web_bind m f sv = (r, sv')"
  obtain x sv1 where m: "m sv = (x, sv1)" by fastforce
  note one = typedD [OF assms(1) m]
  show "(good_pages sv \<longrightarrow> good_pages sv') \<and> (\<forall>v. r = Inr v \<longrightarrow> Q v)"
  proof (cases x)
    case (Inl a)
    with run m one show ?thesis by (auto simp: web_bind_def)
  next
    case (Inr v)
    with run m have "f v sv1 = (r, sv')" by (simp add: web_bind_def)
    with typedD [OF assms(2)] one Inr show ?thesis by blast
  qed
qed

lemma typed_bind [typing]: "types m \<Longrightarrow> (\<And>v. typed Q (f v)) \<Longrightarrow> typed Q (web_bind m f)"
  by (rule typed_bind_value)

lemma typed_return [typing]: "Q v \<Longrightarrow> typed Q (web_return v)"
  by (simp add: typed_def web_return_def)

lemma typed_stop [typing]: "typed Q (web_panic e)" "typed Q (web_exit msg)"
  by (simp_all add: typed_def web_panic_def web_exit_def)

lemma typed_calls [typing]: "types (event_get g)" "types (event_call t)" "types (kv_call k)" "types (sess_call s)"
  by (auto simp: typed_def event_get_def kv_call_def sess_call_def split: prod.splits elim!: event_call_run)

lemma typed_writes [typing]:
  "types (web_write (Redirect url))" "types (web_write (ServeFile s))" "types (raw_write (Redirect url))"
  "types (raw_write (SetCookie ck))" "types (raw_write NotFoundPage)"
  by (simp_all add: typed_def web_write_def raw_write_def)

lemma typed_cases [typing]:
  "(b \<Longrightarrow> typed Q m1) \<Longrightarrow> (\<not> b \<Longrightarrow> typed Q m2) \<Longrightarrow> typed Q (if b then m1 else m2)"
  "typed Q m1 \<Longrightarrow> (\<And>v. x = Some v \<Longrightarrow> typed Q (f v)) \<Longrightarrow> typed Q (case x of None \<Rightarrow> m1 | Some v \<Rightarrow> f v)"
  "(\<And>e. s = Inl e \<Longrightarrow> typed Q (g e)) \<Longrightarrow> (\<And>v. s = Inr v \<Longrightarrow> typed Q (h v)) \<Longrightarrow> typed Q (case s of Inl e \<Rightarrow> g e | Inr v \<Rightarrow> h v)"
  "(\<And>a c. typed Q (k a c)) \<Longrightarrow> typed Q (case p of (a, c) \<Rightarrow> k a c)"
proof -
  show "typed Q (if b then m1 else m2)" if "b \<Longrightarrow> typed Q m1" "\<not> b \<Longrightarrow> typed Q m2" using that by simp
  show "typed Q (case x of None \<Rightarrow> m1 | Some v \<Rightarrow> f v)" if "typed Q m1" "\<And>v. x = Some v \<Longrightarrow> typed Q (f v)"
    using that by (cases x) simp_all
  show "typed Q (case s of Inl e \<Rightarrow> g e | Inr v \<Rightarrow> h v)" if "\<And>e. s = Inl e \<Longrightarrow> typed Q (g e)" "\<And>v. s = Inr v \<Longrightarrow> typed Q (h v)"
    using that by (cases s) simp_all
  show "typed Q (case p of (a, c) \<Rightarrow> k a c)" if "\<And>a c. typed Q (k a c)" using that by (cases p) simp
qed

section \<open>Rendering\<close>

text \<open>The keys \<open>RenderTemplate\<close> sets itself.\<close>

definition common_fields :: signature where
  "common_fields = [(''CurrentUser'', Ty_CurrentUser), (''Flash'', Ty_String), (''IsTestMode'', Ty_Bool), (''IsWebsiteActive'', Ty_Bool),
     (''IsScheduleActive'', Ty_Bool), (''IsVcodeSent'', Ty_Bool), (''RequireVerification'', Ty_Bool), (''ShowToolbar'', Ty_Bool)]"

text \<open>Data a handler may give to a template: what it reads and is not set by \<open>RenderTemplate\<close> has its type.\<close>

definition key_typed :: "(string \<times> tvalue) list \<Rightarrow> string \<times> field_type \<Rightarrow> bool" where
  "key_typed given kt \<longleftrightarrow> (case map_of common_fields (fst kt) of
     Some t' \<Rightarrow> t' = snd kt
   | None \<Rightarrow> (case map_of given (fst kt) of None \<Rightarrow> True | Some v \<Rightarrow> has_type v (snd kt)))"

definition given_typed :: "signature \<Rightarrow> (string \<times> tvalue) list \<Rightarrow> bool" where
  "given_typed sig given \<longleftrightarrow> list_all (key_typed given) sig"

definition page_ok :: "string \<Rightarrow> (string \<times> tvalue) list \<Rightarrow> bool" where
  "page_ok name given \<longleftrightarrow>
    (case page_fields name of None \<Rightarrow> name \<in> set undefined_pages | Some sig \<Rightarrow> given_typed sig given)"

definition with_common :: "User option \<Rightarrow> string \<Rightarrow> bool \<Rightarrow> bool \<Rightarrow> bool \<Rightarrow> bool \<Rightarrow> bool \<Rightarrow> bool \<Rightarrow>
    (string \<times> tvalue) list \<Rightarrow> (string \<times> tvalue) list" where
  "with_common cur flash test active sched sent need bar given =
     AList.update ''CurrentUser'' (TUser cur) (AList.update ''Flash'' (TString flash) (AList.update ''IsTestMode'' (TBool test)
     (AList.update ''IsWebsiteActive'' (TBool active) (AList.update ''IsScheduleActive'' (TBool sched)
     (AList.update ''IsVcodeSent'' (TBool sent) (AList.update ''RequireVerification'' (TBool need)
     (AList.update ''ShowToolbar'' (TBool bar) given)))))))"

lemma with_common_typed:
  "map_of common_fields k = Some t \<Longrightarrow> \<exists>v. map_of (with_common cur flash test active sched sent need bar given) k = Some v \<and> has_type v t"
  "map_of common_fields k = None \<Longrightarrow> map_of (with_common cur flash test active sched sent need bar given) k = map_of given k"
  by (auto simp: common_fields_def with_common_def update_conv' split: if_splits)

lemma fields_typed_common:
  assumes "given_typed sig given"
  shows "fields_typed sig (with_common cur flash test active sched sent need bar given)"
proof -
  have "case map_of (with_common cur flash test active sched sent need bar given) k of None \<Rightarrow> True | Some v \<Rightarrow> has_type v t"
    if "(k, t) \<in> set sig" for k t
  proof (cases "map_of common_fields k")
    case None
    with assms that show ?thesis by (auto simp: with_common_typed(2) given_typed_def key_typed_def list_all_iff split: option.splits)
  next
    case (Some t')
    with assms that have "t' = t" by (auto simp: given_typed_def key_typed_def list_all_iff)
    with with_common_typed(1) [OF Some, of cur flash test active sched sent need bar given] show ?thesis by auto
  qed
  then show ?thesis by (auto simp: fields_typed_def list_all_iff)
qed

lemma layout_typed:
  "fields_typed layout_fields (with_common cur flash test active sched sent need bar given)"
  "fst ` set layout_fields \<subseteq> fst ` set (with_common cur flash test active sched sent need bar given)"
  by (rule fields_typed_common) (simp_all add: given_typed_def key_typed_def layout_fields_def common_fields_def with_common_def dom_update)

lemma page_typed_common: "page_ok name given \<Longrightarrow> page_typed name (with_common cur flash test active sched sent need bar given)"
  by (auto simp: page_ok_def page_typed_def fields_typed_common split: option.splits)

lemma typed_RequestUser [typing]: "types (RequestUser env r)"
  unfolding RequestUser_def by (intro typing) simp_all

lemma typed_RenderTemplate [typing]:
  assumes "page_ok name given"
  shows "types (RenderTemplate env r name given)"
proof -
  have page: "types (web_write (Page name (with_common cur flash test active sched sent need bar given)))"
    for cur flash test active sched sent need bar
    using page_typed_common [OF assms] layout_typed
    by (simp add: typed_def web_write_def)
  show ?thesis unfolding RenderTemplate_def with_common_def [symmetric] by (intro typing page)
qed

section \<open>The handlers\<close>

lemmas page_defs = page_ok_def page_fields_def index_pages_def session_pages_def schedule_pages_def user_pages_def discussion_pages_def admin_pages_def
  undefined_pages_def given_typed_def key_typed_def common_fields_def

lemma typed_parts [typing]:
  "types (FindUser env name pw)" "types (console_content env)" "types (main_MakeSchedule env async)"
  "types (flashAccumulator nv flash key ftt ttf)" "types (set_test_mode b flash)" "types (RequireLogin r)"
  unfolding FindUser_def console_content_def main_MakeSchedule_def getSearchDuration_def flashAccumulator_def set_test_mode_def
    RequireLogin_def Let_def
  by (intro typing TrueI)+

lemma typed_session_handlers [typing]:
  "types (HandleHome env r)" "types (HandleSessionNew env r)" "types (HandleSessionDestroy env r)" "types (HandleSessionCreate env r)"
  unfolding HandleHome_def HandleSessionNew_def HandleSessionDestroy_def HandleSessionCreate_def sessionCreate_for_def Let_def
  by (intro typing TrueI; simp add: page_defs)+

lemma typed_user_handlers [typing]: "types (HandleUserNew env r)" "types (HandleUserCreate env r)"
  unfolding HandleUserNew_def HandleUserCreate_def userCreate_register_def userCreate_fail_def Let_def
  by (intro typing TrueI; simp add: page_defs)+

lemma typed_views [typing]:
  "types (HandleScheduleView env r)" "types (HandleDiscussionNew env r)" "types (HandleDiscussionNotFound env r)"
  "types (HandleDiscussionCreate env r)"
  unfolding HandleScheduleView_def HandleDiscussionNew_def HandleDiscussionNotFound_def HandleDiscussionCreate_def Let_def
  by (intro typing TrueI; simp add: page_defs)+

lemma typed_HandleList [typing]: "types (HandleList env r ps)"
  unfolding HandleList_def Let_def by (intro typing TrueI) (simp_all add: page_defs)

text \<open>One user or discussion: what the page is given depends on which it is.\<close>

definition display_of :: "string \<Rightarrow> (string \<times> tvalue) list \<Rightarrow> bool" where
  "display_of itype given \<longleftrightarrow> given_typed
    [(''Display'', if itype = ''user'' then Ty_UserDisplay else Ty_Discussion), (''Locations'', Ty_Strings), (''Error'', Ty_Printed)] given"

lemma typed_uid_discussion: "typed (\<lambda>x. \<forall>given. x = Some given \<longrightarrow> display_of ''discussion'' given) (uid_discussion env r cur uid action)"
  unfolding uid_discussion_def
  by (intro typing TrueI) (simp_all add: display_of_def page_defs split: option.splits)

lemma typed_uid_user: "typed (display_of ''user'') (uid_user env cur uid action)"
  unfolding uid_user_def Let_def
  by (intro typing TrueI) (simp_all add: display_of_def page_defs)

lemma typed_uid_page:
  assumes "display_of itype given" and "itype \<in> {''user'', ''discussion''}" and "action \<in> {''view'', ''edit'', ''delete''}"
  shows "types (uid_page env r itype action given)"
proof -
  have fields: "given_typed [(''Display'', if itype = ''user'' then Ty_UserDisplay else Ty_Discussion), (''Locations'', Ty_Strings),
      (''Error'', Ty_Printed)] given" using assms(1) by (simp only: display_of_def)
  have "page_ok (itype @ ''/'' @ action) given"
    using assms(2,3) by (elim insertE emptyE; hypsubst; insert fields; simp add: page_defs)
  moreover have "page_ok ''uid/notfound'' [(''Utype'', TString itype)]" by (simp add: page_defs)
  ultimately show ?thesis unfolding uid_page_def by (intro typed_cases(1) typed_RenderTemplate)
qed

lemma typed_HandleUid [typing]: "types (HandleUid env r ps)"
proof -
  have discussion: "types (web_bind (uid_discussion env r cur uid action)
      (\<lambda>data. case data of None \<Rightarrow> web_return () | Some x \<Rightarrow> uid_page env r itype action x))"
    if "itype = ''discussion''" "action \<in> {''view'', ''edit'', ''delete''}" for cur uid action itype
    using that by (intro typed_bind_value [OF typed_uid_discussion] typed_cases(2) typed_return typed_uid_page) simp_all
  have user: "types (web_bind (uid_user env cur uid action) (\<lambda>data. uid_page env r itype action data))"
    if "itype = ''user''" "action \<in> {''view'', ''edit'', ''delete''}" for cur uid action itype
    using that by (intro typed_bind_value [OF typed_uid_user] typed_uid_page) simp_all
  show ?thesis
    unfolding HandleUid_def Let_def
    by (intro typed_bind [OF typed_RequestUser] typed_cases(1) typed_return typed_parts discussion user TrueI) auto
qed

text \<open>The actions, and the way through the routers.\<close>

lemma typed_HandleUidPost [typing]: "types (HandleUidPost env r ps)"
  unfolding HandleUidPost_def uidPost_discussion_def uidPost_user_def post_setinterest_def post_edit_discussion_def
    post_delete_discussion_def post_setpublic_def post_edit_user_def post_setverified_def post_verify_def post_delete_user_def Let_def
  by (intro typing TrueI; simp add: page_defs)

text \<open>The console and the locations.\<close>

lemma key_typed_append: "key_typed a kt \<Longrightarrow> key_typed b kt \<Longrightarrow> key_typed (a @ b) kt"
  by (cases "map_of common_fields (fst kt)"; cases "map_of a (fst kt)"; cases "map_of b (fst kt)")
    (simp_all add: key_typed_def map_add_def)

lemma given_typed_append: "given_typed sig a \<Longrightarrow> given_typed sig b \<Longrightarrow> given_typed sig (a @ b)"
  by (simp add: given_typed_def list_all_iff key_typed_append)

lemma page_ok_sig: "page_fields name = Some sig \<Longrightarrow> page_ok name given \<longleftrightarrow> given_typed sig given"
  by (simp add: page_ok_def)

lemma typed_console: "typed (given_typed (the (page_fields ''admin/console''))) (console_content env)"
  unfolding console_content_def by (intro typing TrueI) (simp add: page_defs SchedGetState_def)

lemma typed_HandleAdminConsole [typing]: "types (HandleAdminConsole env r ps)"
proof -
  let ?tmpl = "ByName ps ''template''"
  have page: "types (web_bind (if ?tmpl = ''console'' then console_content env else web_return []) (\<lambda>content.
      web_bind (event_call LocationGetAll) (\<lambda>ls. RenderTemplate env r (''admin/'' @ ?tmpl)
        ([(''User'', TUser (Some user))] @ content @
         [(''Locations'', TLocations (case ls of Inl _ \<Rightarrow> [] | Inr xs \<Rightarrow> xs)), (?tmpl, TBool True)]))))"
    if tmpl: "?tmpl = ''console'' \<or> ?tmpl = ''locations''" for user
  proof (cases "?tmpl = ''console''")
    case True
    have "page_ok ''admin/console'' ([(''User'', TUser (Some user))] @ content @
        [(''Locations'', TLocations ls), (''console'', TBool True)])"
      if "given_typed (the (page_fields ''admin/console'')) content" for content ls
    proof -
      have "given_typed (the (page_fields ''admin/console'')) [(''User'', TUser (Some user))]"
        "given_typed (the (page_fields ''admin/console'')) [(''Locations'', TLocations ls), (''console'', TBool True)]"
        by (simp_all add: page_defs)
      note parts = given_typed_append [OF this(1) given_typed_append [OF that this(2)]]
      have "page_fields ''admin/console'' = Some (the (page_fields ''admin/console''))" by (simp add: page_defs)
      from page_ok_sig [OF this] parts show ?thesis by (simp only:)
    qed
    with True show ?thesis by (auto intro!: typed_bind_value [OF typed_console] typed_bind [OF typed_calls(2)] typed_RenderTemplate)
  next
    case False
    have "page_ok ''admin/locations'' [(''User'', TUser (Some user)), (''Locations'', TLocations ls), (''locations'', TBool True)]" for ls
      by (simp add: page_defs)
    with False tmpl show ?thesis
      by (auto intro!: typed_bind_value [OF typed_return [of "\<lambda>x. x = []"]] typed_bind [OF typed_calls(2)] typed_RenderTemplate)
  qed
  show ?thesis
    unfolding HandleAdminConsole_def Let_def
    by (intro typed_bind [OF typed_RequestUser] typed_cases(1,2) typed_return page TrueI) auto
qed

lemma typed_admin [typing]: "types (HandleAdminAction env r ps)" "types (HandleTestAction env r ps)"
  unfolding HandleAdminAction_def HandleTestAction_def admin_runschedule_def admin_setvcode_def
    admin_setstatus_def admin_setLocked_def admin_location_def Let_def
  by (intro typing TrueI; simp add: page_defs)+

lemma typed_dispatch [typing]: "types (dispatch env r ps h)"
  by (cases h) (simp_all add: typing)

lemma typed_route: "(\<And>h ps. types (guard (dispatch env r ps h))) \<Longrightarrow> types (route_via env Lookup r router guard)"
  unfolding route_via_def by (intro typing TrueI)

lemma typed_unless [typing]: "types m \<Longrightarrow> types (unless_written m)"
  by (auto simp: typed_def unless_written_def)


text \<open>Bob mistypes the password: the login form comes back with the error and the name.\<close>

definition bob_mistypes :: request where
  "bob_mistypes = sample_request ''POST'' ''/login'' [(''username'', [''bob'']), (''password'', [''sword''])] None"

lemma bob_mistyped:
  "map (\<lambda>x. case x of Page name shown \<Rightarrow> (name, map_of shown ''Error'') | _ \<Rightarrow> ('''', None))
     (sv_replies (snd (ServeHTTP sample_env sample_lookup bob_mistypes sample_server)))
   = [(''sessions/new'', Some (TError ErrCredentialsIncorrect))]"
  by code_simp


end
