(* ===== verification/Retry_Bound.thy ===== *)
theory Retry_Bound
  imports Samples
begin

text \<open>
  How long \<open>txLoop\<close> of \<^verbatim>\<open>event/eventdb.go\<close> can take: its time limit, and not the patience of the engine, bounds the
  number of its rounds. The loops over single statements have no such limit.
\<close>

section \<open>More fuel\<close>

lemma txRounds_more_fuel:
  assumes "txRounds fuel start cnt f w = (r, w')" and "r \<noteq> Inl NotReturned"
  shows "txRounds (fuel + k) start cnt f w = (r, w')"
  using assms
proof (induction fuel arbitrary: cnt w)
  case (Suc fuel)
  obtain slow w1 where s: "slow_start start (cnt + 1) w = (slow, w1)" by fastforce
  obtain r2 w2 where b: "tx_Beginx w1 = (r2, w2)" by fastforce
  obtain r3 w3 where x: "f w2 = (r3, w3)" by fastforce
  obtain r4 w4 where c: "tx_Commit w3 = (r4, w4)" by fastforce
  show ?case
    using Suc s b x c by (cases slow; cases r2; cases r3; cases r4) (auto split: if_splits)
qed simp

section \<open>The bound\<close>

text \<open>
  When the clock advances by at least \<open>\<delta>\<close> from one reading to the next, the rounds after the first
  five measure a time that grows by \<open>\<delta>\<close>, and one of them exceeds the limit.
\<close>

definition max_rounds :: "int \<Rightarrow> nat" where
  "max_rounds \<delta> = minTxRetries + nat (maxTxTime div \<delta>) + 1"

lemma clock_advances:
  assumes "\<And>n. (C n :: int) + \<delta> \<le> C (Suc n)" and "0 < \<delta>" and "m + k \<le> n"
  shows "C m + int k * \<delta> \<le> C n"
proof -
  have mono: "C m + int j * \<delta> \<le> C (m + j)" for m j
  proof (induction j)
    case (Suc j)
    then show ?case using assms(1) [of "m + j"] by (simp add: algebra_simps)
  qed simp
  have "0 \<le> int (n - m - k) * \<delta>" using assms(2) by simp
  moreover have "int (n - m) = int k + int (n - m - k)" using assms(3) by linarith
  ultimately have "int k * \<delta> \<le> int (n - m) * \<delta>" by (simp add: distrib_right)
  then show ?thesis using mono [of m "n - m"] assms(3) by simp
qed

lemma tx_Beginx_ticks: "tx_Beginx w = (r, w') \<Longrightarrow> ticks w' = ticks w \<and> clock w' = clock w"
  by (auto simp: tx_Beginx_def next_fault_frame split: prod.splits option.splits)

lemma tx_Commit_ticks: "tx_Commit w = (r, w') \<Longrightarrow> ticks w' = ticks w \<and> clock w' = clock w"
  by (auto simp: tx_Commit_def next_fault_frame split: prod.splits option.splits)

lemma txRounds_returns:
  assumes body: "\<And>d. wp f (Q d) (E d) d" and ticks: "\<And>v r v'. f v = (r, v') \<Longrightarrow> ticks v \<le> ticks v'"
    and step: "\<And>n. C n + \<delta> \<le> C (Suc n)" "0 < \<delta>"
    and "clock w = C" and "t0 + 1 + (cnt - minTxRetries) \<le> ticks w" and "cnt < max_rounds \<delta>" and "max_rounds \<delta> \<le> fuel + cnt"
  shows "fst (txRounds fuel (C t0) cnt f w) \<noteq> Inl NotReturned"
  using assms(5-8)
proof (induction fuel arbitrary: cnt w)
  case (Suc fuel)
  obtain slow w1 where s: "slow_start (C t0) (cnt + 1) w = (slow, w1)" by fastforce
  have w1: "clock w1 = C" "t0 + 1 + (cnt + 1 - minTxRetries) \<le> ticks w1"
    using s Suc.prems(1,2) by (auto simp: slow_start_def time_Now_def Let_def minTxRetries_def split: if_splits)
  have last: slow if "cnt + 1 = max_rounds \<delta>"
  proof -
    let ?K = "nat (maxTxTime div \<delta>)"
    have K: "int ?K = maxTxTime div \<delta>" using step(2) by (simp add: maxTxTime_def pos_imp_zdiv_nonneg_iff)
    have "t0 + (?K + 1) \<le> ticks w" using Suc.prems(2) that by (simp add: max_rounds_def minTxRetries_def)
    from clock_advances [of C, OF step this] have "C t0 + (int ?K + 1) * \<delta> \<le> C (ticks w)"
      by (simp only: of_nat_add of_nat_1)
    then have "C t0 + (maxTxTime div \<delta> + 1) * \<delta> \<le> C (ticks w)" unfolding K .
    moreover have "maxTxTime < (maxTxTime div \<delta> + 1) * \<delta>"
      unfolding distrib_right using pos_mod_bound [OF step(2), of maxTxTime] div_mult_mod_eq [of maxTxTime \<delta>] by linarith
    ultimately show slow
      using s that Suc.prems(1) by (auto simp: slow_start_def time_Now_def Let_def max_rounds_def split: if_splits)
  qed
  have again: "fst (txRounds fuel (C t0) (cnt + 1) f v) \<noteq> Inl NotReturned"
    if "\<not> slow" "clock v = C" "ticks w1 \<le> ticks v" for v
    using Suc.IH [of v "cnt + 1"] that w1(2) last Suc.prems(3,4) by force
  obtain r2 w2 where b: "tx_Beginx w1 = (r2, w2)" by fastforce
  have w2: "clock w2 = C" "ticks w2 = ticks w1"
    using w1(1) tx_Beginx_ticks [OF b] by simp_all
  obtain r3 w3 where x: "f w2 = (r3, w3)" by fastforce
  have w3: "clock w3 = C" "ticks w1 \<le> ticks w3" "r3 \<noteq> Inl NotReturned"
    using wpD(1) [OF body refl x] wpD(3) [OF body refl] x ticks [OF x] w2 by (auto simp: tx_frame_def)
  obtain r4 w4 where c: "tx_Commit w3 = (r4, w4)" by fastforce
  have w4: "clock w4 = C" "ticks w1 \<le> ticks w4"
    using w3 tx_Commit_ticks [OF c] by simp_all
  have rb: "clock (tx_Rollback v) = clock v" "ticks (tx_Rollback v) = ticks v" for v by (simp_all add: tx_Rollback_def)
  show ?case
    using s b x c w2 w3 w4 again [of w2] again [of "tx_Rollback w3"] again [of "tx_Rollback w4"] rb
    by (cases slow; cases r2; cases r3; cases r4) (auto simp: Let_def time_Now_def)
qed simp

text \<open>
  C36: Every transaction ends. Take a transaction body that meets a contract, whatever it is, and
  a clock of which two readings are always at least \<open>\<delta>\<close> apart. Then \<open>txLoop\<close> returns, and it does so
  within \<open>max_rounds \<delta>\<close> rounds, five and as many more as there are steps of \<open>\<delta>\<close> in a second, however often
  the engine reports that it is busy; and within one more round than there are faults.
\<close>

theorem txLoop_returns_in_time:
  assumes "\<And>d. wp body (Q d) (E d) d" and "\<And>v r v'. body v = (r, v') \<Longrightarrow> ticks v \<le> ticks v'"
    and "0 < \<delta>" and "\<And>n. clock w n + \<delta> \<le> clock w (Suc n)"
  shows "fst (txLoop body w) \<noteq> Inl NotReturned
    \<and> txLoop body w = (case time_Now w of (start, w1) \<Rightarrow>
        case txRounds (min (Suc (pending w)) (max_rounds \<delta>)) start 0 body (w1\<lparr>working := None\<rparr>) of
          (r, w2) \<Rightarrow> (r, w2\<lparr>working := working w\<rparr>))"
proof -
  let ?w1 = "w\<lparr>ticks := Suc (ticks w), working := None\<rparr>" and ?start = "clock w (ticks w)"
  let ?run = "\<lambda>fuel. txRounds fuel ?start 0 body ?w1"
  have now: "time_Now w = (?start, w\<lparr>ticks := Suc (ticks w)\<rparr>)" by (simp add: time_Now_def)
  have time: "fst (?run (max_rounds \<delta>)) \<noteq> Inl NotReturned"
    using txRounds_returns [of body Q E "clock w" \<delta> ?w1 "ticks w" 0 "max_rounds \<delta>", OF assms(1,2,4,3)]
    by (simp add: max_rounds_def)
  have faults: "fst (?run (Suc (pending w))) \<noteq> Inl NotReturned"
  proof -
    obtain r w2 where x: "?run (Suc (pending w)) = (r, w2)" by fastforce
    have "pending ?w1 < Suc (pending w)" by simp
    from txRounds_rule [OF assms(1) this x] x show ?thesis by (cases r) auto
  qed
  have same: "?run a = ?run b" if "fst (?run a) \<noteq> Inl NotReturned" "a \<le> b" for a b
    using txRounds_more_fuel [of a ?start 0 body ?w1 "fst (?run a)" "snd (?run a)" "b - a"] that by simp
  have fewer: "?run (min (Suc (pending w)) (max_rounds \<delta>)) = ?run (Suc (pending w))"
    using same [OF time] by (cases "Suc (pending w) \<le> max_rounds \<delta>") (simp_all add: min_def del: txRounds.simps)
  have loop: "txLoop body w = (case ?run (Suc (pending w)) of (r, w2) \<Rightarrow> (r, w2\<lparr>working := working w\<rparr>))"
    by (simp add: txLoop_def now del: txRounds.simps)
  show ?thesis
    unfolding loop now prod.case fewer using faults by (simp add: split_beta del: txRounds.simps)
qed

text \<open>An engine that is busy a hundred times, and two seconds between the readings of the clock: the sixth round is the last.\<close>

definition stuck_world :: world where
  "stuck_world = sample_world\<lparr>clock := (\<lambda>n. int n * 2000000000), faults := replicate 100 (Some (SqliteError 5 5))\<rparr>"

theorem txLoop_returns_in_time_witness:
  "fst (txLoop (eq_exec (sql_select event_users)) stuck_world) \<noteq> Inl NotReturned \<and> max_rounds 2000000000 = 6
   \<and> fst (txLoop (eq_exec (sql_select event_users)) stuck_world) = Inl (Errorf ''Internal error: Transaction taking too long'')"
proof -
  have body: "wp (eq_exec (sql_select event_users)) (\<lambda>_ _. True) (\<lambda>_. True) d" for d
    by (intro wp_exec) (simp add: sql_select_def)
  have ticks: "ticks v \<le> ticks v'" if "eq_exec (sql_select event_users) v = (r, v')" for v v' r
    using that by (auto simp: eq_exec_def sql_select_def next_fault_frame split: prod.splits option.splits)
  have step: "0 < (2000000000::int)" "clock stuck_world n + 2000000000 \<le> clock stuck_world (Suc n)" for n
    by (simp_all add: stuck_world_def)
  note bound = txLoop_returns_in_time [of _ "\<lambda>_ _ _. True" "\<lambda>_ _. True", OF body ticks step]
  have "max_rounds 2000000000 = 6" by (simp add: max_rounds_def minTxRetries_def maxTxTime_def)
  moreover have "fst (txLoop (eq_exec (sql_select event_users)) stuck_world) = Inl (Errorf ''Internal error: Transaction taking too long'')"
    by code_simp
  ultimately show ?thesis using bound by simp
qed

end
