(* ===== verification/Score_Bounds.thy ===== *)
theory Score_Bounds
  imports Scheduler "HOL-Library.Word"
begin

text \<open>
  The numbers of the scheduler fit. The search of \<open>Scheduler\<close> computes with unbounded integers, the program
  with the 64 bits of Go's \<open>int\<close>. This theory writes the score with the wrap-around after every addition and
  shows that on a snapshot of a consistent event the two agree, because a user's interest is at most 100 and counts once.
\<close>

section \<open>The score on 64 bits\<close>

definition int64 :: "int \<Rightarrow> int" where
  "int64 x = sint (word_of_int x :: 64 word)"

lemma int64_id: "- (2 ^ 63) \<le> x \<Longrightarrow> x < 2 ^ 63 \<Longrightarrow> int64 x = x"
  by (simp add: int64_def sint_sbintrunc' signed_take_bit_int_eq_self)

definition sum64 :: "(string \<times> int) list \<Rightarrow> int" where
  "sum64 m = fold (\<lambda>(_, interest) acc. int64 (acc + interest)) m 0"

definition scoreSlotDelta64 :: "searchDiscussion list \<Rightarrow> searchDiscussion \<Rightarrow> int" where
  "scoreSlotDelta64 discussions hyp =
    (let userMaxInt = fold (\<lambda>disc m. addDiscussionInterest m disc) discussions [];
         pre = sum64 userMaxInt;
         userMaxInt1 = addDiscussionInterest userMaxInt hyp;
         post = sum64 userMaxInt1
     in int64 (post - pre))"

lemma fold64:
  assumes "\<And>u i. (u, i) \<in> set m \<Longrightarrow> 0 \<le> i" and "0 \<le> a" and "a + sum_list (map snd m) < 2 ^ 63"
  shows "fold (\<lambda>(_, interest) acc. int64 (acc + interest)) m a = a + sum_list (map snd m)"
  using assms
proof (induction m arbitrary: a)
  case (Cons p m)
  obtain u i where p: "p = (u, i)" by fastforce
  have nonneg: "0 \<le> i" "0 \<le> sum_list (map snd m)"
    using Cons.prems(1) p by (auto intro!: sum_list_nonneg) fastforce
  then have "int64 (a + i) = a + i" using Cons.prems(2,3) p by (intro int64_id) simp_all
  moreover have "fold (\<lambda>(_, interest) acc. int64 (acc + interest)) m (a + i) = a + i + sum_list (map snd m)"
    using Cons.prems nonneg p by (intro Cons.IH) auto
  ultimately show ?case by (simp add: p)
qed simp

section \<open>Bounds\<close>

lemma user_value_le:
  assumes "\<And>v i. (v, i) \<in> set uis \<Longrightarrow> i \<le> b" and "0 \<le> b"
  shows "user_value uis u \<le> b"
proof -
  have "finite {ui \<in> set uis. fst ui = u}" by (rule finite_subset [of _ "set uis"]) auto
  then show ?thesis unfolding user_value_def using assms by auto
qed

lemma values_le_sum:
  assumes "finite S" and "\<And>v i. (v, i) \<in> set uis \<Longrightarrow> 0 \<le> i"
  shows "(\<Sum>u \<in> S. user_value uis u) \<le> sum_list (map snd uis)"
  using assms(2)
proof (induction uis rule: rev_induct)
  case (snoc p uis)
  obtain v i where p: "p = (v, i)" by fastforce
  then have i: "0 \<le> i" using snoc.prems by auto
  have "user_value (uis @ [p]) u \<le> user_value uis u + (if u = v then i else 0)" for u
    using i user_value_nonneg [of uis v] by (auto simp: p user_value_snoc)
  then have "(\<Sum>u \<in> S. user_value (uis @ [p]) u) \<le> (\<Sum>u \<in> S. user_value uis u + (if u = v then i else 0))"
    by (rule sum_mono)
  also have "\<dots> \<le> (\<Sum>u \<in> S. user_value uis u) + i"
    using i assms(1) by (simp add: sum.distrib)
  also have "\<dots> \<le> sum_list (map snd uis) + i" using snoc by auto
  finally show ?case by (simp add: p)
qed simp

lemma user_value_append: "user_value (xs @ ys) u \<le> user_value xs u + user_value ys u"
proof (induction ys rule: rev_induct)
  case (snoc y ys)
  show ?case
    using snoc user_value_snoc [of "xs @ ys" "fst y" "snd y" u] user_value_snoc [of ys "fst y" "snd y" u]
      user_value_nonneg [of xs u] by (auto split: if_splits)
qed (simp add: user_value_nonneg)

lemma values_on:
  assumes "finite S" and "fst ` set uis \<subseteq> S"
  shows "(\<Sum>u \<in> S. user_value uis u) = (\<Sum>u \<in> fst ` set uis. user_value uis u)"
  using assms by (intro sum.mono_neutral_right) (auto simp: user_value_outside)

lemma slot_value_gain:
  assumes "\<And>v i. (v, i) \<in> set (sdUserInterest hyp) \<Longrightarrow> 0 \<le> i"
  shows "slot_value (ds @ [hyp]) \<le> slot_value ds + sum_list (map snd (sdUserInterest hyp))"
proof -
  let ?a = "concat (map sdUserInterest ds)" and ?b = "sdUserInterest hyp"
  let ?S = "fst ` set (?a @ ?b)"
  have S: "finite ?S" "fst ` set ?a \<subseteq> ?S" by auto
  have "slot_value (ds @ [hyp]) = (\<Sum>u \<in> ?S. user_value (?a @ ?b) u)" by (simp add: slot_value_def Let_def)
  also have "\<dots> \<le> (\<Sum>u \<in> ?S. user_value ?a u + user_value ?b u)" by (intro sum_mono user_value_append)
  also have "\<dots> = slot_value ds + (\<Sum>u \<in> ?S. user_value ?b u)"
    using values_on [OF S] by (simp add: sum.distrib slot_value_def Let_def)
  also have "\<dots> \<le> slot_value ds + sum_list (map snd ?b)" using values_le_sum [OF S(1) assms] by simp
  finally show ?thesis .
qed

section \<open>Snapshots\<close>

definition interest_range :: "database \<Rightarrow> searchDiscussion \<Rightarrow> bool" where
  "interest_range d x \<longleftrightarrow> distinct (map fst (sdUserInterest x)) \<and> sdMaxInterest x = sum_list (map snd (sdUserInterest x))
     \<and> (\<forall>(u, i) \<in> set (sdUserInterest x). u \<in> user_ids d \<and> 1 \<le> i \<and> i \<le> 100)"

lemma snapshot_interest:
  assumes inv: "event_inv d" and row: "snapshot_row d r x"
  shows "interest_range d x"
proof -
  let ?rows = "filter (\<lambda>i. InterestDiscussion i = fst r) (event_interest d)"
  have x: "sdUserInterest x = map (\<lambda>i. (InterestUser i, InterestValue i)) ?rows"
    "sdMaxInterest x = sum_list (map snd (sdUserInterest x))" using row by (simp_all add: snapshot_row_def)
  have keys: "distinct (map interest_key (event_interest d))" using inv by (simp add: inv_split interest_ok_def)
  then have "distinct (map interest_key ?rows)" by (rule distinct_map_filterI)
  then have "inj_on InterestUser (set ?rows)" "distinct ?rows"
    by (auto simp: distinct_map inj_on_def interest_key_def)
  then have "distinct (map InterestUser ?rows)" by (simp only: distinct_map)
  then have "distinct (map fst (sdUserInterest x))" by (simp add: x comp_def)
  then show ?thesis
    unfolding interest_range_def using inv x by (auto simp: inv_split interest_ok_def interest_content_def)
qed

lemma sum_interest_le:
  assumes "interest_range d x"
  shows "sum_list (map snd (sdUserInterest x)) \<le> 100 * int (length (event_users d))"
proof -
  let ?us = "sdUserInterest x"
  have "sum_list (map snd ?us) \<le> sum_list (map (\<lambda>_. 100) ?us)"
    using assms by (intro sum_list_mono2) (auto simp: interest_range_def nth_mem case_prod_beta)
  also have "\<dots> = 100 * int (card (fst ` set ?us))"
    using assms distinct_card [of "map fst ?us"] by (simp add: interest_range_def sum_list_triv)
  also have "card (fst ` set ?us) \<le> card (user_ids d)"
    using assms by (intro card_mono) (auto simp: interest_range_def user_ids_def)
  also have "card (user_ids d) \<le> length (event_users d)" by (metis user_ids_def card_length list.set_map length_map)
  finally show ?thesis by simp
qed

lemma slot_value_le:
  assumes "\<And>x. x \<in> set ds \<Longrightarrow> interest_range d x"
  shows "slot_value ds \<le> 100 * int (length (event_users d))"
proof -
  let ?uis = "concat (map sdUserInterest ds)"
  have range: "u \<in> user_ids d" "i \<le> 100" if "(u, i) \<in> set ?uis" for u i
    using that assms by (auto simp: interest_range_def)
  have users: "fst ` set ?uis \<subseteq> user_ids d"
  proof
    fix v assume "v \<in> fst ` set ?uis"
    then obtain i where "(v, i) \<in> set ?uis" by (metis imageE prod.collapse)
    then show "v \<in> user_ids d" by (rule range(1))
  qed
  have "slot_value ds \<le> (\<Sum>u \<in> fst ` set ?uis. 100)"
    unfolding slot_value_def Let_def using range(2) by (intro sum_mono user_value_le) auto
  also have "\<dots> = 100 * int (card (fst ` set ?uis))" by simp
  also have "card (fst ` set ?uis) \<le> card (user_ids d)"
    using users by (intro card_mono) (simp_all add: user_ids_def)
  also have "card (user_ids d) \<le> length (event_users d)" by (metis user_ids_def card_length list.set_map length_map)
  finally show ?thesis by simp
qed

lemma map_values_nonneg:
  assumes "holds_values m uis" and "(u, i) \<in> set m"
  shows "0 \<le> i"
proof -
  have "map_of m u = Some i" using assms by (auto simp: holds_values_def intro: map_of_is_SomeI)
  then have "map_get m u = i" by (simp add: map_get_def)
  then have "i = user_value uis u" using assms(1) by (simp add: holds_values_def)
  then show ?thesis by (simp add: user_value_nonneg)
qed

lemma sum64_value:
  assumes "holds_values m (concat (map sdUserInterest ds))" and "slot_value ds < 2 ^ 63"
  shows "sum64 m = slot_value ds"
  using fold64 [of m 0, OF map_values_nonneg [OF assms(1)]] slot_value_sum [OF assms(1)] assms(2)
  by (simp add: sum64_def)

text \<open>
  C37: The scores are right on 64 bits. In a snapshot of a consistent event with \<open>n\<close> users, the total
  interest in a discussion is at most \<open>100 * n\<close>; and the score of placing it beside any other discussions of the
  snapshot is not negative and at most this total. While \<open>100 * n\<close> fits in a Go \<open>int\<close>, none of the sums of the code
  wraps: computed with 64 bits after every step, in whatever order the map is traversed, the score is the same.
\<close>

theorem scores_fit:
  assumes "event_inv (committed w)" and "makeSnapshot tz w = (Inr ss, w')"
    and "100 * int (length (event_users (committed w))) < 2 ^ 63"
    and "hyp \<in> set (storeDiscussions ss)" and "set ds \<subseteq> set (storeDiscussions ss)"
  shows "sdMaxInterest hyp \<le> 100 * int (length (event_users (committed w)))
    \<and> 0 \<le> scoreSlotDelta ds hyp \<and> scoreSlotDelta ds hyp \<le> sdMaxInterest hyp
    \<and> scoreSlotDelta64 ds hyp = scoreSlotDelta ds hyp"
proof -
  let ?d = "committed w"
  have snap: "snapshot_of ?d ss" using snapshot.success [of tz w ss w'] assms(2) by (simp add: makeSnapshot_def)
  then have range: "interest_range ?d x" if "x \<in> set (storeDiscussions ss)" for x
  proof -
    obtain n where "n < length (storeDiscussions ss)" "storeDiscussions ss ! n = x"
      using \<open>x \<in> set (storeDiscussions ss)\<close> by (auto simp: in_set_conv_nth)
    then have "snapshot_row ?d (unlocked_join ?d ! n) x"
      using snap by (auto simp: snapshot_of_def list_all2_conv_all_nth)
    then show ?thesis by (rule snapshot_interest [OF assms(1)])
  qed
  have hyp: "interest_range ?d hyp" using range assms(4) .
  then have interest: "0 \<le> i" if "(v, i) \<in> set (sdUserInterest hyp)" for v i
    using that by (auto simp: interest_range_def)
  have bound: "slot_value ds < 2 ^ 63" "slot_value (ds @ [hyp]) < 2 ^ 63"
    using slot_value_le [of ds ?d] slot_value_le [of "ds @ [hyp]" ?d] range assms(3-5) by (force simp: subset_iff)+
  have nil: "holds_values [] []" by (simp add: holds_values_def map_get_def)
  note pre = holds_values_slot [OF nil, of ds, simplified]
  have post: "holds_values (addDiscussionInterest (fold (\<lambda>disc m. addDiscussionInterest m disc) ds []) hyp)
      (concat (map sdUserInterest (ds @ [hyp])))"
    using holds_values_fold [OF pre, of "sdUserInterest hyp"] by (simp add: addDiscussionInterest_def)
  have "slot_value (ds @ [hyp]) \<le> slot_value ds + sum_list (map snd (sdUserInterest hyp))"
    by (rule slot_value_gain) (rule interest)
  then have gain: "0 \<le> scoreSlotDelta ds hyp" "scoreSlotDelta ds hyp \<le> sdMaxInterest hyp"
    using slot_value_mono [of ds hyp] hyp
    by (simp_all add: scoreSlotDelta_eq interest_range_def)
  have "sdMaxInterest hyp \<le> 100 * int (length (event_users ?d))"
    using sum_interest_le [OF hyp] hyp by (simp add: interest_range_def)
  moreover have "scoreSlotDelta64 ds hyp = scoreSlotDelta ds hyp"
    using gain calculation assms(3) sum64_value [OF pre bound(1)] sum64_value [OF post bound(2)]
    by (simp add: scoreSlotDelta64_def scoreSlotDelta_eq Let_def int64_id)
  ultimately show ?thesis using gain by blast
qed

text \<open>The snapshot of the sample event.\<close>

theorem scores_fit_witness:
  "\<exists>ss w'. makeSnapshot sample_tz sample_world = (Inr ss, w') \<and> length (storeDiscussions ss) \<noteq> 0
     \<and> scoreSlotDelta64 (storeDiscussions ss) (hd (storeDiscussions ss))
       = scoreSlotDelta (storeDiscussions ss) (hd (storeDiscussions ss))"
proof -
  have "case makeSnapshot sample_tz sample_world of (Inr ss, _) \<Rightarrow> length (storeDiscussions ss) \<noteq> 0 | _ \<Rightarrow> False" by code_simp
  then obtain ss w' where s: "makeSnapshot sample_tz sample_world = (Inr ss, w')" "length (storeDiscussions ss) \<noteq> 0"
    by (auto split: prod.splits sum.splits)
  then have hd: "hd (storeDiscussions ss) \<in> set (storeDiscussions ss)" by simp
  have inv: "event_inv (committed sample_world)" by (simp add: sample_inv)
  have few: "100 * int (length (event_users (committed sample_world))) < 2 ^ 63" by (simp add: sample_db_def)
  from scores_fit [OF inv s(1) few hd order.refl] s show ?thesis by blast
qed

end
