(* ===== verification/Test_Data.thy ===== *)
theory Test_Data
  imports Accounts
begin

text \<open>
  Random data for manual tests, \<^verbatim>\<open>event/testdata.go\<close>: which calls of \<open>SetInterest\<close> \<open>TestGenerateInterest\<close> makes for the users and
  discussions the two iterations deliver. \<open>rnd k n\<close> is the \<open>k\<close>th random number, drawn by \<^verbatim>\<open>rand.Intn(n)\<close>. The calls stand inside
  the transaction of the iteration over the discussions; how they fare there is not modelled. Nothing in the
  program calls these functions.
\<close>

type_synonym random_source = "nat \<Rightarrow> nat \<Rightarrow> nat"

definition TestPopulate :: "error + unit" where
  "TestPopulate = Inl (Panic ''Not implemented'')"

text \<open>After the first users one in ten is themselves, the others follow somebody before them.\<close>

definition choose_model :: "random_source \<Rightarrow> User list \<Rightarrow> nat \<Rightarrow> User option \<times> nat" where
  "choose_model rnd handled k =
    (if 4 < length handled
     then (if rnd k 10 \<noteq> 0 then (Some (handled ! rnd (k + 1) (length handled)), k + 2) else (None, k + 1))
     else (None, k))"

text \<open>The cases in the order of the source. Who follows a model gets no interest.\<close>

definition generate_interest :: "random_source \<Rightarrow> User option \<Rightarrow> nat \<Rightarrow> int \<times> nat" where
  "generate_interest rnd model k =
    (let r = rnd k 100;
         own = (\<lambda>k. if r \<ge> 40 then (int (rnd k 100), k + 1) else if r \<ge> 50 then (100, k) else (0, k))
     in if model = None then own (k + 1)
        else if rnd (k + 1) 8 = 0 then own (k + 2) else (0, k + 2))"

type_synonym interest_call = "User \<times> Discussion \<times> int"

fun generate_interests :: "random_source \<Rightarrow> User \<Rightarrow> User option \<Rightarrow> Discussion list \<Rightarrow> nat \<Rightarrow> interest_call list \<times> nat" where
  "generate_interests rnd user model [] k = ([], k)"
| "generate_interests rnd user model (disc # discs) k =
    (case generate_interest rnd model k of (i, k1) \<Rightarrow>
     case generate_interests rnd user model discs k1 of (cs, k2) \<Rightarrow> ((user, disc, i) # cs, k2))"

fun TestGenerateInterest :: "random_source \<Rightarrow> Discussion list \<Rightarrow> User list \<Rightarrow> User list \<Rightarrow> nat \<Rightarrow> interest_call list" where
  "TestGenerateInterest rnd discs handled [] k = []"
| "TestGenerateInterest rnd discs handled (user # users) k =
    (case choose_model rnd handled k of (model, k1) \<Rightarrow>
     case generate_interests rnd user model discs k1 of (cs, k2) \<Rightarrow>
       cs @ TestGenerateInterest rnd discs (handled @ [user]) users k2)"

section \<open>Its calls\<close>

lemma generate_interest_range:
  assumes "\<And>k n. 0 < n \<Longrightarrow> rnd k n < n" and "generate_interest rnd model k = (i, k')"
  shows "0 \<le> i \<and> i < InterestMax"
proof -
  have "rnd k 100 < 100" for k using assms(1) by simp
  then show ?thesis using assms(2) by (auto simp: generate_interest_def Let_def InterestMax_def split: if_splits)
qed

lemma generate_interests_calls:
  assumes "\<And>k n. 0 < n \<Longrightarrow> rnd k n < n" and "generate_interests rnd user model discs k = (cs, k')"
  shows "map (\<lambda>(u, d, i). (u, d)) cs = map (Pair user) discs \<and> (\<forall>(u, d, i) \<in> set cs. 0 \<le> i \<and> i < InterestMax)"
  using assms(2)
proof (induction discs arbitrary: k cs)
  case (Cons disc discs)
  obtain i k1 where i: "generate_interest rnd model k = (i, k1)" by fastforce
  obtain ds k2 where ds: "generate_interests rnd user model discs k1 = (ds, k2)" by fastforce
  from Cons.prems i ds have "cs = (user, disc, i) # ds" "k' = k2" by simp_all
  with Cons.IH ds generate_interest_range [OF assms(1) i] show ?case by auto
qed simp

text \<open>
  Every user gets an interest in every discussion, once, and each is one \<open>SetInterest\<close> accepts. The greatest interest is never
  among them: the case of the source that gives it comes after one that covers it.
\<close>

lemma TestGenerateInterest_calls:
  assumes "\<And>k n. 0 < n \<Longrightarrow> rnd k n < n"
  shows "map (\<lambda>(u, d, i). (u, d)) (TestGenerateInterest rnd discs handled users k) = List.product users discs
    \<and> (\<forall>(u, d, i) \<in> set (TestGenerateInterest rnd discs handled users k). 0 \<le> i \<and> i < InterestMax)"
proof (induction users arbitrary: handled k)
  case (Cons user users)
  obtain model k1 where m: "choose_model rnd handled k = (model, k1)" by fastforce
  obtain cs k2 where cs: "generate_interests rnd user model discs k1 = (cs, k2)" by fastforce
  from m cs have "TestGenerateInterest rnd discs handled (user # users) k = cs @ TestGenerateInterest rnd discs (handled @ [user]) users k2"
    by simp
  with generate_interests_calls [OF assms cs] Cons.IH [of "handled @ [user]" k2] show ?case by auto
qed simp

text \<open>A model is one of the users before.\<close>

lemma choose_model_handled:
  assumes "\<And>k n. 0 < n \<Longrightarrow> rnd k n < n" and "choose_model rnd handled k = (Some u, k')"
  shows "u \<in> set handled"
  using assms(2) assms(1) [of "length handled" "k + 1"]
  by (cases "handled = []") (auto simp: choose_model_def split: if_splits)

end
