(* ===== verification/Time_Text.thy ===== *)
theory Time_Text
  imports Accounts "HOL-Library.Monad_Syntax"
begin

text \<open>
  Times as the database has them, \<^verbatim>\<open>event/timedb.go\<close>: \<open>Time.Value\<close> stores the text of \<^verbatim>\<open>MarshalText\<close>, \<open>Time.Scan\<close> reads it
  with \<^verbatim>\<open>UnmarshalText\<close>. Both are RFC 3339: local date and time, then \<open>Z\<close> or the offset in hours and minutes. The tables of
  the model hold the times themselves; the theorem below says when that is the same.

  Of \<^verbatim>\<open>UnmarshalText\<close> the texts with all their digits and without a fraction of a second are taken, as \<^verbatim>\<open>MarshalText\<close> writes
  them for whole seconds; what else \<^verbatim>\<open>time.Parse\<close> lets through is refused here.
\<close>

section \<open>Dates\<close>

definition isLeap :: "int \<Rightarrow> bool" where
  "isLeap y \<longleftrightarrow> y mod 4 = 0 \<and> (y mod 100 \<noteq> 0 \<or> y mod 400 = 0)"

definition month_lengths :: "int \<Rightarrow> int list" where
  "month_lengths y = [31, if isLeap y then 29 else 28, 31, 30, 31, 30, 31, 31, 30, 31, 30, 31]"

text \<open>Days since 1 January of the year 1.\<close>

definition year_start :: "int \<Rightarrow> int" where
  "year_start y = 365 * (y - 1) + (y - 1) div 4 - (y - 1) div 100 + (y - 1) div 400"

definition days_of_date :: "int \<Rightarrow> nat \<Rightarrow> int \<Rightarrow> int" where
  "days_of_date y m d = year_start y + sum_list (take (m - 1) (month_lengths y)) + d - 1"

text \<open>
  The year of a day, by cycles of 400, 100, 4 years and one, and the day of that year. The last of four
  centuries and the last of four years are a day longer.
\<close>

definition year_of_days :: "int \<Rightarrow> int \<times> int" where
  "year_of_days n =
    (let a = n div 146097; r1 = n mod 146097;
         b = min 3 (r1 div 36524); r2 = r1 - 36524 * b;
         c = r2 div 1461; r3 = r2 mod 1461;
         e = min 3 (r3 div 365)
     in (400 * a + 100 * b + 4 * c + e + 1, r3 - 365 * e))"

fun month_of_day :: "int list \<Rightarrow> nat \<Rightarrow> int \<Rightarrow> nat \<times> int" where
  "month_of_day [] m d = (m, d + 1)"
| "month_of_day (l # ls) m d = (if d < l then (m, d + 1) else month_of_day ls (m + 1) (d - l))"

definition date_of_days :: "int \<Rightarrow> int \<times> nat \<times> int" where
  "date_of_days n = (case year_of_days n of (y, yday) \<Rightarrow> (y, month_of_day (month_lengths y) 1 yday))"

lemma last_is_longer:
  assumes "0 \<le> r" and "r \<le> 4 * k" and "0 < k" and "b = min 3 (r div k)"
  shows "0 \<le> b \<and> b \<le> 3 \<and> 0 \<le> r - k * b \<and> (b < 3 \<longrightarrow> r - k * b < k) \<and> r - k * b \<le> (k :: int)"
proof (cases "r div k < 3")
  case True
  then have b: "b = r div k" using assms(4) by simp
  have "r - k * b = r mod k" by (simp add: b minus_mult_div_eq_mod)
  with assms(1,3) b True show ?thesis by (simp add: pos_imp_zdiv_nonneg_iff order_less_imp_le)
next
  case False
  then have "k * 3 \<le> k * (r div k)" using assms(3) by (intro mult_left_mono) simp_all
  also have "\<dots> \<le> r" using mult_div_mod_eq [of k r] pos_mod_sign [OF assms(3), of r] by linarith
  finally have "k * 3 \<le> r" .
  with False assms(2,4) show ?thesis by simp
qed

lemma year_of_days_result:
  assumes "year_of_days n = (y, yday)"
  shows "n = year_start y + yday" and "0 \<le> yday" and "yday < (if isLeap y then 366 else 365)"
    and "-366 \<le> n \<Longrightarrow> n \<le> 3652058 \<Longrightarrow> 0 \<le> y \<and> y \<le> 9999"
proof -
  define a r1 where ar: "a = n div 146097" "r1 = n mod 146097"
  define b r2 where br: "b = min 3 (r1 div 36524)" "r2 = r1 - 36524 * b"
  define c r3 where cr: "c = r2 div 1461" "r3 = r2 mod 1461"
  define e where e: "e = min 3 (r3 div 365)"
  have y: "y = 400 * a + 100 * b + 4 * c + e + 1" "yday = r3 - 365 * e"
    using assms [symmetric] by (simp_all only: year_of_days_def Let_def prod.inject ar br cr e)
  have n: "n = 146097 * a + r1" "0 \<le> r1" "r1 < 146097" by (simp_all add: ar)
  have b: "0 \<le> b" "b \<le> 3" "0 \<le> r2" "b < 3 \<longrightarrow> r2 < 36524" "r2 \<le> 36524"
    using last_is_longer [of r1 36524 b] n(2,3) br by simp_all
  have c1: "r2 = 1461 * c + r3" "0 \<le> r3" "r3 < 1461" by (simp_all add: cr)
  then have c: "r2 = 1461 * c + r3" "0 \<le> r3" "r3 < 1461" "0 \<le> c" "c \<le> 24" using b(3,5) by linarith+
  have ee: "0 \<le> e" "e \<le> 3" "0 \<le> yday" "e < 3 \<longrightarrow> yday < 365" "yday \<le> 365"
    using last_is_longer [of r3 365 e] c(2,3) e y(2) by simp_all
  have cycles: "(y - 1) div 4 = 100 * a + 25 * b + c" "(y - 1) div 100 = 4 * a + b" "(y - 1) div 400 = a"
    using int_div_pos_eq [of "y - 1" 4 "100 * a + 25 * b + c" e] int_div_pos_eq [of "y - 1" 100 "4 * a + b" "4 * c + e"]
      int_div_pos_eq [of "y - 1" 400 a "100 * b + 4 * c + e"] b(1,2) c(4,5) ee(1,2) y(1) by simp_all
  show "n = year_start y + yday" unfolding year_start_def cycles using n(1) br(2) c(1) by (simp add: y algebra_simps)
  show "0 \<le> yday" using ee(3) .
  have "isLeap y" if "yday = 365"
  proof -
    have e3: "e = 3" using that ee by auto
    then have y4: "y = 4 * (100 * a + 25 * b + c + 1)" using y(1) by simp
    show ?thesis
    proof (cases "c = 24")
      case True
      then have "b = 3" using e3 that b c y(2) by linarith
      with True y4 have "y = 400 * (a + 1)" by simp
      with y4 show ?thesis by (simp add: isLeap_def)
    next
      case False
      have "y = 100 * (4 * a + b) + (4 * c + 4)" using y4 by simp
      moreover have "0 < 4 * c + 4" "4 * c + 4 < 100" using False c(4,5) by simp_all
      ultimately have "y mod 100 = 4 * c + 4" by (metis mod_mult_self4 mod_pos_pos_trivial order_less_imp_le)
      with y4 \<open>0 < 4 * c + 4\<close> show ?thesis by (simp add: isLeap_def)
    qed
  qed
  with ee(5) show "yday < (if isLeap y then 366 else 365)" by (cases "yday = 365") auto
  show "0 \<le> y \<and> y \<le> 9999" if "-366 \<le> n" "n \<le> 3652058"
  proof
    show "0 \<le> y"
    proof (cases "0 \<le> a")
      case True
      with y(1) b(1) c(4) ee(1) show ?thesis by linarith
    next
      case False
      then have a: "a = -1" using that(1) n by linarith
      then have "145731 \<le> r1" using that(1) n(1) by linarith
      with b(2,4) br(2) have b3: "b = 3" by (cases "b < 3") auto
      with \<open>145731 \<le> r1\<close> c br(2) have c24: "c = 24" by linarith
      with b3 \<open>145731 \<le> r1\<close> c(1) br(2) have "1095 \<le> r3" by linarith
      with ee(2,4) y(2) have "e = 3" by (cases "e < 3") auto
      with a b3 c24 y(1) show ?thesis by simp
    qed
    show "y \<le> 9999"
    proof (cases "a \<le> 23")
      case True
      with y(1) b(2) c(5) ee(2) show ?thesis by linarith
    next
      case False
      then have "a = 24" using that(2) n by linarith
      then have "r1 \<le> 145730" using that(2) n(1) by linarith
      have "b \<le> 2 \<or> c \<le> 23 \<or> e \<le> 2"
      proof (rule ccontr)
        assume "\<not> ?thesis"
        then have "b = 3" "c = 24" "e = 3" using b(2) c(5) ee(2) by auto
        with \<open>r1 \<le> 145730\<close> c(1) br(2) ee(3) y(2) show False by linarith
      qed
      with y(1) b(2) c(5) ee(2) \<open>a = 24\<close> show ?thesis by linarith
    qed
  qed
qed

lemma month_of_day_result:
  assumes "month_of_day ls m d = (m', d')" and "0 \<le> d" and "d < sum_list ls"
  shows "m \<le> m' \<and> m' < m + length ls \<and> 1 \<le> d' \<and> d' \<le> ls ! (m' - m) \<and> d = sum_list (take (m' - m) ls) + d' - 1"
  using assms
proof (induction ls m d rule: month_of_day.induct)
  case (2 l ls m d)
  show ?case
  proof (cases "d < l")
    case False
    with 2 have "m + 1 \<le> m' \<and> m' < m + 1 + length ls \<and> 1 \<le> d' \<and> d' \<le> ls ! (m' - (m + 1))
        \<and> d - l = sum_list (take (m' - (m + 1)) ls) + d' - 1" by simp
    note r = this
    then have m: "m' - m = Suc (m' - (m + 1))" by linarith
    from r show ?thesis unfolding m by simp
  qed (use 2 in auto)
qed simp

lemma month_lengths_sum: "sum_list (month_lengths y) = (if isLeap y then 366 else 365)" "length (month_lengths y) = 12"
  by (simp_all add: month_lengths_def)

lemma date_of_days_result:
  assumes "date_of_days n = (y, m, d)"
  shows "days_of_date y m d = n" and "1 \<le> m" and "m \<le> 12" and "1 \<le> d" and "d \<le> month_lengths y ! (m - 1)"
    and "-366 \<le> n \<Longrightarrow> n \<le> 3652058 \<Longrightarrow> 0 \<le> y \<and> y \<le> 9999"
proof -
  obtain yday where y: "year_of_days n = (y, yday)" and md: "month_of_day (month_lengths y) 1 yday = (m, d)"
    using assms by (auto simp: date_of_days_def split: prod.splits)
  note yr = year_of_days_result [OF y]
  have "yday < sum_list (month_lengths y)" using yr(3) by (simp add: month_lengths_sum)
  note mr = month_of_day_result [OF md yr(2) this, unfolded month_lengths_sum]
  show "days_of_date y m d = n" using mr yr(1) by (simp add: days_of_date_def)
  show "1 \<le> m" "m \<le> 12" "1 \<le> d" "d \<le> month_lengths y ! (m - 1)" using mr by auto
  show "-366 \<le> n \<Longrightarrow> n \<le> 3652058 \<Longrightarrow> 0 \<le> y \<and> y \<le> 9999" by (rule yr(4))
qed

section \<open>Numbers\<close>

definition digit :: "nat \<Rightarrow> char" where
  "digit n = ''0123456789'' ! n"

definition digit_value :: "char \<Rightarrow> nat option" where
  "digit_value c = (if 48 \<le> (of_char c :: nat) \<and> (of_char c :: nat) \<le> 57 then Some (of_char c - 48) else None)"

fun padded :: "nat \<Rightarrow> nat \<Rightarrow> string" where
  "padded 0 n = []"
| "padded (Suc k) n = digit (n div 10 ^ k mod 10) # padded k n"

fun decimal_width :: "nat \<Rightarrow> nat" where
  "decimal_width n = (if n < 10 then 1 else Suc (decimal_width (n div 10)))"

declare decimal_width.simps [simp del]

text \<open>The digits of a number, with zeros in front up to the given width.\<close>

definition appendInt :: "nat \<Rightarrow> nat \<Rightarrow> string" where
  "appendInt k n = padded (max k (decimal_width n)) n"

fun get_number :: "nat \<Rightarrow> nat \<Rightarrow> string \<Rightarrow> (nat \<times> string) option" where
  "get_number 0 acc s = Some (acc, s)"
| "get_number (Suc k) acc [] = None"
| "get_number (Suc k) acc (c # s) = Option.bind (digit_value c) (\<lambda>v. get_number k (10 * acc + v) s)"

lemma less_10_cases: "n < 10 \<Longrightarrow> n \<in> {0, 1, 2, 3, 4, 5, 6, 7, 8, 9 :: nat}"
  by auto

lemma digit_value_digit [simp]: "n < 10 \<Longrightarrow> digit_value (digit n) = Some n"
  by (drule less_10_cases) (auto simp: digit_def digit_value_def)

lemma get_number_padded: "get_number k acc (padded k n @ s) = Some (acc * 10 ^ k + n mod 10 ^ k, s)"
proof (induction k arbitrary: acc)
  case (Suc k)
  have "n mod (10 ^ k * 10) = 10 ^ k * (n div 10 ^ k mod 10) + n mod 10 ^ k" by (rule mod_mult2_eq)
  then have "(10 * acc + n div 10 ^ k mod 10) * 10 ^ k + n mod 10 ^ k = acc * 10 ^ Suc k + n mod 10 ^ Suc k"
    by (simp add: algebra_simps)
  with Suc.IH show ?case by simp
qed simp

lemma decimal_width_le: "0 < k \<Longrightarrow> n < 10 ^ k \<Longrightarrow> decimal_width n \<le> k"
proof (induction n arbitrary: k rule: decimal_width.induct)
  case (1 n)
  show ?case
  proof (cases "n < 10")
    case True
    with 1 show ?thesis by (simp add: decimal_width.simps)
  next
    case False
    obtain j where k: "k = Suc j" using 1(2) by (cases k) auto
    with 1(3) False have "0 < j" by (cases j) auto
    moreover have "n div 10 < 10 ^ j" using 1(3) k by (simp add: less_mult_imp_div_less mult.commute)
    ultimately show ?thesis using 1(1) False k by (simp add: decimal_width.simps [of n])
  qed
qed

lemma get_number_appendInt: "0 < k \<Longrightarrow> n < 10 ^ k \<Longrightarrow> get_number k 0 (appendInt k n @ s) = Some (n, s)"
  by (simp add: appendInt_def decimal_width_le max_absorb1 get_number_padded)

section \<open>Value and Scan\<close>

text \<open>The zone of the text, in whole minutes: Go divides the offset towards zero.\<close>

definition zone_seconds :: "int \<Rightarrow> int" where
  "zone_seconds off = (if off < 0 then - (60 * (- off div 60)) else 60 * (off div 60))"

definition zone_text :: "int \<Rightarrow> string" where
  "zone_text off =
    (if off = 0 then ''Z''
     else (let zone = zone_seconds off; minutes = nat (\<bar>zone\<bar> div 60)
           in (if zone < 0 then CHR ''-'' else CHR ''+'') # appendInt 2 (minutes div 60) @ '':'' @ appendInt 2 (minutes mod 60)))"

definition MarshalText :: "gotime \<Rightarrow> error + string" where
  "MarshalText t =
    (if \<not> MarshalText_ok t then Inl (Errorf ''Time.MarshalText: year outside of range [0,9999]'')
     else (case t of (s, off) \<Rightarrow> case date_of_days ((s + off) div 86400 + 719162) of (y, m, d) \<Rightarrow>
       let secs = nat ((s + off) mod 86400)
       in Inr (appendInt 4 (nat y) @ ''-'' @ appendInt 2 m @ ''-'' @ appendInt 2 (nat d) @ ''T''
            @ appendInt 2 (secs div 3600) @ '':'' @ appendInt 2 (secs div 60 mod 60) @ '':'' @ appendInt 2 (secs mod 60)
            @ zone_text off)))"

definition Time_Value :: "gotime \<Rightarrow> error + string" where
  "Time_Value t = MarshalText t"

fun literal :: "char \<Rightarrow> string \<Rightarrow> string option" where
  "literal c (x # s) = (if x = c then Some s else None)"
| "literal c [] = None"

fun parse_zone :: "string \<Rightarrow> int option" where
  "parse_zone [] = None"
| "parse_zone (c # s) =
    (if c = CHR ''Z'' then (if s = [] then Some 0 else None)
     else if c = CHR ''+'' \<or> c = CHR ''-'' then do {
       (h, s) \<leftarrow> get_number 2 0 s;
       s \<leftarrow> literal CHR '':'' s;
       (mi, s) \<leftarrow> get_number 2 0 s;
       if s = [] then Some ((if c = CHR ''-'' then -1 else 1) * (int h * 60 + int mi) * 60) else None }
     else None)"

definition parse_RFC3339 :: "string \<Rightarrow> ((nat \<times> nat \<times> nat) \<times> (nat \<times> nat \<times> nat) \<times> int) option" where
  "parse_RFC3339 s = do {
     (y, s) \<leftarrow> get_number 4 0 s; s \<leftarrow> literal CHR ''-'' s;
     (m, s) \<leftarrow> get_number 2 0 s; s \<leftarrow> literal CHR ''-'' s;
     (d, s) \<leftarrow> get_number 2 0 s; s \<leftarrow> literal CHR ''T'' s;
     (h, s) \<leftarrow> get_number 2 0 s; s \<leftarrow> literal CHR '':'' s;
     (mi, s) \<leftarrow> get_number 2 0 s; s \<leftarrow> literal CHR '':'' s;
     (se, s) \<leftarrow> get_number 2 0 s;
     zone \<leftarrow> parse_zone s;
     Some ((y, m, d), (h, mi, se), zone) }"

definition UnmarshalText :: "string \<Rightarrow> error + gotime" where
  "UnmarshalText s =
    (case parse_RFC3339 s of
       None \<Rightarrow> Inl (Errorf ''parsing time: cannot parse'')
     | Some ((y, m, d), (h, mi, se), zone) \<Rightarrow>
         if m < 1 \<or> 12 < m then Inl (Errorf ''parsing time: month out of range'')
         else if d < 1 \<or> month_lengths (int y) ! (m - 1) < int d then Inl (Errorf ''parsing time: day out of range'')
         else if 24 \<le> h then Inl (Errorf ''parsing time: hour out of range'')
         else if 60 \<le> mi then Inl (Errorf ''parsing time: minute out of range'')
         else if 60 \<le> se then Inl (Errorf ''parsing time: second out of range'')
         else Inr ((days_of_date (int y) m (int d) - 719162) * 86400 + int h * 3600 + int mi * 60 + int se - zone, zone))"

lemma zone_text_parsed:
  assumes "\<bar>off\<bar> < 360000"
  shows "parse_zone (zone_text off) = Some (zone_seconds off)"
proof (cases "off = 0")
  case False
  define z where "z = \<bar>zone_seconds off\<bar> div 60"
  define neg where "neg \<longleftrightarrow> zone_seconds off < 0"
  define q where "q = \<bar>off\<bar> div 60"
  have q: "0 \<le> q" "q < 6000" using assms by (simp_all add: q_def)
  have off: "zone_seconds off = (if off < 0 then - (60 * q) else 60 * q)" by (simp add: zone_seconds_def q_def)
  then have "z = q" using q(1) by (cases "off < 0") (simp_all add: z_def)
  then have z: "0 \<le> z" "z < 6000" "(if neg then -1 else 1) * z * 60 = zone_seconds off"
    using q off by (simp_all add: neg_def)
  have n: "nat z div 60 < 10 ^ 2" "nat z mod 60 < 10 ^ 2" using z(1,2) by simp_all
  have sum: "int (nat z div 60) * 60 + int (nat z mod 60) = z" using z(1) by (simp add: zdiv_int zmod_int)
  have out: "zone_text off = (if neg then CHR ''-'' else CHR ''+'') # appendInt 2 (nat z div 60) @ '':'' @ appendInt 2 (nat z mod 60)"
    using False by (simp only: zone_text_def z_def neg_def Let_def if_False)
  have parsed: "parse_zone (c # appendInt 2 (nat z div 60) @ '':'' @ appendInt 2 (nat z mod 60))
      = Some ((if c = CHR ''-'' then -1 else 1) * z * 60)" if "c = CHR ''+'' \<or> c = CHR ''-''" for c
    using that sum get_number_appendInt [OF _ n(1), of "'':'' @ appendInt 2 (nat z mod 60)"] get_number_appendInt [OF _ n(2), of "[]"]
    by auto
  from out parsed [of "CHR ''-''"] parsed [of "CHR ''+''"] z(3) show ?thesis by (cases neg) (simp_all del: parse_zone.simps)
qed (simp add: zone_text_def zone_seconds_def)

lemma appendInt_not_Nil [simp]: "0 < k \<Longrightarrow> appendInt k n \<noteq> []"
  by (cases "max k (decimal_width n)") (simp_all add: appendInt_def)

text \<open>What \<open>Scan\<close> reads of the text \<open>Value\<close> has written.\<close>

lemma unmarshal_marshal:
  assumes "MarshalText (s, off) = Inr out" and "\<bar>off\<bar> < 360000"
  shows "UnmarshalText out = Inr (s + (off - zone_seconds off), zone_seconds off)"
proof -
  obtain y m d where date: "date_of_days ((s + off) div 86400 + 719162) = (y, m, d)" by (cases "date_of_days ((s + off) div 86400 + 719162)") auto
  define secs where "secs = nat ((s + off) mod 86400)"
  have ok: "MarshalText_ok (s, off)" using assms(1) by (auto simp: MarshalText_def split: if_splits)
  have out: "out = appendInt 4 (nat y) @ ''-'' @ appendInt 2 m @ ''-'' @ appendInt 2 (nat d) @ ''T''
            @ appendInt 2 (secs div 3600) @ '':'' @ appendInt 2 (secs div 60 mod 60) @ '':'' @ appendInt 2 (secs mod 60) @ zone_text off"
    using assms(1) ok date by (simp add: MarshalText_def Let_def secs_def)
  note dr = date_of_days_result [OF date]
  have y: "0 \<le> y" "y \<le> 9999" using dr(6) ok by (auto simp: MarshalText_ok_def)
  have "month_lengths y ! (m - 1) \<in> set (month_lengths y)" using dr(2,3) by (intro nth_mem) (simp add: month_lengths_sum)
  then have "month_lengths y ! (m - 1) \<le> 31" by (auto simp: month_lengths_def split: if_splits)
  then have d: "1 \<le> d" "d \<le> 31" using dr(4,5) by simp_all
  have secs: "int secs = (s + off) mod 86400" "secs < 86400" by (simp_all add: secs_def nat_less_iff)
  have b: "nat y < 10 ^ 4" "m < 10 ^ 2" "nat d < 10 ^ 2" "secs div 3600 < 10 ^ 2" "secs div 60 mod 60 < 10 ^ 2" "secs mod 60 < 10 ^ 2"
    using y d dr(3) secs(2) by auto
  define h mi se where clock: "h = secs div 3600" "mi = secs div 60 mod 60" "se = secs mod 60"
  have parsed: "parse_RFC3339 out = Some ((nat y, m, nat d), (h, mi, se), zone_seconds off)"
    unfolding clock out parse_RFC3339_def using b zone_text_parsed [OF assms(2)] by (simp add: get_number_appendInt)
  have range: "h < 24" "mi < 60" "se < 60" using secs(2) by (auto simp: clock)
  have "int h * 3600 + int mi * 60 + int se = (s + off) mod 86400"
  proof -
    have "secs = 60 * (60 * h + mi) + se" unfolding clock
      using div_mult_mod_eq [of secs 60] div_mult_mod_eq [of "secs div 60" 60] div_mult2_eq [of secs 60 60] by simp
    then have "int secs = int (60 * (60 * h + mi) + se)" by simp
    then show ?thesis unfolding secs(1) [symmetric] by (simp only: of_nat_add of_nat_mult of_nat_numeral) simp
  qed
  then have "(days_of_date y m d - 719162) * 86400 + int h * 3600 + int mi * 60 + int se = s + off"
    unfolding dr(1) using div_mult_mod_eq [of "s + off" 86400] by (simp only: add_diff_cancel_right' add.assoc)
  then show ?thesis using parsed range y d dr(2-5) by (simp add: UnmarshalText_def)
qed

text \<open>
  C40: A time is read back from the database as it was stored: if \<open>Value\<close> has written it, \<open>Scan\<close> accepts the text, whether
  it comes as bytes or as a string, and gives the same instant in the same offset, provided the offset is whole
  minutes, as those of all zones are today. The seconds of any other offset are lost, and the instant moves by them.
\<close>

theorem time_roundtrip:
  assumes "Time_Value (s, off) = Inr out" and "\<bar>off\<bar> < 360000"
  shows "Time_Scan UnmarshalText (SrcBytes out) = Inr (s + (off - zone_seconds off), zone_seconds off)
    \<and> Time_Scan UnmarshalText (SrcString out) = Time_Scan UnmarshalText (SrcBytes out)
    \<and> (off mod 60 = 0 \<longrightarrow> Time_Scan UnmarshalText (SrcBytes out) = Inr (s, off))"
proof -
  have m: "MarshalText (s, off) = Inr out" using assms(1) by (simp add: Time_Value_def)
  then have "out \<noteq> []"
    by (auto simp: MarshalText_def Let_def split: if_splits prod.splits)
  moreover have "zone_seconds off = off" if "off mod 60 = 0" using that by (auto simp: zone_seconds_def)
  ultimately show ?thesis using unmarshal_marshal [OF m assms(2)] by (simp add: Time_Scan_def)
qed

lemma padded_2: "padded 2 n = [digit (n div 10 mod 10), digit (n mod 10)]"
  by (simp add: numeral_2_eq_2)

lemma padded_4: "padded 4 n = [digit (n div 1000 mod 10), digit (n div 100 mod 10), digit (n div 10 mod 10), digit (n mod 10)]"
proof -
  have "4 = Suc (Suc (Suc (Suc 0)))" by simp
  then show ?thesis by (simp only: padded.simps) simp
qed

lemma appendInt_small: "n < 100 \<Longrightarrow> appendInt 2 n = padded 2 n" "n < 10000 \<Longrightarrow> appendInt 4 n = padded 4 n"
  using decimal_width_le [of 2 n] decimal_width_le [of 4 n] by (simp_all add: appendInt_def max_absorb1)

text \<open>Noon of the sample day; and a time from when Berlin had its own local time, 53 minutes and 28 seconds ahead.\<close>

theorem time_roundtrip_witness:
  "Time_Value (1594044000, 7200) = Inr ''2020-07-06T16:00:00+02:00''
   \<and> Time_Scan UnmarshalText (SrcBytes ''2020-07-06T16:00:00+02:00'') = Inr (1594044000, 7200)
   \<and> Time_Scan UnmarshalText (SrcBytes ''1880-01-01T00:00:00+00:53'') = Inr (-2840143980, 3180)"
proof -
  have dates: "date_of_days 737611 = (2020, 7, 6)" "date_of_days 686290 = (1880, 1, 1)"
    by code_simp+
  note digits = appendInt_small padded_2 padded_4 digit_def
  have v: "Time_Value (1594044000, 7200) = Inr ''2020-07-06T16:00:00+02:00''"
    by (simp add: Time_Value_def MarshalText_def MarshalText_ok_def dates zone_text_def zone_seconds_def digits)
  have w: "Time_Value (-2840144008, 3208) = Inr ''1880-01-01T00:00:00+00:53''"
    by (simp add: Time_Value_def MarshalText_def MarshalText_ok_def dates zone_text_def zone_seconds_def digits)
  have z: "zone_seconds 7200 = 7200" "zone_seconds 3208 = 3180" by (simp_all add: zone_seconds_def)
  have "\<bar>7200 :: int\<bar> < 360000" "\<bar>3208 :: int\<bar> < 360000" by simp_all
  note r = time_roundtrip [OF v this(1), unfolded z] time_roundtrip [OF w this(2), unfolded z]
  from r(1) have "Time_Scan UnmarshalText (SrcBytes ''2020-07-06T16:00:00+02:00'') = Inr (1594044000 + (7200 - 7200), 7200)"
    by (rule conjunct1)
  moreover from r(2) have "Time_Scan UnmarshalText (SrcBytes ''1880-01-01T00:00:00+00:53'') = Inr (-2840144008 + (3208 - 3180), 3180)"
    by (rule conjunct1)
  ultimately show ?thesis using v by simp
qed

end
