(* ===== verification/Spec2Isabelle.thy ===== *)
theory Spec2Isabelle
  imports Concurrency Logging_In Answers Pages Retry_Bound Score_Bounds Test_Data Time_Text
begin

text \<open>
  A verification of the session scheduler: a web application in which the participants of an event
  propose discussions, say how much they want to attend each, and a scheduler places the
  discussions in the slots of a timetable. The model follows the Go source under \<^verbatim>\<open>src/\<close>, file by file; names
  are those of the source where Isabelle allows it.

  \<^bold>\<open>The program and its parts.\<close> \<open>main\<close> opens three SQLite files: the configuration (a key-value store), the
  event, and the sessions. It then schedules, edits the timetable, or serves. A request passes the
  middleware, which looks up the path in four routers (always, active, logged in, admin) and the user in the
  session store, and reaches a handler; handlers call the operations of the event package, each of which
  runs its SQL statements in a transaction that is repeated while the engine is busy.

  \<^bold>\<open>Foundations.\<close>
  \<^item> \<open>Prelude\<close>: the collections of rules and generic lemmas. \<open>Go_Text\<close>, \<open>Url_Text\<close>: bytes as strings, UTF-8 decoding,
    white space, the escaping of \<^verbatim>\<open>net/url\<close>. \<open>Event_Errors\<close>: \<^verbatim>\<open>event/errors.go\<close>, every error a value of the type \<open>error\<close>.
    \<open>Random_Id\<close>: \<^verbatim>\<open>id/id.go\<close>.
  \<^item> \<open>Event_Store\<close>: \<^verbatim>\<open>event/eventdb.go\<close>. The eight tables are lists of records (\<open>database\<close>); \<open>world\<close> adds the copy a transaction
    works on, the clock, the random bytes and the list of faults the engine will report, one for every
    call. \<open>txLoop\<close> is the retry loop. \<open>db_ok\<close> is what the schema enforces, \<open>event_inv\<close> adds what the operations promise.
    The locales \<open>tx_contract\<close> and \<open>stmt_contract\<close> say what a transaction body or a statement does to a database; from
    a contract they derive what the loop does to the world under every sequence of faults: success is
    the body's result, failure changes nothing and has one of the body's reasons or a fault. The operations
    that are one transaction interpret them. \<open>Samples\<close> is a small event for the witnesses.
  \<^item> \<open>Retry_Bound\<close>: how long a transaction can take. \<open>Effects\<close>, \<open>Reading\<close>: what each operation does to the stored event as
    a relation, and which calls only read.

  \<^bold>\<open>The event.\<close> \<open>Accounts\<close> and \<open>User_Removal\<close> (\<^verbatim>\<open>event/user.go\<close>), \<open>Time_Text\<close> (times as text, \<^verbatim>\<open>event/timedb.go\<close>; its zones
  are in \<open>Accounts\<close>), \<open>Discussions\<close> (\<^verbatim>\<open>event/discussion.go\<close>),
  \<open>Locations\<close> (\<^verbatim>\<open>event/location.go\<close>), \<open>Timetables\<close> and \<open>Timetable_View\<close> (\<^verbatim>\<open>event/timetable.go\<close>), \<open>Scheduler\<close> and
  \<open>Score_Bounds\<close> (\<^verbatim>\<open>event/schedule.go\<close>), \<open>Event_Load\<close> (\<^verbatim>\<open>event/event.go\<close>, \<open>openDb\<close>), \<open>Timezones\<close> (\<^verbatim>\<open>timezones/timezones.go\<close>). Their
  properties give the behaviour of every operation on each branch: what is stored, what is left alone, which
  errors there are; round trips between setting and reading; and for the scheduler that the greedy
  choice is optimal at every step, that the search loses nothing, and what a run does to the stored schedule.

  \<^bold>\<open>The server.\<close> \<open>Key_Value\<close> (\<^verbatim>\<open>keyvalue/keyvalue.go\<close>, a refinement of finite maps by the locale \<open>kv_map\<close>), \<open>Web_Sessions\<close>
  (\<^verbatim>\<open>sessions/\<close>), \<open>Display\<close> (\<^verbatim>\<open>display.go\<close>, \<open>ProcessText\<close> of \<^verbatim>\<open>template.go\<close>), \<open>Web_Server\<close> (the state \<open>server\<close> of all three stores
  and the reply, with the monad \<open>web\<close> of handlers), \<open>Handlers\<close> and \<open>Admin_Handlers\<close> (the files \<^verbatim>\<open>handle_*.go\<close>), \<open>Middleware\<close>
  (\<^verbatim>\<open>middleware.go\<close> and the routes of \<^verbatim>\<open>serve.go\<close>). The locale \<open>server_rel\<close> takes a relation on servers that the basic calls
  satisfy to whole handlers; \<open>Authorization\<close> interprets it for the invariant, for confinement (who changes what)
  and for the sessions issued. \<open>Logging_In\<close> shows that logging in works,
  \<open>Answers\<close> that every request gets one answer, \<open>Pages\<close> that the data of every page has the types its template
  takes it for (\<^verbatim>\<open>template.go\<close>, \<^verbatim>\<open>templates/\<close>). \<open>Edit_Timetable\<close> (\<^verbatim>\<open>cmd_editTimetable.go\<close>,
  \<^verbatim>\<open>externalEditor.go\<close>) and \<open>Startup\<close> (\<^verbatim>\<open>main.go\<close>, \<^verbatim>\<open>serve.go\<close>) complete the program.
  \<open>Concurrency\<close> runs any number of requests at once, as sequences of calls that alternate under the read-write lock of
  \<^verbatim>\<open>middleware.go\<close>: a request served alone is one of these runs, the event stays consistent at every moment, the
  shutdown waits for the requests and can always end, and what the process leaves on the disk can be served again. This theory puts
  the parts together: histories of requests, and the program from its start.

  \<^bold>\<open>Bounds.\<close> The only fuel is that of \<open>txLoop\<close>: one round more than there are faults left. Every contract shows that
  the loop then returns (\<open>NotReturned\<close> is never the result), and \<open>Retry_Bound\<close> that the time limit
  alone bounds the rounds too. All other loops are structural or have a termination proof. Go's 64-bit
  integers are unbounded here; \<open>Score_Bounds\<close> shows this exact for the scheduler's sums.

  \<^bold>\<open>Parameters.\<close> Outside the repository, and so arguments with their documented behaviour as hypotheses: bcrypt (a hash
  compares with its password), the zone database, \<open>sort.Slice\<close> (some sorted permutation), the formatting and parsing
  of times in what people read and write, the Markdown renderer and the sanitiser, Hjson, the editor, the file lock, the port drawn,
  the router's matching of paths, and how the SQL layer answers a batch insert of no rows. The engine's faults, the
  clocks and the random bytes are inputs, and theorems hold for all of them unless they say otherwise.

  \<^bold>\<open>Abstractions.\<close> Times of the event are seconds with an offset, those of sessions nanoseconds. Where SQL
  leaves an order open the model takes that of the table. Where the source drops an error, the value beside it is the
  zero value. A panic or \<open>log.Fatal\<close> ends the computation with the value \<open>Panicked\<close> or \<open>Exited\<close>; what was
  committed before stays. Log messages carry nothing and are left out, and so are the arguments of error messages.

  \<^bold>\<open>Not modelled.\<close> Executing the HTML templates: a page is the name of its template and its data. The content of
  static files and the listening socket. What a single handler answers while others change the stores between its calls: \<open>ServeHTTP\<close>
  runs alone, and \<open>Concurrency\<close> allows its calls with any arguments; what other connections do to a transaction shows as faults. How the
  random interests of \<^verbatim>\<open>event/testdata.go\<close>, which nothing calls, fare inside the transaction that iterates over the discussions
  (\<open>Test_Data\<close> has the calls it makes). Changing the working directory
  and profiling, which leave no trace in the state.
\<close>

section \<open>Histories of the server\<close>

text \<open>
  The states the server goes through: it handles one request after the other, with whatever the
  engines do, until the process exits. The history lists every request with the states before and
  after it.
\<close>

inductive history :: "web_env \<Rightarrow> lookup \<Rightarrow> server \<Rightarrow> (request \<times> server \<times> server) list \<Rightarrow> server \<Rightarrow> bool"
  for env Lookup sv0 where
  start: "history env Lookup sv0 [] sv0"
| request: "history env Lookup sv0 H sv \<Longrightarrow> ServeHTTP env Lookup r sv = (x, sv') \<Longrightarrow> (\<And>msg. x \<noteq> Inl (Exited msg)) \<Longrightarrow>
    history env Lookup sv0 (H @ [(r, sv, sv')]) sv'"

lemma history_keeps:
  assumes "history env Lookup sv0 H sv" and "env_ok env"
  shows "keeps_event sv0 sv"
  using assms
proof induction
  case (request H sv r x sv')
  then show ?case using web_relD [OF keeps_ServeHTTP request.hyps(2)] by (blast intro: keeping.rel_trans)
qed (rule keeping.rel_refl)

lemma history_sessions:
  assumes "history env Lookup sv0 H sv" and "env_ok env" and "lookup_ok Lookup" and "event_inv (sv_db sv0)"
    and "sess_ok (sv_sessions sv0)"
  shows "sess_ok (sv_sessions sv) \<and> (\<forall>c uid e. holder (sv_sessions sv) c = Some (uid, e) \<longrightarrow>
    holder (sv_sessions sv0) c = Some (uid, e) \<or>
    (\<exists>(r, before, after) \<in> set H. credentials env r (sv_db before) uid \<or> registered env r (sv_db before) (sv_db after) uid))"
  using assms
proof induction
  case (request H sv r x sv')
  have inv: "event_inv (sv_db sv)" using history_keeps [OF request.hyps(1)] request.prems by (simp add: keeps_event_def)
  have "grants env r sv sv'" by (rule web_relD [OF grants_ServeHTTP request.hyps(2)]) (rule request.prems)
  with request.IH request.prems inv show ?case unfolding grants_def by (simp add: split_beta) metis
qed simp

text \<open>
  Every state the server can reach. Started on an event that satisfies the invariant, whatever
  requests arrive and whatever the engines do, the event satisfies the invariant after every request:
  the constraints of the schema, and what the operations promise about the contents of the tables.
  And nobody ever becomes an admin: every account with that role had it at the start.
\<close>

theorem reachable_invariant:
  assumes "history env Lookup sv0 H sv" and "env_ok env" and "event_inv (sv_db sv0)"
  shows "event_inv (sv_db sv) \<and> admin_ids (sv_db sv) \<subseteq> admin_ids (sv_db sv0)"
  using history_keeps [OF assms(1,2)] assms(3) by (simp add: keeps_event_def)

lemma bob_history:
  "history sample_env sample_lookup sample_server [(bob_logs_in, sample_server, sample_server1)] sample_server1"
proof -
  obtain x where x: "ServeHTTP sample_env sample_lookup bob_logs_in sample_server = (x, sample_server1)"
    by (metis prod.collapse sample_server1_def)
  then have "x = Inr ()" using bob_logged_in by simp
  with history.request [OF history.start x] show ?thesis by simp
qed

theorem reachable_invariant_witness:
  "\<exists>H sv. history sample_env sample_lookup sample_server H sv \<and> length H = 1
     \<and> event_inv (sv_db sv) \<and> admin_ids (sv_db sv) \<subseteq> admin_ids (sv_db sample_server)"
  using reachable_invariant [OF bob_history sample_env_ok sample_server_inv] bob_history
  by (metis One_nat_def list.size(3,4) add_0)

text \<open>
  C4: No session without a password. Started without sessions, whenever a request is taken to come
  from a user, some earlier request has given the name and the password of that very account as they
  were stored at the time, or has registered the account with a name and a password of its own.
\<close>

theorem session_requires_credentials:
  assumes "history env Lookup sv0 H sv" and "env_ok env" and "lookup_ok Lookup" and "event_inv (sv_db sv0)"
    and "sess_rows (sv_sessions sv0) = []" and "RequestUser env r sv = (Inr (Some u), sv')"
  shows "\<exists>(r0, before, after) \<in> set H.
    credentials env r0 (sv_db before) (UserID u) \<or> registered env r0 (sv_db before) (sv_db after) (UserID u)"
proof -
  have empty: "sess_ok (sv_sessions sv0)" "holder (sv_sessions sv0) c = None" for c
    using assms(5) by (simp_all add: sess_ok_def holder_def row_holder_def)
  note h = history_sessions [OF assms(1-4) empty(1)]
  then have "acting sv r = Some (UserID u)" using RequestUser_found(1) [OF assms(6)] by blast
  then obtain c e where "holder (sv_sessions sv) c = Some (UserID u, e)"
    by (auto simp: acting_def split: option.splits)
  with h empty(2) show ?thesis by fastforce
qed

theorem session_requires_credentials_witness:
  "\<exists>H sv r u sv'. history sample_env sample_lookup sample_server H sv \<and> RequestUser sample_env r sv = (Inr (Some u), sv')
     \<and> UserID u = ''usr_b''
     \<and> (\<exists>(r0, before, after) \<in> set H.
          credentials sample_env r0 (sv_db before) (UserID u) \<or> registered sample_env r0 (sv_db before) (sv_db after) (UserID u))"
proof -
  let ?r = "sample_request ''GET'' ''/'' [] (reply_cookie (sv_replies sample_server1))"
  have "case RequestUser sample_env ?r sample_server1 of (Inr (Some u), _) \<Rightarrow> UserID u = ''usr_b'' | _ \<Rightarrow> False"
    using bob_logged_in by (simp add: sample_server1_def split_beta)
  then obtain u sv' where u: "RequestUser sample_env ?r sample_server1 = (Inr (Some u), sv')" "UserID u = ''usr_b''"
    by (auto split: prod.splits sum.splits option.splits)
  have "sess_rows (sv_sessions sample_server) = []" by (simp add: sample_server_def sample_sessions_def sess_rows_def)
  from session_requires_credentials [OF bob_history sample_env_ok sample_lookup_ok sample_server_inv this u(1)] u bob_history
  show ?thesis by blast
qed

section \<open>The program from its start\<close>

lemma main_env_ok:
  assumes "slice_sort (host_sort_Slice h)" and "empty_batch_ok (host_empty_NamedExec h)"
  shows "env_ok (main_env h zones loc tzl)"
  using assms by (simp add: env_ok_def main_env_def)

text \<open>
  C2: The program from its start. \<open>main\<close> is started on a database file that is new or was left by an
  earlier run, and on any configuration and any sessions with different identifiers. If it comes to
  serve, then after every sequence of requests, whatever the handlers do and the engines fail at, the
  event is consistent; only the accounts that were admins when serving began can be admins, and of these
  \<open>admin\<close> was set up with the password of the command line; and whoever holds a session held it before the
  start, or has logged in with name and password since, or has registered.
\<close>

theorem program_from_start:
  assumes "main h cl p = (Inr (Serving env address), p')" and "file_ok (es_files (pr_event p) DbFilename)"
    and "sess_ok (pr_sessions p)" and "bcrypt_ok (host_bcrypt h)" and "slice_sort (host_sort_Slice h)"
    and "empty_batch_ok (host_empty_NamedExec h)" and "lookup_ok Lookup" and "history env Lookup (server_of p') H sv"
  shows "event_inv (sv_db sv) \<and> admin_ids (sv_db sv) \<subseteq> admin_ids (sv_db (server_of p'))
    \<and> (\<exists>printed. admin_set (host_bcrypt h) (cl_adminPwd cl) printed (file_content (es_files (pr_event p) DbFilename)) (sv_db (server_of p')))
    \<and> sess_ok (sv_sessions sv)
    \<and> (\<forall>c uid e. holder (sv_sessions sv) c = Some (uid, e) \<longrightarrow> holder (pr_sessions p) c = Some (uid, e) \<or>
        (\<exists>(r, before, after) \<in> set H. credentials env r (sv_db before) uid \<or> registered env r (sv_db before) (sv_db after) uid))"
proof -
  note m = main_Serving [OF assms(1,4,2)]
  have env: "env_ok env" using m(5) main_env_ok [OF assms(5,6)] by auto
  have "keeps_event (server_of p') sv" by (rule history_keeps [OF assms(8) env])
  then show ?thesis
    using m(1,2) history_sessions [OF assms(8) env assms(7) m(1) m(4) [OF assms(3)]] m(3) by (simp add: keeps_event_def)
qed

text \<open>The front page, which everybody gets.\<close>

lemma answers_kv:
  assumes "\<And>v f. \<exists>sv'. g v (sv\<lparr>sv_kvs := f\<rparr>) = (Inr (), sv') \<and> sv_written sv'"
  shows "\<exists>sv'. web_bind (kv_call m) g sv = (Inr (), sv') \<and> sv_written sv'"
  using assms by (cases "m (sv_kvs sv)") (simp add: web_bind_def kv_call_def)

lemma page_anonymous:
  assumes "req_Cookie r = None"
  shows "\<exists>sv'. RenderTemplate env r name data sv = (Inr (), sv') \<and> sv_written sv'"
proof -
  have user: "web_bind (RequestUser env r) f sv = f None sv" for f :: "User option \<Rightarrow> unit web"
    by (simp add: web_bind_def RequestUser_anonymous [OF assms])
  show ?thesis unfolding RenderTemplate_def user by (intro answers_kv) (simp add: web_write_def)
qed

lemma home_page: "\<exists>sv'. ServeHTTP env sample_lookup (sample_request ''GET'' ''/'' [] None) sv = (Inr (), sv')"
proof -
  let ?r = "sample_request ''GET'' ''/'' [] None" and ?sv = "sv\<lparr>sv_replies := [], sv_written := False\<rparr>"
  have r: "req_Cookie ?r = None" by (simp add: sample_request_def)
  obtain sv' where page: "RenderTemplate env ?r ''index/home'' [] ?sv = (Inr (), sv')" "sv_written sv'"
    using page_anonymous [OF r] by blast
  have "sample_lookup always_router ''GET'' ''/'' = Some (Route_Home, [])" by (simp add: always_router_def)
  then have "route_via env sample_lookup ?r always_router (\<lambda>h. h) ?sv = (Inr (), sv')"
    using page by (simp add: route_via_def sample_request_def HandleHome_def)
  moreover have "LogRequest env ?r ?sv = (Inr (), ?sv)"
    by (simp add: LogRequest_def web_bind_def RequestUser_anonymous [OF r] web_return_def)
  ultimately show ?thesis
    using page(2) by (simp add: ServeHTTP_def web_bind_def NewMiddlewareResponseWriter_def unless_written_def)
qed

theorem program_from_start_witness:
  "\<exists>env p' H sv. main sample_host sample_command sample_process = (Inr (Serving env ''localhost:8080''), p')
     \<and> history env sample_lookup (server_of p') H sv \<and> length H = 1 \<and> event_inv (sv_db sv)
     \<and> (\<exists>printed. admin_set sample_bcrypt ''secret'' printed initDb (sv_db (server_of p')))"
proof -
  obtain env p' where m: "main sample_host sample_command sample_process = (Inr (Serving env ''localhost:8080''), p')"
    using sample_main by blast
  let ?r = "sample_request ''GET'' ''/'' [] None"
  obtain sv' where "ServeHTTP env sample_lookup ?r (server_of p') = (Inr (), sv')" using home_page by blast
  from history.request [OF history.start this] have h: "history env sample_lookup (server_of p') [(?r, server_of p', sv')] sv'" by simp
  have ok: "bcrypt_ok (host_bcrypt sample_host)" "slice_sort (host_sort_Slice sample_host)" "empty_batch_ok (host_empty_NamedExec sample_host)"
    using sample_bcrypt_ok sample_env_ok by (simp_all add: sample_host_def env_ok_def sample_env_def)
  have eqs: "cl_adminPwd sample_command = ''secret''" "host_bcrypt sample_host = sample_bcrypt"
    "file_content (es_files (pr_event sample_process) DbFilename) = initDb"
    by (simp_all add: sample_command_def sample_host_def sample_process_def sample_store_def new_file_def file_content_def)
  note safe = program_from_start [OF m sample_process_ok(1,2) ok sample_lookup_ok h, unfolded eqs]
  show ?thesis
    by (intro exI [of _ env] exI [of _ p'] exI [of _ "[(?r, server_of p', sv')]"] exI [of _ sv'] conjI m h)
      (use safe in simp_all)
qed

end
